(* ===== verification/Prelude.thy ===== *)
theory Prelude
  imports Main "HOL-Library.Word" "HOL-Library.Multiset" "HOL-Library.Signed_Division"
begin

text \<open>
  Shared vocabulary of the development: the sum type that stands for a TypeScript
  \<open>Result\<close> or a thrown \<open>Error\<close>, sequencing over it, the array operations the sources use
  (\<open>findIndex\<close>, \<open>slice\<close>, a \<open>map\<close> whose callback may throw), the number model, and the
  locale of a guarded machine, the common shape of the pure engine and of the
  cryptographic gate.

  Numbers. A JavaScript number that the sources use as an integer is an \<^typ>\<open>int\<close>;
  \<open>isSafeInteger\<close> is written out wherever the source tests it. Sums of safe integers that
  leave the safe range are rejected by those tests whether or not the double was rounded.
\<close>

named_theorems handler_defs \<open>unfolding of the per-action handlers of the engine\<close>
named_theorems codec_defs \<open>unfolding of the byte encoders and decoders\<close>

type_synonym byte = "8 word"

section \<open>Results\<close>

definition res_bind :: "'e + 'a \<Rightarrow> ('a \<Rightarrow> 'e + 'b) \<Rightarrow> 'e + 'b" where
  "res_bind m f = (case m of Inl e \<Rightarrow> Inl e | Inr x \<Rightarrow> f x)"

lemma res_bind_Inl [simp]: "res_bind (Inl e) f = Inl e"
  by (simp add: res_bind_def)

lemma res_bind_Inr [simp]: "res_bind (Inr x) f = f x"
  by (simp add: res_bind_def)

lemma res_bind_eq_Inr: "res_bind m f = Inr y \<longleftrightarrow> (\<exists>x. m = Inr x \<and> f x = Inr y)"
  by (cases m) auto

lemma res_bind_eq_Inl: "res_bind m f = Inl e \<longleftrightarrow> m = Inl e \<or> (\<exists>x. m = Inr x \<and> f x = Inl e)"
  by (cases m) auto

lemma res_bind_assoc: "res_bind (res_bind m f) g = res_bind m (\<lambda>x. res_bind (f x) g)"
  by (cases m) auto

lemma res_bind_return [simp]: "res_bind m Inr = m"
  by (cases m) auto

lemma res_bind_cong [fundef_cong]:
  "m = m' \<Longrightarrow> (\<And>x. m' = Inr x \<Longrightarrow> f x = f' x) \<Longrightarrow> res_bind m f = res_bind m' f'"
  by (cases m') auto

text \<open>Sequencing of computations that may throw and may also not return (\<^const>\<open>None\<close>).\<close>

definition pres_bind :: "('e + 'a) option \<Rightarrow> ('a \<Rightarrow> ('e + 'b) option) \<Rightarrow> ('e + 'b) option" where
  "pres_bind m f = (case m of None \<Rightarrow> None | Some (Inl e) \<Rightarrow> Some (Inl e) | Some (Inr x) \<Rightarrow> f x)"

lemma pres_bind_simps [simp]:
  "pres_bind None f = None" "pres_bind (Some (Inl e)) f = Some (Inl e)" "pres_bind (Some (Inr x)) f = f x"
  by (simp_all add: pres_bind_def)

lemma pres_bind_eq_Inr: "pres_bind m f = Some (Inr y) \<longleftrightarrow> (\<exists>x. m = Some (Inr x) \<and> f x = Some (Inr y))"
  by (auto simp: pres_bind_def split: option.splits sum.splits)

lemma pres_bind_returns:
  "\<exists>r. m = Some r \<Longrightarrow> (\<And>x. m = Some (Inr x) \<Longrightarrow> \<exists>r. f x = Some r) \<Longrightarrow> \<exists>r. pres_bind m f = Some r"
  by (auto simp: pres_bind_def split: sum.splits)

text \<open>A left-to-right traversal that stops at the first failure, as an \<open>Array.map\<close> or a
  \<open>for..of\<close> loop whose body throws.\<close>

fun map_res :: "('a \<Rightarrow> 'e + 'b) \<Rightarrow> 'a list \<Rightarrow> 'e + 'b list" where
  "map_res f [] = Inr []"
| "map_res f (x # xs) = res_bind (f x) (\<lambda>y. res_bind (map_res f xs) (\<lambda>ys. Inr (y # ys)))"

lemma map_res_cong [fundef_cong]:
  "xs = ys \<Longrightarrow> (\<And>x. x \<in> set ys \<Longrightarrow> f x = g x) \<Longrightarrow> map_res f xs = map_res g ys"
  by (induction ys arbitrary: xs) auto

lemma map_res_length: "map_res f xs = Inr ys \<Longrightarrow> length ys = length xs"
  by (induction xs arbitrary: ys) (auto simp: res_bind_eq_Inr)

lemma map_res_Inr_nth:
  "map_res f xs = Inr ys \<Longrightarrow> i < length xs \<Longrightarrow> f (xs ! i) = Inr (ys ! i)"
  by (induction xs arbitrary: ys i) (auto simp: res_bind_eq_Inr nth_Cons split: nat.splits)

lemma map_res_Inr_map:
  assumes "map_res f xs = Inr ys" and "\<And>x y. x \<in> set xs \<Longrightarrow> f x = Inr y \<Longrightarrow> g y = h x"
  shows "map g ys = map h xs"
  using assms by (induction xs arbitrary: ys) (auto simp: res_bind_eq_Inr)

lemma map_res_Inr_set:
  "map_res f xs = Inr ys \<Longrightarrow> y \<in> set ys \<Longrightarrow> \<exists>x \<in> set xs. f x = Inr y"
  by (induction xs arbitrary: ys) (auto simp: res_bind_eq_Inr)

lemma map_res_total: "(\<And>x. x \<in> set xs \<Longrightarrow> f x = Inr (g x)) \<Longrightarrow> map_res f xs = Inr (map g xs)"
  by (induction xs) auto

lemma map_res_Inl: "map_res f xs = Inl e \<Longrightarrow> \<exists>x \<in> set xs. f x = Inl e"
  by (induction xs) (auto simp: res_bind_eq_Inl)

lemma map_res_ok_iff: "(\<exists>ys. map_res f xs = Inr ys) \<longleftrightarrow> (\<forall>x \<in> set xs. \<exists>y. f x = Inr y)"
  by (induction xs) (auto simp: res_bind_eq_Inr)

section \<open>Arrays\<close>

text \<open>\<open>Array.findIndex\<close>; \<^const>\<open>None\<close> is the source's \<open>-1\<close>.\<close>

fun find_index :: "('a \<Rightarrow> bool) \<Rightarrow> 'a list \<Rightarrow> nat option" where
  "find_index P [] = None"
| "find_index P (x # xs) = (if P x then Some 0 else map_option Suc (find_index P xs))"

lemma find_index_SomeD:
  "find_index P xs = Some i \<Longrightarrow> i < length xs \<and> P (xs ! i) \<and> (\<forall>j<i. \<not> P (xs ! j))"
proof (induction xs arbitrary: i)
  case (Cons x xs)
  then show ?case
    by (cases i) (auto split: if_splits simp: less_Suc_eq_0_disj nth_Cons')
qed simp

lemma find_index_None_iff: "find_index P xs = None \<longleftrightarrow> (\<forall>x \<in> set xs. \<not> P x)"
  by (induction xs) auto

lemma find_index_unique:
  assumes "distinct (map g xs)" and "i < length xs"
  shows "find_index (\<lambda>x. g x = g (xs ! i)) xs = Some i"
  using assms
proof (induction xs arbitrary: i)
  case (Cons x xs)
  then show ?case by (cases i) (auto dest: nth_mem)
qed simp

text \<open>\<open>[...xs.slice(0, i), y, ...xs.slice(i + 1)]\<close>.\<close>

definition splice_at :: "nat \<Rightarrow> 'a \<Rightarrow> 'a list \<Rightarrow> 'a list" where
  "splice_at i y xs = take i xs @ [y] @ drop (Suc i) xs"

lemma splice_at_update: "i < length xs \<Longrightarrow> splice_at i y xs = xs[i := y]"
  by (simp add: splice_at_def upd_conv_take_nth_drop)

lemma length_splice_at [simp]: "i < length xs \<Longrightarrow> length (splice_at i y xs) = length xs"
  by (simp add: splice_at_update)

lemma map_splice_at:
  "i < length xs \<Longrightarrow> g y = g (xs ! i) \<Longrightarrow> map g (splice_at i y xs) = map g xs"
  by (simp add: splice_at_update map_update list_update_same_conv)

lemma set_splice_at: "set (splice_at i y xs) \<subseteq> insert y (set xs)"
  by (auto simp: splice_at_def dest: in_set_takeD in_set_dropD)

section \<open>Numbers\<close>

definition MAX_SAFE_INTEGER :: int where
  "MAX_SAFE_INTEGER = 9007199254740991"

definition isSafeInteger :: "int \<Rightarrow> bool" where
  "isSafeInteger n \<longleftrightarrow> - MAX_SAFE_INTEGER \<le> n \<and> n \<le> MAX_SAFE_INTEGER"

text \<open>The \<open>%\<close> operator: the remainder takes the sign of the dividend.\<close>

definition js_rem :: "int \<Rightarrow> int \<Rightarrow> int" where
  "js_rem a b = a smod b"

lemma js_rem_nonneg: "0 \<le> a \<Longrightarrow> 0 < b \<Longrightarrow> js_rem a b = a mod b"
  by (cases "a = 0") (simp_all add: js_rem_def signed_modulo_int_def)

section \<open>Guarded machines\<close>

text \<open>
  A guarded machine takes a state and an input and either accepts, with the successor
  state, or fails. \<open>run_machine\<close> feeds it a list of inputs and stops at the first failure.
  The transition function of the engine is an instance of it, with and without typed actions.
\<close>

fun run_machine :: "('s \<Rightarrow> 'i \<Rightarrow> 'e + 's) \<Rightarrow> 's \<Rightarrow> 'i list \<Rightarrow> 'e + 's" where
  "run_machine stp s [] = Inr s"
| "run_machine stp s (i # is) = res_bind (stp s i) (\<lambda>s'. run_machine stp s' is)"

lemma run_machine_append:
  "run_machine stp s (is @ js) = res_bind (run_machine stp s is) (\<lambda>s'. run_machine stp s' js)"
  by (induction "is" arbitrary: s) (auto simp: res_bind_assoc)

locale guarded_machine =
  fixes stp :: "'s \<Rightarrow> 'i \<Rightarrow> 'e + 's" and inv :: "'s \<Rightarrow> bool"
  assumes stp_inv: "inv s \<Longrightarrow> stp s i = Inr s' \<Longrightarrow> inv s'"
begin

lemma run_inv: "inv s \<Longrightarrow> run_machine stp s is = Inr s' \<Longrightarrow> inv s'"
  by (induction "is" arbitrary: s) (auto simp: res_bind_eq_Inr dest: stp_inv)

lemma run_prefix_ok:
  assumes "run_machine stp s (is @ js) = Inr s'"
  obtains t where "run_machine stp s is = Inr t" and "run_machine stp t js = Inr s'"
  using assms by (auto simp: run_machine_append res_bind_eq_Inr)

end

end
