(* ===== verification/Primitives.thy ===== *)
theory Primitives
  imports Prelude
begin

text \<open>
  \<open>packages/protocol-types/src/primitives.ts\<close>: the branded identifier types with their
  validating constructors, the \<open>Result\<close> type and the error codes.

  A protocol error is represented by its code; the optional \<open>context\<close> text is advisory in
  the source and is left out. A thrown \<open>Error\<close> is kept apart from a returned error: it is
  \<open>Thrown f\<close>, with the function that throws it.
\<close>

type_synonym game_id = string
type_synonym player_id = string
type_synonym seat = int
type_synonym round_number = int
type_synonym hash256 = string
type_synonym pubkey33 = string
type_synonym tx_id = string
type_synonym outpoint = string
type_synonym satoshis = int
type_synonym block_height = int
type_synonym action_nonce = string
type_synonym rule_set_hash = string

datatype error_code =
    INVALID_STAKE_AMOUNT
  | INVALID_REVEAL_PROOF
  | INVALID_TX_CONFORMANCE
  | INVALID_SIGNATURE
  | INVALID_STATE_TRANSITION
  | INVALID_ACTION_FOR_STATE
  | INVALID_BET_AMOUNT
  | INVALID_SUCCESSOR_TEMPLATE
  | INVALID_RULE_SET
  | STALE_STATE
  | STATE_NOT_FOUND
  | DOUBLE_SPEND_CONFLICT
  | TIMEOUT_NOT_MATURE
  | RECOVERY_NOT_MATURE
  | BAD_BINDING
  | PLAYER_NOT_SEATED
  | PLAYER_ALREADY_SEATED
  | TABLE_FULL
  | TABLE_NOT_LOCKABLE
  | SEAT_OUT_OF_RANGE
  | SERIALISATION_ERROR
  | UNSUPPORTED_VERSION

text \<open>\<open>Rejected c\<close> is the returned \<open>err(protocolError(c, ...))\<close>.\<close>

datatype failure = Rejected error_code | Thrown string

type_synonym 'a result = "failure + 'a"

abbreviation err :: "error_code \<Rightarrow> 'a result" where
  "err c \<equiv> Inl (Rejected c)"

abbreviation throw :: "string \<Rightarrow> 'a result" where
  "throw f \<equiv> Inl (Thrown f)"

abbreviation ok :: "'a \<Rightarrow> 'a result" where
  "ok x \<equiv> Inr x"

section \<open>Validating constructors\<close>

text \<open>The character class \<open>[0-9a-f]\<close> and the pattern of \<open>n\<close> of them, anchored at both ends.\<close>

definition is_lower_hex :: "char \<Rightarrow> bool" where
  "is_lower_hex c \<longleftrightarrow> c \<in> set ''0123456789abcdef''"

definition hex_string :: "nat \<Rightarrow> string \<Rightarrow> bool" where
  "hex_string n h \<longleftrightarrow> length h = n \<and> list_all is_lower_hex h"

definition asHash256 :: "string \<Rightarrow> hash256 result" where
  "asHash256 h = (if \<not> hex_string 64 h then throw ''asHash256'' else ok h)"

definition compressed_pubkey_hex :: "string \<Rightarrow> bool" where
  "compressed_pubkey_hex h \<longleftrightarrow>
     (take 2 h = ''02'' \<or> take 2 h = ''03'') \<and> hex_string 64 (drop 2 h)"

definition asPubkey33 :: "string \<Rightarrow> pubkey33 result" where
  "asPubkey33 h = (if \<not> compressed_pubkey_hex h then throw ''asPubkey33'' else ok h)"

definition asGameId :: "string \<Rightarrow> game_id result" where
  "asGameId h = (if \<not> hex_string 64 h then throw ''asGameId'' else ok h)"

definition asRuleSetHash :: "string \<Rightarrow> rule_set_hash result" where
  "asRuleSetHash h = (if \<not> hex_string 64 h then throw ''asRuleSetHash'' else ok h)"

definition asSeat :: "int \<Rightarrow> seat result" where
  "asSeat n = (if \<not> isSafeInteger n \<or> n < 0 then throw ''asSeat'' else ok n)"

definition asRoundNumber :: "int \<Rightarrow> round_number result" where
  "asRoundNumber n = (if \<not> isSafeInteger n \<or> n < 0 then throw ''asRoundNumber'' else ok n)"

definition asSatoshis :: "int \<Rightarrow> satoshis result" where
  "asSatoshis n = (if \<not> isSafeInteger n \<or> n < 0 then throw ''asSatoshis'' else ok n)"

definition asBlockHeight :: "int \<Rightarrow> block_height result" where
  "asBlockHeight n =
     (if \<not> isSafeInteger n \<or> n < 0 \<or> n \<ge> 500000000 then throw ''asBlockHeight'' else ok n)"

definition asActionNonce :: "string \<Rightarrow> action_nonce result" where
  "asActionNonce h = (if \<not> hex_string 64 h then throw ''asActionNonce'' else ok h)"

definition asTxId :: "string \<Rightarrow> tx_id result" where
  "asTxId h = (if \<not> hex_string 64 h then throw ''asTxId'' else ok h)"

definition asPlayerId :: "string \<Rightarrow> player_id result" where
  "asPlayerId h = (if \<not> hex_string 64 h then throw ''asPlayerId'' else ok h)"

text \<open>What a validated number is: the range each constructor lets through.\<close>

definition safe_nat :: "int \<Rightarrow> bool" where
  "safe_nat n \<longleftrightarrow> 0 \<le> n \<and> n \<le> MAX_SAFE_INTEGER"

lemma safe_nat_iff: "safe_nat n \<longleftrightarrow> isSafeInteger n \<and> \<not> n < 0"
  by (auto simp: safe_nat_def isSafeInteger_def MAX_SAFE_INTEGER_def)

lemma asSeat_eq: "asSeat n = (if safe_nat n then ok n else throw ''asSeat'')"
  by (auto simp: asSeat_def safe_nat_iff)

lemma asRoundNumber_eq: "asRoundNumber n = (if safe_nat n then ok n else throw ''asRoundNumber'')"
  by (auto simp: asRoundNumber_def safe_nat_iff)

lemma asSatoshis_eq: "asSatoshis n = (if safe_nat n then ok n else throw ''asSatoshis'')"
  by (auto simp: asSatoshis_def safe_nat_iff)

lemmas number_constructors = asSeat_eq asRoundNumber_eq asSatoshis_eq

lemma safe_nat_0 [simp]: "safe_nat 0"
  by (simp add: safe_nat_def MAX_SAFE_INTEGER_def)

lemma safe_nat_nonneg: "safe_nat n \<Longrightarrow> 0 \<le> n"
  by (simp add: safe_nat_def)

lemma hex_string_replicate: "is_lower_hex c \<Longrightarrow> hex_string n (replicate n c)"
  by (simp add: hex_string_def list_all_iff)

lemma is_lower_hex_digit [simp]: "is_lower_hex CHR ''0''" "is_lower_hex CHR ''a''" "is_lower_hex CHR ''b''"
  by (simp_all add: is_lower_hex_def)

end
