(* ===== verification/Cards.thy ===== *)
theory Cards
  imports Primitives
begin

text \<open>
  \<open>packages/protocol-types/src/cards.ts\<close>: suits, ranks, the canonical ordinal of a card
  and its inverse, commitments, concealed cards and reveal proofs.
\<close>

datatype suit = Clubs | Diamonds | Hearts | Spades

datatype rank = R2 | R3 | R4 | R5 | R6 | R7 | R8 | R9 | R10 | RJ | RQ | RK | RA

definition SUITS_IN_ORDER :: "suit list" where
  "SUITS_IN_ORDER = [Clubs, Diamonds, Hearts, Spades]"

definition RANKS_IN_ORDER :: "rank list" where
  "RANKS_IN_ORDER = [R2, R3, R4, R5, R6, R7, R8, R9, R10, RJ, RQ, RK, RA]"

record revealed_card =
  rank :: rank
  suit :: suit
  ordinal :: int

definition cardOrdinal :: "rank \<Rightarrow> suit \<Rightarrow> int result" where
  "cardOrdinal rk st =
     (case (find_index ((=) rk) RANKS_IN_ORDER, find_index ((=) st) SUITS_IN_ORDER) of
        (Some r, Some s) \<Rightarrow> ok (13 * int s + int r)
      | _ \<Rightarrow> throw ''cardOrdinal'')"

definition cardFromOrdinal :: "int \<Rightarrow> revealed_card result" where
  "cardFromOrdinal n =
     (if n < 0 \<or> n > 51 then throw ''cardFromOrdinal''
      else let si = nat (n div 13); ri = nat (n mod 13)
        in if si < length SUITS_IN_ORDER \<and> ri < length RANKS_IN_ORDER
           then ok \<lparr> rank = RANKS_IN_ORDER ! ri, suit = SUITS_IN_ORDER ! si, ordinal = n \<rparr>
           else throw ''cardFromOrdinal'')"

record card_commitment =
  position :: int
  card_commitment :: hash256
  card_nonce :: hash256

text \<open>\<open>CardLifecycleState\<close> admits any string; the canonical five are named.\<close>

datatype card_lifecycle_state =
    UNDEALT | ASSIGNED_CONCEALED | REVEALED | SURRENDERED | RETIRED | Variant_State string

definition CANONICAL_LIFECYCLE_STATES :: "card_lifecycle_state list" where
  "CANONICAL_LIFECYCLE_STATES = [UNDEALT, ASSIGNED_CONCEALED, REVEALED, SURRENDERED, RETIRED]"

record concealed_card =
  commitment :: card_commitment
  ciphertext :: string
  custody_outpoint :: outpoint
  holder_pubkey :: pubkey33
  lifecycle_state :: card_lifecycle_state

record reveal_proof =
  proof_position :: int
  proof_card :: revealed_card
  proof_card_nonce :: hash256
  proof_deck_nonce :: hash256

section \<open>The canonical order as a linear order\<close>

definition suit_index :: "suit \<Rightarrow> nat" where
  "suit_index s = the (find_index ((=) s) SUITS_IN_ORDER)"

definition rank_index :: "rank \<Rightarrow> nat" where
  "rank_index r = the (find_index ((=) r) RANKS_IN_ORDER)"

lemma suit_index_simps [simp]:
  "suit_index Clubs = 0" "suit_index Diamonds = 1" "suit_index Hearts = 2" "suit_index Spades = 3"
  by (simp_all add: suit_index_def SUITS_IN_ORDER_def)

lemma rank_index_simps [simp]:
  "rank_index R2 = 0" "rank_index R3 = 1" "rank_index R4 = 2" "rank_index R5 = 3"
  "rank_index R6 = 4" "rank_index R7 = 5" "rank_index R8 = 6" "rank_index R9 = 7"
  "rank_index R10 = 8" "rank_index RJ = 9" "rank_index RQ = 10" "rank_index RK = 11"
  "rank_index RA = 12"
  by (simp_all add: rank_index_def RANKS_IN_ORDER_def)

instantiation suit :: linorder
begin

definition less_eq_suit :: "suit \<Rightarrow> suit \<Rightarrow> bool" where
  "s \<le> t \<longleftrightarrow> suit_index s \<le> suit_index t"

definition less_suit :: "suit \<Rightarrow> suit \<Rightarrow> bool" where
  "s < t \<longleftrightarrow> suit_index s < suit_index t"

instance
proof
  fix s t u :: suit
  show "(s < t) = (s \<le> t \<and> \<not> t \<le> s)" by (auto simp: less_eq_suit_def less_suit_def)
  show "s \<le> s" by (simp add: less_eq_suit_def)
  show "s \<le> t \<Longrightarrow> t \<le> u \<Longrightarrow> s \<le> u" by (simp add: less_eq_suit_def)
  show "s \<le> t \<Longrightarrow> t \<le> s \<Longrightarrow> s = t" by (cases s; cases t) (simp_all add: less_eq_suit_def)
  show "s \<le> t \<or> t \<le> s" by (auto simp: less_eq_suit_def)
qed

end

lemma rank_index_inj: "rank_index r = rank_index r' \<Longrightarrow> r = r'"
  by (cases r; cases r'; simp)

instantiation rank :: linorder
begin

definition less_eq_rank :: "rank \<Rightarrow> rank \<Rightarrow> bool" where
  "r \<le> r' \<longleftrightarrow> rank_index r \<le> rank_index r'"

definition less_rank :: "rank \<Rightarrow> rank \<Rightarrow> bool" where
  "r < r' \<longleftrightarrow> rank_index r < rank_index r'"

instance
proof
  fix r r' r'' :: rank
  show "(r < r') = (r \<le> r' \<and> \<not> r' \<le> r)" by (auto simp: less_eq_rank_def less_rank_def)
  show "r \<le> r" by (simp add: less_eq_rank_def)
  show "r \<le> r' \<Longrightarrow> r' \<le> r'' \<Longrightarrow> r \<le> r''" by (simp add: less_eq_rank_def)
  show "r \<le> r' \<Longrightarrow> r' \<le> r \<Longrightarrow> r = r'" by (simp add: less_eq_rank_def rank_index_inj)
  show "r \<le> r' \<or> r' \<le> r" by (auto simp: less_eq_rank_def)
qed

end

section \<open>Ordinals\<close>

lemma rank_index_bound: "rank_index r < 13"
  by (cases r) simp_all

lemma suit_index_bound: "suit_index s < 4"
  by (cases s) simp_all

lemma find_rank: "find_index ((=) r) RANKS_IN_ORDER = Some (rank_index r)"
  by (cases r) (simp_all add: RANKS_IN_ORDER_def)

lemma find_suit: "find_index ((=) s) SUITS_IN_ORDER = Some (suit_index s)"
  by (cases s) (simp_all add: SUITS_IN_ORDER_def)

lemma cardOrdinal_eq: "cardOrdinal r s = ok (13 * int (suit_index s) + int (rank_index r))"
  by (simp add: cardOrdinal_def find_rank find_suit)

lemma ranks_nth: "RANKS_IN_ORDER ! rank_index r = r"
  by (cases r) (simp_all add: RANKS_IN_ORDER_def)

lemma suits_nth: "SUITS_IN_ORDER ! suit_index s = s"
  by (cases s) (simp_all add: SUITS_IN_ORDER_def)

lemma order_lengths: "length SUITS_IN_ORDER = 4" "length RANKS_IN_ORDER = 13"
  by (simp_all add: SUITS_IN_ORDER_def RANKS_IN_ORDER_def)

lemma cardFromOrdinal_cardOrdinal:
  "cardOrdinal r s = ok n \<Longrightarrow> cardFromOrdinal n = ok \<lparr> rank = r, suit = s, ordinal = n \<rparr>"
  using rank_index_bound[of r] suit_index_bound[of s]
  by (auto simp: cardOrdinal_eq cardFromOrdinal_def Let_def ranks_nth suits_nth order_lengths)

lemma rank_index_nth: "i < 13 \<Longrightarrow> rank_index (RANKS_IN_ORDER ! i) = i"
  by (auto simp: RANKS_IN_ORDER_def less_Suc_eq numeral_eq_Suc nth_Cons split: nat.splits)

lemma suit_index_nth: "i < 4 \<Longrightarrow> suit_index (SUITS_IN_ORDER ! i) = i"
  by (auto simp: SUITS_IN_ORDER_def less_Suc_eq numeral_eq_Suc)

lemma ordinal_of_parts:
  "0 \<le> n \<Longrightarrow> n \<le> 51 \<Longrightarrow>
     cardOrdinal (RANKS_IN_ORDER ! nat (n mod 13)) (SUITS_IN_ORDER ! nat (n div 13)) = ok n"
  using pos_imp_zdiv_nonneg_iff[of 13 n] by (simp add: cardOrdinal_eq rank_index_nth suit_index_nth nat_less_iff)

end
