(* ===== verification/Protocol_Types.thy ===== *)
theory Protocol_Types
  imports Cards
begin

text \<open>
  The protocol's data: \<open>rule-set.ts\<close>, \<open>player.ts\<close>, \<open>actions.ts\<close>, \<open>game-state.ts\<close> and
  \<open>settlement.ts\<close> of \<open>packages/protocol-types/src\<close>. Interfaces are records with the source's
  field names (an action's shared fields carry the prefix \<open>act_\<close> where the state has a field
  of the same name), string unions are datatypes, \<open>T | null\<close> is \<open>option\<close>, and a
  \<open>Record<string, string>\<close> is an association list in insertion order.
\<close>

section \<open>Rule sets\<close>

datatype game_type = In_between

record penalty_schedule =
  non_reveal :: satoshis
  bad_reveal :: satoshis
  consecutive_cards :: satoshis
  equal_cards :: satoshis

record settlement_rules =
  in_between_win_multiplier :: int
  in_between_loss_multiplier :: int
  consecutive_cards_penalty :: satoshis
  equal_cards_penalty :: satoshis

record recovery_rules =
  refund_stakes_to_funders :: bool
  apply_non_reveal_penalty :: bool
  apply_bad_reveal_penalty :: bool

record rule_set =
  game_type :: game_type
  player_count_min :: int
  player_count_max :: int
  stake_amount :: satoshis
  min_bet :: satoshis
  max_bet :: satoshis
  decision_timeout_blocks :: int
  recovery_timeout_blocks :: int
  invitation_window_blocks :: int
  default_action_by_state :: "(string \<times> string) list"
  penalty_schedule :: penalty_schedule
  deck_format :: int
  shuffle_algorithm_version :: int
  settlement_rules :: settlement_rules
  recovery_rules :: recovery_rules
  serialisation_version :: int

section \<open>Players\<close>

datatype participation_status =
    Invited | Joined | Ready | Active | Folded | Settled | Disconnected | Timed_out | Forfeited

record player_state =
  seat :: seat
  player_id :: player_id
  value_signing_pubkey :: pubkey33
  participation_status :: participation_status
  stake_at_risk :: satoshis
  stake_outpoint :: "outpoint option"
  entropy_committed :: bool
  entropy_commitment_hash :: "hash256 option"
  entropy_revealed :: bool
  entropy_value :: "hash256 option"
  concealed_card_refs :: "outpoint list"
  default_preferences :: "(string \<times> string) list"

section \<open>Actions\<close>

datatype action_type =
    Join | EntropyCommit | EntropyReveal | CardReveal | DealConcealed | BetAction | Pass | Fold
  | Settle | RotateTurn | TableLock | TableClose | Timeout | Recovery

text \<open>The fields each member of the \<open>SignedAction\<close> union adds to \<open>SignedActionBase\<close>.\<close>

datatype action_payload =
    Join_Payload pubkey33 satoshis
  | EntropyCommit_Payload hash256
  | EntropyReveal_Payload hash256
  | CardReveal_Payload reveal_proof
  | DealConcealed_Payload "concealed_card list"
  | Bet_Payload satoshis
  | Pass_Payload
  | Fold_Payload
  | Settle_Payload
  | RotateTurn_Payload
  | TableLock_Payload
  | TableClose_Payload
  | Timeout_Payload action_type seat
  | Recovery_Payload string

record signed_action =
  act_game_id :: game_id
  act_round_number :: round_number
  referenced_state_hash :: hash256
  action_nonce :: action_nonce
  act_seat :: "seat option"
  authorising_signature :: string
  successor_state_commitment :: hash256
  payload :: action_payload

text \<open>The discriminant field \<open>action_type\<close>.\<close>

fun payload_type :: "action_payload \<Rightarrow> action_type" where
  "payload_type (Join_Payload _ _) = Join"
| "payload_type (EntropyCommit_Payload _) = EntropyCommit"
| "payload_type (EntropyReveal_Payload _) = EntropyReveal"
| "payload_type (CardReveal_Payload _) = CardReveal"
| "payload_type (DealConcealed_Payload _) = DealConcealed"
| "payload_type (Bet_Payload _) = BetAction"
| "payload_type Pass_Payload = Pass"
| "payload_type Fold_Payload = Fold"
| "payload_type Settle_Payload = Settle"
| "payload_type RotateTurn_Payload = RotateTurn"
| "payload_type TableLock_Payload = TableLock"
| "payload_type TableClose_Payload = TableClose"
| "payload_type (Timeout_Payload _ _) = Timeout"
| "payload_type (Recovery_Payload _) = Recovery"

abbreviation act_type :: "signed_action \<Rightarrow> action_type" where
  "act_type a \<equiv> payload_type (payload a)"

section \<open>The round state\<close>

datatype state_class =
    S0_TABLE_OPEN
  | S1_SEAT_OPEN
  | S2_TABLE_LOCKED
  | S3_ENTROPY_COMMIT_WINDOW
  | S4_ENTROPY_REVEAL_WINDOW
  | S5_DECK_COMMITTED
  | S6_CARD_REVEAL_FIRST
  | S7_CARD_REVEAL_SECOND
  | S8_BET_DECISION
  | S9_CARD_REVEAL_THIRD
  | S10_SETTLED_ROUND
  | S11_ROTATE_TURN
  | S12_TABLE_CLOSE
  | RECOVERED

record round_state =
  state_class :: state_class
  game_id :: game_id
  rule_set_hash :: rule_set_hash
  round_number :: round_number
  acting_player_seat :: "seat option"
  players :: "player_state list"
  pot_value :: satoshis
  visible_cards :: "revealed_card list"
  hidden_commitment_refs :: "hash256 list"
  allowed_actions :: "action_type list"
  decision_deadline_block_height :: "block_height option"
  recovery_deadline_block_height :: "block_height option"
  successor_template_hashes :: "hash256 list"
  combined_entropy :: "hash256 option"
  deck_commitment_hash :: "hash256 option"
  concealed_deck :: "concealed_card list option"
  prior_state_hash :: "hash256 option"
  state_hash :: hash256

section \<open>Settlement\<close>

datatype settlement_outcome = Win | Loss | Pass_Outcome | Consecutive_Penalty | Equal_Penalty

record settlement_result =
  round_state_hash :: hash256
  outcome :: settlement_outcome
  sr_bet_amount :: satoshis
  sr_acting_player_seat :: seat
  amount_won_or_lost :: satoshis
  resulting_pot_value :: satoshis
  resulting_balances :: "satoshis list"

end
