(* ===== verification/Penalties.thy ===== *)
theory Penalties
  imports Protocol_Types
begin

text \<open>
  \<open>pot.ts\<close> and \<open>penalties.ts\<close> of \<open>packages/state-engine/src\<close>: pot arithmetic, the outcome
  class of a round, and the value it moves between the acting player and the pot.
\<close>

section \<open>The pot\<close>

definition addToPot :: "satoshis \<Rightarrow> satoshis \<Rightarrow> satoshis result" where
  "addToPot pot delta =
     (let nxt = pot + delta
      in if \<not> isSafeInteger nxt then throw ''addToPot'' else asSatoshis nxt)"

definition subtractFromPot :: "satoshis \<Rightarrow> satoshis \<Rightarrow> satoshis result" where
  "subtractFromPot pot delta =
     (if delta > pot then throw ''subtractFromPot'' else asSatoshis (pot - delta))"

lemma addToPot_Inr_iff: "addToPot p d = ok q \<longleftrightarrow> q = p + d \<and> safe_nat q"
  by (auto simp: addToPot_def Let_def asSatoshis_eq safe_nat_iff)

lemma subtractFromPot_Inr_iff:
  "subtractFromPot p d = ok q \<longleftrightarrow> q = p - d \<and> safe_nat q"
  by (auto simp: subtractFromPot_def asSatoshis_eq safe_nat_def)

section \<open>Outcome classes\<close>

text \<open>The pair is \<open>{ outcome, thirdCardChecked }\<close>.\<close>

definition classifyInBetweenRound ::
  "revealed_card list \<Rightarrow> (settlement_outcome \<times> bool) result" where
  "classifyInBetweenRound visibleCards =
     (case visibleCards of
        [a, b, c] \<Rightarrow>
          (let aOrd = js_rem (ordinal a) 13; bOrd = js_rem (ordinal b) 13
           in if aOrd = bOrd then ok (Equal_Penalty, False)
              else if \<bar>aOrd - bOrd\<bar> = 1 then ok (Consecutive_Penalty, False)
              else let cOrd = js_rem (ordinal c) 13; low = min aOrd bOrd; high = max aOrd bOrd
                in if cOrd > low \<and> cOrd < high then ok (Win, True) else ok (Loss, True))
      | _ \<Rightarrow> throw ''classifyInBetweenRound'')"

lemma classify_ok_iff: "(\<exists>r. classifyInBetweenRound cs = ok r) \<longleftrightarrow> length cs = 3"
  by (auto simp: classifyInBetweenRound_def Let_def numeral_3_eq_3 length_Suc_conv
      split: list.splits)

lemma classify_length: "classifyInBetweenRound cs = ok r \<Longrightarrow> length cs = 3"
  using classify_ok_iff by blast

lemma classify_not_rejected: "classifyInBetweenRound cs \<noteq> err e"
  by (simp add: classifyInBetweenRound_def Let_def split: list.splits)

lemma classify_not_pass: "classifyInBetweenRound cs = ok (oc, t) \<Longrightarrow> oc \<noteq> Pass_Outcome"
  by (auto simp: classifyInBetweenRound_def Let_def split: list.splits if_splits)

text \<open>A card of the 52-card deck has the residue of its rank.\<close>

definition canonical_card :: "revealed_card \<Rightarrow> bool" where
  "canonical_card c \<longleftrightarrow> cardOrdinal (rank c) (suit c) = ok (ordinal c)"

lemma canonical_residue: "canonical_card c \<Longrightarrow> js_rem (ordinal c) 13 = int (rank_index (rank c))"
proof -
  assume "canonical_card c"
  then have "ordinal c = 13 * int (suit_index (suit c)) + int (rank_index (rank c))"
    by (simp add: canonical_card_def cardOrdinal_eq)
  then show ?thesis using rank_index_bound[of "rank c"] by (simp add: js_rem_nonneg)
qed

section \<open>Value transfer\<close>

text \<open>The pair is \<open>{ playerDelta, potDelta }\<close>.\<close>

fun computeValueTransfer ::
  "settlement_outcome \<Rightarrow> satoshis \<Rightarrow> settlement_rules \<Rightarrow> int \<times> int" where
  "computeValueTransfer Win bet rules =
     (let win = bet * in_between_win_multiplier rules in (win, - win))"
| "computeValueTransfer Loss bet rules =
     (let loss = bet * in_between_loss_multiplier rules in (- loss, loss))"
| "computeValueTransfer Pass_Outcome bet rules = (0, 0)"
| "computeValueTransfer Consecutive_Penalty bet rules =
     (let p = consecutive_cards_penalty rules in (- p, p))"
| "computeValueTransfer Equal_Penalty bet rules =
     (let p = equal_cards_penalty rules in (- p, p))"

lemma value_transfer_zero_sum:
  "computeValueTransfer oc bet rules = (pd, qd) \<Longrightarrow> qd = - pd"
  by (cases oc) (auto simp: Let_def)

definition clampSat :: "int \<Rightarrow> satoshis result" where
  "clampSat n = (if \<not> isSafeInteger n \<or> n < 0 then throw ''clampSat'' else asSatoshis n)"

lemma clampSat_eq: "clampSat n = (if safe_nat n then ok n else throw ''clampSat'')"
  by (auto simp: clampSat_def asSatoshis_def safe_nat_iff)

end
