(* ===== verification/Engine.thy ===== *)
theory Engine
  imports Penalties
begin

text \<open>
  \<open>packages/state-engine/src/engine.ts\<close>: the initial state, the table of legal actions, the
  handler of every action, the transition function \<open>applyAction\<close> and the settlement preview.
  A handler takes the state, the action's shared fields, the fields its own action adds, the
  rule set and, where the source passes it, the current block height.
\<close>

section \<open>Initial state and legal actions\<close>

definition ZERO_HASH :: hash256 where
  "ZERO_HASH = replicate 64 CHR ''0''"

definition initialState :: "game_id \<Rightarrow> rule_set_hash \<Rightarrow> block_height \<Rightarrow> round_state" where
  "initialState gid rsh recovery_deadline = \<lparr>
     state_class = S1_SEAT_OPEN,
     game_id = gid,
     rule_set_hash = rsh,
     round_number = 0,
     acting_player_seat = None,
     players = [],
     pot_value = 0,
     visible_cards = [],
     hidden_commitment_refs = [],
     allowed_actions = [Join, TableLock],
     decision_deadline_block_height = None,
     recovery_deadline_block_height = Some recovery_deadline,
     successor_template_hashes = [],
     combined_entropy = None,
     deck_commitment_hash = None,
     concealed_deck = None,
     prior_state_hash = None,
     state_hash = ZERO_HASH \<rparr>"

fun getLegalActions :: "state_class \<Rightarrow> action_type list" where
  "getLegalActions S0_TABLE_OPEN = []"
| "getLegalActions S1_SEAT_OPEN = [Join, TableLock]"
| "getLegalActions S2_TABLE_LOCKED = [EntropyCommit]"
| "getLegalActions S3_ENTROPY_COMMIT_WINDOW = [EntropyCommit]"
| "getLegalActions S4_ENTROPY_REVEAL_WINDOW = [EntropyReveal]"
| "getLegalActions S5_DECK_COMMITTED = [CardReveal, DealConcealed]"
| "getLegalActions S6_CARD_REVEAL_FIRST = [CardReveal]"
| "getLegalActions S7_CARD_REVEAL_SECOND = [BetAction, Pass, Timeout, Fold]"
| "getLegalActions S8_BET_DECISION = [BetAction, Pass, Timeout, Fold]"
| "getLegalActions S9_CARD_REVEAL_THIRD = [CardReveal]"
| "getLegalActions S10_SETTLED_ROUND = [Settle]"
| "getLegalActions S11_ROTATE_TURN = [RotateTurn]"
| "getLegalActions S12_TABLE_CLOSE = [TableClose]"
| "getLegalActions RECOVERED = []"

section \<open>Seating\<close>

definition joined_player :: "seat \<Rightarrow> pubkey33 \<Rightarrow> satoshis \<Rightarrow> player_state" where
  "joined_player st pk stake = \<lparr>
     seat = st,
     player_id = pk,
     value_signing_pubkey = pk,
     participation_status = Joined,
     stake_at_risk = stake,
     stake_outpoint = None,
     entropy_committed = False,
     entropy_commitment_hash = None,
     entropy_revealed = False,
     entropy_value = None,
     concealed_card_refs = [],
     default_preferences = [] \<rparr>"

definition applyJoin ::
  "round_state \<Rightarrow> signed_action \<Rightarrow> pubkey33 \<Rightarrow> satoshis \<Rightarrow> rule_set \<Rightarrow> round_state result" where
  "applyJoin s a pk stake rs =
     (if state_class s \<noteq> S1_SEAT_OPEN then err INVALID_ACTION_FOR_STATE
      else if stake \<noteq> stake_amount rs then err INVALID_STAKE_AMOUNT
      else if int (length (players s)) \<ge> player_count_max rs then err TABLE_FULL
      else res_bind
        (asSeat (case act_seat a of None \<Rightarrow> int (length (players s)) | Some n \<Rightarrow> n))
        (\<lambda>st. if list_ex (\<lambda>p. seat p = st) (players s) then err PLAYER_ALREADY_SEATED
              else ok (s\<lparr> players := players s @ [joined_player st pk stake],
                          prior_state_hash := Some (state_hash s) \<rparr>)))"

definition applyTableLock :: "round_state \<Rightarrow> rule_set \<Rightarrow> round_state result" where
  "applyTableLock s rs =
     (if state_class s \<noteq> S1_SEAT_OPEN then err INVALID_ACTION_FOR_STATE
      else if int (length (players s)) < player_count_min rs then err TABLE_NOT_LOCKABLE
      else ok (s\<lparr> state_class := S3_ENTROPY_COMMIT_WINDOW,
                  allowed_actions := getLegalActions S3_ENTROPY_COMMIT_WINDOW,
                  prior_state_hash := Some (state_hash s) \<rparr>))"

section \<open>Entropy\<close>

definition applyEntropyCommit ::
  "round_state \<Rightarrow> signed_action \<Rightarrow> hash256 \<Rightarrow> round_state result" where
  "applyEntropyCommit s a ch =
     (if state_class s \<noteq> S3_ENTROPY_COMMIT_WINDOW then err INVALID_ACTION_FOR_STATE
      else case act_seat a of
        None \<Rightarrow> err SEAT_OUT_OF_RANGE
      | Some st \<Rightarrow>
          (case find_index (\<lambda>p. seat p = st) (players s) of
             None \<Rightarrow> err PLAYER_NOT_SEATED
           | Some idx \<Rightarrow>
               (let existing = players s ! idx
                in if entropy_committed existing then err INVALID_STATE_TRANSITION
                   else let ps = splice_at idx
                              (existing\<lparr> entropy_committed := True,
                                         entropy_commitment_hash := Some ch \<rparr>)
                              (players s);
                            nextClass = (if list_all entropy_committed ps
                              then S4_ENTROPY_REVEAL_WINDOW else S3_ENTROPY_COMMIT_WINDOW)
                     in ok (s\<lparr> players := ps,
                                state_class := nextClass,
                                allowed_actions := getLegalActions nextClass,
                                prior_state_hash := Some (state_hash s) \<rparr>))))"

definition applyEntropyReveal ::
  "round_state \<Rightarrow> signed_action \<Rightarrow> hash256 \<Rightarrow> round_state result" where
  "applyEntropyReveal s a entropy =
     (if state_class s \<noteq> S4_ENTROPY_REVEAL_WINDOW then err INVALID_ACTION_FOR_STATE
      else case act_seat a of
        None \<Rightarrow> err SEAT_OUT_OF_RANGE
      | Some st \<Rightarrow>
          (case find_index (\<lambda>p. seat p = st) (players s) of
             None \<Rightarrow> err PLAYER_NOT_SEATED
           | Some idx \<Rightarrow>
               (let existing = players s ! idx
                in if \<not> entropy_committed existing then err INVALID_STATE_TRANSITION
                   else if entropy_revealed existing then err INVALID_STATE_TRANSITION
                   else let ps = splice_at idx
                              (existing\<lparr> entropy_revealed := True,
                                         entropy_value := Some entropy,
                                         participation_status := Active \<rparr>)
                              (players s);
                            nextClass = (if list_all entropy_revealed ps
                              then S5_DECK_COMMITTED else S4_ENTROPY_REVEAL_WINDOW)
                     in ok (s\<lparr> players := ps,
                                state_class := nextClass,
                                allowed_actions := getLegalActions nextClass,
                                prior_state_hash := Some (state_hash s) \<rparr>))))"

section \<open>Cards\<close>

definition applyCardReveal :: "round_state \<Rightarrow> reveal_proof \<Rightarrow> round_state result" where
  "applyCardReveal s reveal =
     (case (case state_class s of
              S5_DECK_COMMITTED \<Rightarrow> Some S6_CARD_REVEAL_FIRST
            | S6_CARD_REVEAL_FIRST \<Rightarrow> Some S7_CARD_REVEAL_SECOND
            | S9_CARD_REVEAL_THIRD \<Rightarrow> Some S10_SETTLED_ROUND
            | _ \<Rightarrow> None) of
        None \<Rightarrow> err INVALID_ACTION_FOR_STATE
      | Some nextClass \<Rightarrow>
          (let finalClass = (if nextClass = S7_CARD_REVEAL_SECOND then S8_BET_DECISION
                             else nextClass);
               acting = (if nextClass = S7_CARD_REVEAL_SECOND \<and> acting_player_seat s = None
                         then (case players s of [] \<Rightarrow> None | first # _ \<Rightarrow> Some (seat first))
                         else acting_player_seat s)
           in ok (s\<lparr> state_class := finalClass,
                      visible_cards := visible_cards s @ [proof_card reveal],
                      acting_player_seat := acting,
                      allowed_actions := getLegalActions finalClass,
                      prior_state_hash := Some (state_hash s) \<rparr>)))"

text \<open>The position check of the \<open>for..of\<close> loop, with the positions seen so far.\<close>

fun deal_check :: "int \<Rightarrow> int list \<Rightarrow> concealed_card list \<Rightarrow> unit result" where
  "deal_check n seen [] = ok ()"
| "deal_check n seen (c # cs) =
     (let p = position (commitment c)
      in if p < 0 \<or> p \<ge> n then err INVALID_STATE_TRANSITION
         else if p \<in> set seen then err INVALID_STATE_TRANSITION
         else deal_check n (p # seen) cs)"

definition applyDealConcealed ::
  "round_state \<Rightarrow> concealed_card list \<Rightarrow> rule_set \<Rightarrow> round_state result" where
  "applyDealConcealed s concealed_cards rs =
     (if state_class s \<noteq> S5_DECK_COMMITTED then err INVALID_ACTION_FOR_STATE
      else if concealed_deck s \<noteq> None then err INVALID_STATE_TRANSITION
      else if int (length concealed_cards) \<noteq> deck_format rs then err INVALID_STATE_TRANSITION
      else res_bind (deal_check (deck_format rs) [] concealed_cards)
        (\<lambda>_. ok (s\<lparr> concealed_deck := Some concealed_cards,
                     prior_state_hash := Some (state_hash s) \<rparr>)))"

section \<open>Betting, passing, folding\<close>

definition applyBet :: "round_state \<Rightarrow> satoshis \<Rightarrow> rule_set \<Rightarrow> round_state result" where
  "applyBet s bet_amount rs =
     (if state_class s \<noteq> S8_BET_DECISION then err INVALID_ACTION_FOR_STATE
      else if bet_amount < min_bet rs \<or> bet_amount > max_bet rs then err INVALID_BET_AMOUNT
      else res_bind (addToPot (pot_value s) bet_amount)
        (\<lambda>pot. ok (s\<lparr> state_class := S9_CARD_REVEAL_THIRD,
                       pot_value := pot,
                       allowed_actions := getLegalActions S9_CARD_REVEAL_THIRD,
                       prior_state_hash := Some (state_hash s) \<rparr>)))"

text \<open>The step to \<open>S11_ROTATE_TURN\<close> that \<open>Pass\<close> and \<open>Timeout\<close> share word for word.\<close>

definition rotate_next :: "round_state \<Rightarrow> round_state" where
  "rotate_next s = s\<lparr> state_class := S11_ROTATE_TURN,
                      allowed_actions := getLegalActions S11_ROTATE_TURN,
                      prior_state_hash := Some (state_hash s) \<rparr>"

definition applyPass :: "round_state \<Rightarrow> round_state result" where
  "applyPass s =
     (if state_class s \<noteq> S8_BET_DECISION then err INVALID_ACTION_FOR_STATE
      else ok (rotate_next s))"

definition surrenders :: "pubkey33 \<Rightarrow> concealed_card \<Rightarrow> bool" where
  "surrenders pk c \<longleftrightarrow> holder_pubkey c = pk \<and> lifecycle_state c = ASSIGNED_CONCEALED"

definition surrender_card :: "pubkey33 \<Rightarrow> concealed_card \<Rightarrow> concealed_card" where
  "surrender_card pk c = (if surrenders pk c then c\<lparr> lifecycle_state := SURRENDERED \<rparr> else c)"

text \<open>The loop of \<open>applyFold\<close>: the new deck and the count \<open>touched\<close>.\<close>

fun fold_loop :: "pubkey33 \<Rightarrow> concealed_card list \<Rightarrow> concealed_card list \<times> nat" where
  "fold_loop pk [] = ([], 0)"
| "fold_loop pk (c # cs) =
     (let (deck, touched) = fold_loop pk cs
      in (surrender_card pk c # deck, if surrenders pk c then Suc touched else touched))"

definition applyFold :: "round_state \<Rightarrow> signed_action \<Rightarrow> round_state result" where
  "applyFold s a =
     (if state_class s \<noteq> S8_BET_DECISION \<and> state_class s \<noteq> S7_CARD_REVEAL_SECOND
      then err INVALID_ACTION_FOR_STATE
      else case act_seat a of
        None \<Rightarrow> err SEAT_OUT_OF_RANGE
      | Some st \<Rightarrow>
          (case concealed_deck s of
             None \<Rightarrow> err INVALID_ACTION_FOR_STATE
           | Some deck \<Rightarrow>
               (case find_index (\<lambda>p. seat p = st) (players s) of
                  None \<Rightarrow> err PLAYER_NOT_SEATED
                | Some seatIdx \<Rightarrow>
                    (let player = players s ! seatIdx;
                         (surrendered, touched) = fold_loop (value_signing_pubkey player) deck
                     in if touched = 0 then err INVALID_ACTION_FOR_STATE
                        else ok (s\<lparr> players := splice_at seatIdx
                                       (player\<lparr> participation_status := Folded \<rparr>) (players s),
                                    concealed_deck := Some surrendered,
                                    state_class := S11_ROTATE_TURN,
                                    allowed_actions := getLegalActions S11_ROTATE_TURN,
                                    prior_state_hash := Some (state_hash s) \<rparr>)))))"

section \<open>Settlement and rotation\<close>

text \<open>The callback of \<open>state.players.map\<close>: it throws on a negative or unsafe balance.\<close>

definition settle_player :: "seat \<Rightarrow> int \<Rightarrow> player_state \<Rightarrow> player_state result" where
  "settle_player acting playerDelta p =
     (if seat p \<noteq> acting then ok p
      else let nxt = stake_at_risk p + playerDelta
        in if \<not> isSafeInteger nxt \<or> nxt < 0 then throw ''applySettle''
           else res_bind (asSatoshis nxt) (\<lambda>v. ok (p\<lparr> stake_at_risk := v \<rparr>)))"

definition applySettle :: "round_state \<Rightarrow> rule_set \<Rightarrow> round_state result" where
  "applySettle s rs =
     (if state_class s \<noteq> S10_SETTLED_ROUND then err INVALID_ACTION_FOR_STATE
      else if length (visible_cards s) \<noteq> 3 then err INVALID_STATE_TRANSITION
      else case acting_player_seat s of
        None \<Rightarrow> err SEAT_OUT_OF_RANGE
      | Some acting \<Rightarrow>
          (let bet = pot_value s
           in res_bind (classifyInBetweenRound (visible_cards s)) (\<lambda>(oc, _).
              (let (playerDelta, potDelta) = computeValueTransfer oc bet (settlement_rules rs);
                   newPotRaw = pot_value s + potDelta
               in if \<not> isSafeInteger newPotRaw \<or> newPotRaw < 0 then err INVALID_STATE_TRANSITION
                  else res_bind (map_res (settle_player acting playerDelta) (players s)) (\<lambda>ps.
                       res_bind (asSatoshis newPotRaw) (\<lambda>pot.
                         ok (s\<lparr> state_class := S11_ROTATE_TURN,
                                pot_value := pot,
                                players := ps,
                                allowed_actions := getLegalActions S11_ROTATE_TURN,
                                prior_state_hash := Some (state_hash s) \<rparr>)))))))"

text \<open>The seat after the acting one: \<open>seats[(indexOf(acting) + 1) % length]\<close>, where
  \<open>indexOf\<close> is \<open>-1\<close> for a seat that is not there.\<close>

definition next_seat :: "seat list \<Rightarrow> seat option \<Rightarrow> seat" where
  "next_seat seats acting =
     (case acting of
        None \<Rightarrow> seats ! 0
      | Some st \<Rightarrow>
          (let i = (case find_index ((=) st) seats of None \<Rightarrow> -1 | Some k \<Rightarrow> int k)
           in seats ! nat ((i + 1) mod int (length seats))))"

definition applyRotateTurn :: "round_state \<Rightarrow> round_state result" where
  "applyRotateTurn s =
     (if state_class s \<noteq> S11_ROTATE_TURN then err INVALID_ACTION_FOR_STATE
      else let seats = sort (map seat (players s))
        in if seats = [] then err TABLE_NOT_LOCKABLE
           else let nextSeat = next_seat seats (acting_player_seat s);
                    wrappedToStart = (acting_player_seat s \<noteq> None \<and> nextSeat = seats ! 0)
             in if wrappedToStart
                then ok (s\<lparr> state_class := S12_TABLE_CLOSE,
                            allowed_actions := getLegalActions S12_TABLE_CLOSE,
                            prior_state_hash := Some (state_hash s) \<rparr>)
                else res_bind (asRoundNumber (round_number s + 1)) (\<lambda>r.
                     ok (s\<lparr> state_class := S6_CARD_REVEAL_FIRST,
                            round_number := r,
                            acting_player_seat := Some nextSeat,
                            visible_cards := [],
                            allowed_actions := getLegalActions S6_CARD_REVEAL_FIRST,
                            prior_state_hash := Some (state_hash s) \<rparr>)))"

definition applyTableClose :: "round_state \<Rightarrow> round_state result" where
  "applyTableClose s =
     (if state_class s \<noteq> S12_TABLE_CLOSE then err INVALID_ACTION_FOR_STATE
      else ok (s\<lparr> allowed_actions := [], prior_state_hash := Some (state_hash s) \<rparr>))"

section \<open>Timeout and recovery\<close>

definition applyTimeout :: "round_state \<Rightarrow> block_height \<Rightarrow> round_state result" where
  "applyTimeout s currentHeight =
     (if state_class s \<noteq> S8_BET_DECISION then err INVALID_ACTION_FOR_STATE
      else case decision_deadline_block_height s of
        None \<Rightarrow> err TIMEOUT_NOT_MATURE
      | Some deadline \<Rightarrow>
          (if currentHeight < deadline then err TIMEOUT_NOT_MATURE
           else ok (rotate_next s)))"

definition applyRecovery :: "round_state \<Rightarrow> block_height \<Rightarrow> round_state result" where
  "applyRecovery s currentHeight =
     (case recovery_deadline_block_height s of
        None \<Rightarrow> err RECOVERY_NOT_MATURE
      | Some deadline \<Rightarrow>
          (if currentHeight < deadline then err RECOVERY_NOT_MATURE
           else ok (s\<lparr> state_class := RECOVERED,
                       allowed_actions := [],
                       prior_state_hash := Some (state_hash s) \<rparr>)))"

section \<open>The transition function\<close>

fun dispatch ::
  "round_state \<Rightarrow> signed_action \<Rightarrow> rule_set \<Rightarrow> block_height \<Rightarrow> action_payload \<Rightarrow> round_state result"
where
  "dispatch s a rs h (Join_Payload pk stake) = applyJoin s a pk stake rs"
| "dispatch s a rs h TableLock_Payload = applyTableLock s rs"
| "dispatch s a rs h (EntropyCommit_Payload c) = applyEntropyCommit s a c"
| "dispatch s a rs h (EntropyReveal_Payload e) = applyEntropyReveal s a e"
| "dispatch s a rs h (CardReveal_Payload r) = applyCardReveal s r"
| "dispatch s a rs h (DealConcealed_Payload cs) = applyDealConcealed s cs rs"
| "dispatch s a rs h (Bet_Payload b) = applyBet s b rs"
| "dispatch s a rs h Pass_Payload = applyPass s"
| "dispatch s a rs h Fold_Payload = applyFold s a"
| "dispatch s a rs h Settle_Payload = applySettle s rs"
| "dispatch s a rs h RotateTurn_Payload = applyRotateTurn s"
| "dispatch s a rs h TableClose_Payload = applyTableClose s"
| "dispatch s a rs h (Timeout_Payload _ _) = applyTimeout s h"
| "dispatch s a rs h (Recovery_Payload _) = applyRecovery s h"

definition applyAction ::
  "round_state \<Rightarrow> signed_action \<Rightarrow> rule_set \<Rightarrow> block_height \<Rightarrow> round_state result" where
  "applyAction s a rs h =
     (if act_game_id a \<noteq> game_id s then err STALE_STATE
      else if act_type a \<noteq> Recovery \<and> act_type a \<notin> set (getLegalActions (state_class s))
      then err INVALID_ACTION_FOR_STATE
      else dispatch s a rs h (payload a))"

section \<open>Settlement preview\<close>

definition computeSettlement :: "round_state \<Rightarrow> rule_set \<Rightarrow> settlement_result result" where
  "computeSettlement s rs =
     (if state_class s \<noteq> S10_SETTLED_ROUND then err INVALID_ACTION_FOR_STATE
      else case acting_player_seat s of
        None \<Rightarrow> err INVALID_STATE_TRANSITION
      | Some acting \<Rightarrow>
          (if length (visible_cards s) \<noteq> 3 then err INVALID_STATE_TRANSITION
           else let bet = pot_value s
             in res_bind (classifyInBetweenRound (visible_cards s)) (\<lambda>(oc, _).
                (let (playerDelta, potDelta) = computeValueTransfer oc bet (settlement_rules rs)
                 in res_bind (map_res (\<lambda>p. if seat p = acting
                                            then clampSat (stake_at_risk p + playerDelta)
                                            else ok (stake_at_risk p)) (players s)) (\<lambda>balances.
                    res_bind (asSatoshis \<bar>playerDelta\<bar>) (\<lambda>amount.
                    res_bind (clampSat (pot_value s + potDelta)) (\<lambda>pot.
                      ok \<lparr> round_state_hash = state_hash s,
                           outcome = oc,
                           sr_bet_amount = bet,
                           sr_acting_player_seat = acting,
                           amount_won_or_lost = amount,
                           resulting_pot_value = pot,
                           resulting_balances = balances \<rparr>)))))))"

lemmas handlers = applyJoin_def applyTableLock_def applyEntropyCommit_def applyEntropyReveal_def
  applyCardReveal_def applyDealConcealed_def applyBet_def applyPass_def applyFold_def
  applySettle_def applyRotateTurn_def applyTableClose_def applyTimeout_def applyRecovery_def

declare handlers [handler_defs]

end
