(* ===== verification/Transitions.thy ===== *)
theory Transitions
  imports Engine
begin

text \<open>
  The transition relation of the engine, one rule per accepted kind of step, and the proof
  that \<open>applyAction\<close> accepts exactly the steps of the relation. The relation is what the
  invariants are proved over: every proof about an accepted action is a case analysis of it.
\<close>

section \<open>What a handler returns when it accepts\<close>

definition enter :: "state_class \<Rightarrow> round_state \<Rightarrow> round_state" where
  "enter c s = s\<lparr> state_class := c, allowed_actions := getLegalActions c,
                  prior_state_hash := Some (state_hash s) \<rparr>"

lemma enter_simps [simp]:
  "state_class (enter c s) = c"
  "allowed_actions (enter c s) = getLegalActions c"
  "prior_state_hash (enter c s) = Some (state_hash s)"
  "game_id (enter c s) = game_id s"
  "rule_set_hash (enter c s) = rule_set_hash s"
  "round_number (enter c s) = round_number s"
  "acting_player_seat (enter c s) = acting_player_seat s"
  "players (enter c s) = players s"
  "pot_value (enter c s) = pot_value s"
  "visible_cards (enter c s) = visible_cards s"
  "hidden_commitment_refs (enter c s) = hidden_commitment_refs s"
  "decision_deadline_block_height (enter c s) = decision_deadline_block_height s"
  "recovery_deadline_block_height (enter c s) = recovery_deadline_block_height s"
  "successor_template_hashes (enter c s) = successor_template_hashes s"
  "combined_entropy (enter c s) = combined_entropy s"
  "deck_commitment_hash (enter c s) = deck_commitment_hash s"
  "concealed_deck (enter c s) = concealed_deck s"
  "state_hash (enter c s) = state_hash s"
  by (simp_all add: enter_def)

definition join_seat :: "round_state \<Rightarrow> signed_action \<Rightarrow> int" where
  "join_seat s a = (case act_seat a of None \<Rightarrow> int (length (players s)) | Some n \<Rightarrow> n)"

text \<open>The class the first, second and third reveal lead to.\<close>

fun reveal_class :: "state_class \<Rightarrow> state_class option" where
  "reveal_class S5_DECK_COMMITTED = Some S6_CARD_REVEAL_FIRST"
| "reveal_class S6_CARD_REVEAL_FIRST = Some S8_BET_DECISION"
| "reveal_class S9_CARD_REVEAL_THIRD = Some S10_SETTLED_ROUND"
| "reveal_class _ = None"

definition reveal_actor :: "round_state \<Rightarrow> seat option" where
  "reveal_actor s =
     (if state_class s = S6_CARD_REVEAL_FIRST \<and> acting_player_seat s = None \<and> players s \<noteq> []
      then Some (seat (hd (players s))) else acting_player_seat s)"

definition credit :: "seat \<Rightarrow> int \<Rightarrow> player_state \<Rightarrow> player_state" where
  "credit acting delta p =
     (if seat p = acting then p\<lparr> stake_at_risk := stake_at_risk p + delta \<rparr> else p)"

lemma seat_credit [simp]: "seat (credit acting delta p) = seat p"
  by (simp add: credit_def)

lemma fold_loop_eq:
  "fold_loop pk cs = (map (surrender_card pk) cs, length (filter (surrenders pk) cs))"
  by (induction cs) (auto simp: Let_def)

lemma deal_check_ok_iff:
  "deal_check n seen cs = ok u \<longleftrightarrow>
     distinct (map (position \<circ> commitment) cs) \<and>
     (\<forall>c \<in> set cs. 0 \<le> position (commitment c) \<and> position (commitment c) < n
                  \<and> position (commitment c) \<notin> set seen)"
  by (induction cs arbitrary: seen) (auto simp: Let_def image_iff)

lemma list_ex_seat: "list_ex (\<lambda>p. seat p = st) ps \<longleftrightarrow> st \<in> seat ` set ps"
  by (auto simp: list_ex_iff)

lemma settle_player_ok_iff:
  "settle_player acting d p = ok q \<longleftrightarrow>
     q = credit acting d p \<and> (seat p = acting \<longrightarrow> safe_nat (stake_at_risk p + d))"
  by (auto simp: settle_player_def credit_def Let_def asSatoshis_eq safe_nat_iff)

lemma map_settle_player_ok_iff:
  "map_res (settle_player acting d) ps = ok qs \<longleftrightarrow>
     qs = map (credit acting d) ps \<and>
     (\<forall>p \<in> set ps. seat p = acting \<longrightarrow> safe_nat (stake_at_risk p + d))"
  by (induction ps arbitrary: qs) (auto simp: res_bind_eq_Inr settle_player_ok_iff)

section \<open>Where the handlers throw\<close>

lemma join_throws:
  "applyJoin s a pk stake rs = throw f \<Longrightarrow> int (length (players s)) \<le> MAX_SAFE_INTEGER \<Longrightarrow>
     \<exists>n. act_seat a = Some n \<and> \<not> safe_nat n"
  by (auto simp: applyJoin_def res_bind_eq_Inl asSeat_eq safe_nat_def split: if_splits option.splits)

lemma bet_throws:
  "applyBet s b rs = throw f \<Longrightarrow>
     min_bet rs \<le> b \<and> b \<le> max_bet rs \<and> \<not> safe_nat (pot_value s + b)"
  by (auto simp: applyBet_def res_bind_eq_Inl addToPot_def Let_def asSatoshis_eq safe_nat_iff
      split: if_splits)

lemma map_settle_throws:
  "map_res (settle_player acting d) ps = Inl e \<Longrightarrow>
     \<exists>p \<in> set ps. seat p = acting \<and> \<not> safe_nat (stake_at_risk p + d)"
  by (drule map_res_Inl)
     (auto simp: settle_player_def Let_def asSatoshis_eq safe_nat_iff split: if_splits)

lemma settle_throws:
  assumes "applySettle s rs = throw f"
  shows "\<exists>p oc t. p \<in> set (players s) \<and> acting_player_seat s = Some (seat p)
    \<and> classifyInBetweenRound (visible_cards s) = ok (oc, t)
    \<and> \<not> safe_nat (stake_at_risk p + fst (computeValueTransfer oc (pot_value s) (settlement_rules rs)))"
proof -
  from assms obtain acting where a: "acting_player_seat s = Some acting" "length (visible_cards s) = 3"
    by (auto simp: applySettle_def split: if_splits option.splits)
  then obtain oc t where c: "classifyInBetweenRound (visible_cards s) = ok (oc, t)"
    using classify_ok_iff by force
  obtain pd qd where v: "computeValueTransfer oc (pot_value s) (settlement_rules rs) = (pd, qd)" by force
  have "map_res (settle_player acting pd) (players s) = throw f"
    using assms a c v
    by (auto simp: applySettle_def Let_def res_bind_eq_Inl asSatoshis_eq safe_nat_iff split: if_splits)
  then show ?thesis using map_settle_throws a(1) c v by fastforce
qed

lemma rotate_not_throws: "safe_nat (round_number s + 1) \<Longrightarrow> applyRotateTurn s \<noteq> throw f"
  by (auto simp: applyRotateTurn_def Let_def res_bind_eq_Inl asRoundNumber_eq)

lemma deal_check_not_throws: "deal_check n seen cs \<noteq> throw f"
  by (induction cs arbitrary: seen) (auto simp: Let_def)

lemma handler_not_throws:
  "applyTableLock s rs \<noteq> throw f" "applyEntropyCommit s a c \<noteq> throw f"
  "applyEntropyReveal s a e \<noteq> throw f" "applyCardReveal s r \<noteq> throw f"
  "applyDealConcealed s cs rs \<noteq> throw f" "applyPass s \<noteq> throw f" "applyFold s a \<noteq> throw f"
  "applyTableClose s \<noteq> throw f" "applyTimeout s h \<noteq> throw f" "applyRecovery s h \<noteq> throw f"
  by (auto simp: handlers Let_def res_bind_eq_Inl deal_check_not_throws fold_loop_eq
      split: option.splits if_splits)

section \<open>The transition relation\<close>

inductive estep :: "rule_set \<Rightarrow> block_height \<Rightarrow> round_state \<Rightarrow> signed_action \<Rightarrow> round_state \<Rightarrow> bool"
  for rs h where
  join: "\<lbrakk> act_game_id a = game_id s; payload a = Join_Payload pk (stake_amount rs);
     state_class s = S1_SEAT_OPEN; int (length (players s)) < player_count_max rs;
     safe_nat (join_seat s a); join_seat s a \<notin> seat ` set (players s) \<rbrakk> \<Longrightarrow>
   estep rs h s a (s\<lparr> players := players s @ [joined_player (join_seat s a) pk (stake_amount rs)],
                      prior_state_hash := Some (state_hash s) \<rparr>)"
| lock: "\<lbrakk> act_game_id a = game_id s; payload a = TableLock_Payload;
     state_class s = S1_SEAT_OPEN; player_count_min rs \<le> int (length (players s)) \<rbrakk> \<Longrightarrow>
   estep rs h s a (enter S3_ENTROPY_COMMIT_WINDOW s)"
| commit: "\<lbrakk> act_game_id a = game_id s; payload a = EntropyCommit_Payload ch;
     state_class s = S3_ENTROPY_COMMIT_WINDOW; act_seat a = Some st;
     find_index (\<lambda>p. seat p = st) (players s) = Some i; \<not> entropy_committed (players s ! i);
     ps = (players s)[i := (players s ! i)\<lparr> entropy_committed := True,
                                          entropy_commitment_hash := Some ch \<rparr>];
     c = (if list_all entropy_committed ps then S4_ENTROPY_REVEAL_WINDOW
          else S3_ENTROPY_COMMIT_WINDOW) \<rbrakk> \<Longrightarrow>
   estep rs h s a (enter c (s\<lparr> players := ps \<rparr>))"
| reveal: "\<lbrakk> act_game_id a = game_id s; payload a = EntropyReveal_Payload e;
     state_class s = S4_ENTROPY_REVEAL_WINDOW; act_seat a = Some st;
     find_index (\<lambda>p. seat p = st) (players s) = Some i; entropy_committed (players s ! i);
     \<not> entropy_revealed (players s ! i);
     ps = (players s)[i := (players s ! i)\<lparr> entropy_revealed := True, entropy_value := Some e,
                                          participation_status := Active \<rparr>];
     c = (if list_all entropy_revealed ps then S5_DECK_COMMITTED
          else S4_ENTROPY_REVEAL_WINDOW) \<rbrakk> \<Longrightarrow>
   estep rs h s a (enter c (s\<lparr> players := ps \<rparr>))"
| card: "\<lbrakk> act_game_id a = game_id s; payload a = CardReveal_Payload r;
     reveal_class (state_class s) = Some c \<rbrakk> \<Longrightarrow>
   estep rs h s a (enter c (s\<lparr> visible_cards := visible_cards s @ [proof_card r],
                              acting_player_seat := reveal_actor s \<rparr>))"
| deal: "\<lbrakk> act_game_id a = game_id s; payload a = DealConcealed_Payload cs;
     state_class s = S5_DECK_COMMITTED; concealed_deck s = None;
     int (length cs) = deck_format rs; distinct (map (position \<circ> commitment) cs);
     \<forall>x \<in> set cs. 0 \<le> position (commitment x) \<and> position (commitment x) < deck_format rs \<rbrakk> \<Longrightarrow>
   estep rs h s a (s\<lparr> concealed_deck := Some cs, prior_state_hash := Some (state_hash s) \<rparr>)"
| bet: "\<lbrakk> act_game_id a = game_id s; payload a = Bet_Payload b; state_class s = S8_BET_DECISION;
     min_bet rs \<le> b; b \<le> max_bet rs; safe_nat (pot_value s + b) \<rbrakk> \<Longrightarrow>
   estep rs h s a (enter S9_CARD_REVEAL_THIRD (s\<lparr> pot_value := pot_value s + b \<rparr>))"
| pass: "\<lbrakk> act_game_id a = game_id s; payload a = Pass_Payload; state_class s = S8_BET_DECISION \<rbrakk> \<Longrightarrow>
   estep rs h s a (enter S11_ROTATE_TURN s)"
| surrender: "\<lbrakk> act_game_id a = game_id s; payload a = Fold_Payload;
     state_class s = S8_BET_DECISION \<or> state_class s = S7_CARD_REVEAL_SECOND;
     act_seat a = Some st; concealed_deck s = Some deck;
     find_index (\<lambda>p. seat p = st) (players s) = Some i;
     pk = value_signing_pubkey (players s ! i); \<exists>x \<in> set deck. surrenders pk x;
     ps = (players s)[i := (players s ! i)\<lparr> participation_status := Folded \<rparr>] \<rbrakk> \<Longrightarrow>
   estep rs h s a (enter S11_ROTATE_TURN
                     (s\<lparr> players := ps, concealed_deck := Some (map (surrender_card pk) deck) \<rparr>))"
| settle: "\<lbrakk> act_game_id a = game_id s; payload a = Settle_Payload; state_class s = S10_SETTLED_ROUND;
     acting_player_seat s = Some acting; classifyInBetweenRound (visible_cards s) = ok (oc, t);
     computeValueTransfer oc (pot_value s) (settlement_rules rs) = (pd, qd);
     safe_nat (pot_value s + qd);
     \<forall>p \<in> set (players s). seat p = acting \<longrightarrow> safe_nat (stake_at_risk p + pd) \<rbrakk> \<Longrightarrow>
   estep rs h s a (enter S11_ROTATE_TURN (s\<lparr> pot_value := pot_value s + qd,
                                            players := map (credit acting pd) (players s) \<rparr>))"
| wrap: "\<lbrakk> act_game_id a = game_id s; payload a = RotateTurn_Payload; state_class s = S11_ROTATE_TURN;
     seats = sort (map seat (players s)); seats \<noteq> []; acting_player_seat s \<noteq> None;
     next_seat seats (acting_player_seat s) = seats ! 0 \<rbrakk> \<Longrightarrow>
   estep rs h s a (enter S12_TABLE_CLOSE s)"
| rotate: "\<lbrakk> act_game_id a = game_id s; payload a = RotateTurn_Payload; state_class s = S11_ROTATE_TURN;
     seats = sort (map seat (players s)); seats \<noteq> []; n = next_seat seats (acting_player_seat s);
     acting_player_seat s = None \<or> n \<noteq> seats ! 0; safe_nat (round_number s + 1) \<rbrakk> \<Longrightarrow>
   estep rs h s a (enter S6_CARD_REVEAL_FIRST (s\<lparr> round_number := round_number s + 1,
                     acting_player_seat := Some n, visible_cards := [] \<rparr>))"
| table_close: "\<lbrakk> act_game_id a = game_id s; payload a = TableClose_Payload;
     state_class s = S12_TABLE_CLOSE \<rbrakk> \<Longrightarrow>
   estep rs h s a (s\<lparr> allowed_actions := [], prior_state_hash := Some (state_hash s) \<rparr>)"
| timeout: "\<lbrakk> act_game_id a = game_id s; payload a = Timeout_Payload d x;
     state_class s = S8_BET_DECISION; decision_deadline_block_height s = Some dl; dl \<le> h \<rbrakk> \<Longrightarrow>
   estep rs h s a (enter S11_ROTATE_TURN s)"
| recovery: "\<lbrakk> act_game_id a = game_id s; payload a = Recovery_Payload x;
     recovery_deadline_block_height s = Some dl; dl \<le> h \<rbrakk> \<Longrightarrow>
   estep rs h s a (enter RECOVERED s)"

section \<open>The handlers accept exactly those steps\<close>

lemma applyJoin_ok_iff:
  "applyJoin s a pk stake rs = ok s' \<longleftrightarrow>
     state_class s = S1_SEAT_OPEN \<and> stake = stake_amount rs \<and>
     int (length (players s)) < player_count_max rs \<and> safe_nat (join_seat s a) \<and>
     join_seat s a \<notin> seat ` set (players s) \<and>
     s' = s\<lparr> players := players s @ [joined_player (join_seat s a) pk stake],
             prior_state_hash := Some (state_hash s) \<rparr>"
  unfolding applyJoin_def join_seat_def[symmetric] list_ex_seat
  by (auto simp: res_bind_eq_Inr asSeat_eq)

lemma applyTableLock_ok_iff:
  "applyTableLock s rs = ok s' \<longleftrightarrow>
     state_class s = S1_SEAT_OPEN \<and> player_count_min rs \<le> int (length (players s)) \<and>
     s' = enter S3_ENTROPY_COMMIT_WINDOW s"
  by (auto simp: applyTableLock_def enter_def)

lemma applyEntropyCommit_ok_iff:
  "applyEntropyCommit s a ch = ok s' \<longleftrightarrow>
     (\<exists>st i ps c. state_class s = S3_ENTROPY_COMMIT_WINDOW \<and> act_seat a = Some st \<and>
        find_index (\<lambda>p. seat p = st) (players s) = Some i \<and>
        \<not> entropy_committed (players s ! i) \<and>
        ps = (players s)[i := (players s ! i)\<lparr> entropy_committed := True,
                                             entropy_commitment_hash := Some ch \<rparr>] \<and>
        c = (if list_all entropy_committed ps then S4_ENTROPY_REVEAL_WINDOW
             else S3_ENTROPY_COMMIT_WINDOW) \<and>
        s' = enter c (s\<lparr> players := ps \<rparr>))"
  by (auto simp: applyEntropyCommit_def Let_def enter_def splice_at_update
      dest!: find_index_SomeD split: option.splits)

lemma applyEntropyReveal_ok_iff:
  "applyEntropyReveal s a e = ok s' \<longleftrightarrow>
     (\<exists>st i ps c. state_class s = S4_ENTROPY_REVEAL_WINDOW \<and> act_seat a = Some st \<and>
        find_index (\<lambda>p. seat p = st) (players s) = Some i \<and>
        entropy_committed (players s ! i) \<and> \<not> entropy_revealed (players s ! i) \<and>
        ps = (players s)[i := (players s ! i)\<lparr> entropy_revealed := True, entropy_value := Some e,
                                             participation_status := Active \<rparr>] \<and>
        c = (if list_all entropy_revealed ps then S5_DECK_COMMITTED
             else S4_ENTROPY_REVEAL_WINDOW) \<and>
        s' = enter c (s\<lparr> players := ps \<rparr>))"
  by (auto simp: applyEntropyReveal_def Let_def enter_def splice_at_update
      dest!: find_index_SomeD split: option.splits)

lemma applyCardReveal_ok_iff:
  "applyCardReveal s r = ok s' \<longleftrightarrow>
     (\<exists>c. reveal_class (state_class s) = Some c \<and>
        s' = enter c (s\<lparr> visible_cards := visible_cards s @ [proof_card r],
                         acting_player_seat := reveal_actor s \<rparr>))"
  by (cases "state_class s")
     (auto simp: applyCardReveal_def reveal_actor_def enter_def Let_def neq_Nil_conv split: list.splits)

lemma applyDealConcealed_ok_iff:
  "applyDealConcealed s cs rs = ok s' \<longleftrightarrow>
     state_class s = S5_DECK_COMMITTED \<and> concealed_deck s = None \<and>
     int (length cs) = deck_format rs \<and> distinct (map (position \<circ> commitment) cs) \<and>
     (\<forall>x \<in> set cs. 0 \<le> position (commitment x) \<and> position (commitment x) < deck_format rs) \<and>
     s' = s\<lparr> concealed_deck := Some cs, prior_state_hash := Some (state_hash s) \<rparr>"
  by (auto simp: applyDealConcealed_def res_bind_eq_Inr deal_check_ok_iff)

lemma applyBet_ok_iff:
  "applyBet s b rs = ok s' \<longleftrightarrow>
     state_class s = S8_BET_DECISION \<and> min_bet rs \<le> b \<and> b \<le> max_bet rs \<and>
     safe_nat (pot_value s + b) \<and>
     s' = enter S9_CARD_REVEAL_THIRD (s\<lparr> pot_value := pot_value s + b \<rparr>)"
  by (auto simp: applyBet_def res_bind_eq_Inr addToPot_Inr_iff enter_def)

lemma applyPass_ok_iff:
  "applyPass s = ok s' \<longleftrightarrow> state_class s = S8_BET_DECISION \<and> s' = enter S11_ROTATE_TURN s"
  by (auto simp: applyPass_def rotate_next_def enter_def)

lemma applyFold_ok_iff:
  "applyFold s a = ok s' \<longleftrightarrow>
     (\<exists>st deck i pk ps.
        (state_class s = S8_BET_DECISION \<or> state_class s = S7_CARD_REVEAL_SECOND) \<and>
        act_seat a = Some st \<and> concealed_deck s = Some deck \<and>
        find_index (\<lambda>p. seat p = st) (players s) = Some i \<and>
        pk = value_signing_pubkey (players s ! i) \<and> (\<exists>x \<in> set deck. surrenders pk x) \<and>
        ps = (players s)[i := (players s ! i)\<lparr> participation_status := Folded \<rparr>] \<and>
        s' = enter S11_ROTATE_TURN
               (s\<lparr> players := ps, concealed_deck := Some (map (surrender_card pk) deck) \<rparr>))"
  by (auto simp: applyFold_def Let_def enter_def splice_at_update fold_loop_eq filter_empty_conv
      dest!: find_index_SomeD split: option.splits)

lemma applySettle_ok_iff:
  "applySettle s rs = ok s' \<longleftrightarrow>
     (\<exists>acting oc t pd qd. state_class s = S10_SETTLED_ROUND \<and>
        acting_player_seat s = Some acting \<and>
        classifyInBetweenRound (visible_cards s) = ok (oc, t) \<and>
        computeValueTransfer oc (pot_value s) (settlement_rules rs) = (pd, qd) \<and>
        safe_nat (pot_value s + qd) \<and>
        (\<forall>p \<in> set (players s). seat p = acting \<longrightarrow> safe_nat (stake_at_risk p + pd)) \<and>
        s' = enter S11_ROTATE_TURN (s\<lparr> pot_value := pot_value s + qd,
                                       players := map (credit acting pd) (players s) \<rparr>))"
proof (cases "acting_player_seat s")
  case None
  then show ?thesis by (simp add: applySettle_def)
next
  case (Some acting)
  show ?thesis
  proof (cases "classifyInBetweenRound (visible_cards s)")
    case (Inl e)
    then show ?thesis using Some by (simp add: applySettle_def Let_def)
  next
    case (Inr r)
    obtain oc t where r: "r = (oc, t)" by force
    obtain pd qd where v: "computeValueTransfer oc (pot_value s) (settlement_rules rs) = (pd, qd)"
      by force
    have l: "length (visible_cards s) = 3" using classify_ok_iff Inr by blast
    show ?thesis
      by (auto simp: applySettle_def Some Inr r v l Let_def res_bind_eq_Inr enter_def
          map_settle_player_ok_iff asSatoshis_eq safe_nat_iff)
  qed
qed

lemma applyRotateTurn_ok_iff:
  "applyRotateTurn s = ok s' \<longleftrightarrow>
     (\<exists>seats n. state_class s = S11_ROTATE_TURN \<and> seats = sort (map seat (players s)) \<and>
        seats \<noteq> [] \<and> n = next_seat seats (acting_player_seat s) \<and>
        (if acting_player_seat s \<noteq> None \<and> n = seats ! 0
         then s' = enter S12_TABLE_CLOSE s
         else safe_nat (round_number s + 1) \<and>
              s' = enter S6_CARD_REVEAL_FIRST (s\<lparr> round_number := round_number s + 1,
                     acting_player_seat := Some n, visible_cards := [] \<rparr>)))"
  by (auto simp: applyRotateTurn_def Let_def res_bind_eq_Inr asRoundNumber_eq enter_def)

lemma applyTableClose_ok_iff:
  "applyTableClose s = ok s' \<longleftrightarrow>
     state_class s = S12_TABLE_CLOSE \<and>
     s' = s\<lparr> allowed_actions := [], prior_state_hash := Some (state_hash s) \<rparr>"
  by (auto simp: applyTableClose_def)

lemma applyTimeout_ok_iff:
  "applyTimeout s h = ok s' \<longleftrightarrow>
     (\<exists>dl. state_class s = S8_BET_DECISION \<and> decision_deadline_block_height s = Some dl \<and>
        dl \<le> h \<and> s' = enter S11_ROTATE_TURN s)"
  by (auto simp: applyTimeout_def rotate_next_def enter_def split: option.splits)

lemma applyRecovery_ok_iff:
  "applyRecovery s h = ok s' \<longleftrightarrow>
     (\<exists>dl. recovery_deadline_block_height s = Some dl \<and> dl \<le> h \<and> s' = enter RECOVERED s)"
  by (auto simp: applyRecovery_def enter_def split: option.splits)

lemmas handler_ok_iff = applyJoin_ok_iff applyTableLock_ok_iff applyEntropyCommit_ok_iff
  applyEntropyReveal_ok_iff applyCardReveal_ok_iff applyDealConcealed_ok_iff applyBet_ok_iff
  applyPass_ok_iff applyFold_ok_iff applySettle_ok_iff applyRotateTurn_ok_iff
  applyTableClose_ok_iff applyTimeout_ok_iff applyRecovery_ok_iff

section \<open>Refinement of the relation by \<open>applyAction\<close>\<close>

lemma dispatch_estep:
  assumes g: "act_game_id a = game_id s" and d: "dispatch s a rs h (payload a) = ok s'"
  shows "estep rs h s a s'"
proof (cases "payload a")
  case (Join_Payload pk stake)
  with d g show ?thesis by (auto simp: applyJoin_ok_iff intro: estep.join)
next
  case (EntropyCommit_Payload c)
  with d g show ?thesis by (auto simp: applyEntropyCommit_ok_iff intro: estep.commit)
next
  case (EntropyReveal_Payload e)
  with d g show ?thesis by (auto simp: applyEntropyReveal_ok_iff intro: estep.reveal)
next
  case (CardReveal_Payload r)
  with d g show ?thesis by (auto simp: applyCardReveal_ok_iff intro: estep.card)
next
  case (DealConcealed_Payload cs)
  with d g show ?thesis by (auto simp: applyDealConcealed_ok_iff intro: estep.deal)
next
  case (Bet_Payload b)
  with d g show ?thesis by (auto simp: applyBet_ok_iff intro: estep.bet)
next
  case Fold_Payload
  with d g show ?thesis by (auto simp: applyFold_ok_iff intro: estep.surrender)
next
  case Settle_Payload
  with d g show ?thesis by (auto simp: applySettle_ok_iff intro: estep.settle)
next
  case RotateTurn_Payload
  with d g show ?thesis
    by (auto simp: applyRotateTurn_ok_iff intro: estep.wrap estep.rotate split: if_splits)
qed (use d g in \<open>auto simp: handler_ok_iff intro: estep.intros\<close>)

lemma estep_applyAction: "estep rs h s a s' \<Longrightarrow> applyAction s a rs h = ok s'"
proof (induction rule: estep.induct)
  case (card a s r c)
  then show ?case by (cases "state_class s") (auto simp: applyAction_def handler_ok_iff)
qed (auto simp: applyAction_def handler_ok_iff)

lemma applyAction_iff_estep: "applyAction s a rs h = ok s' \<longleftrightarrow> estep rs h s a s'"
  by (auto simp: applyAction_def intro: dispatch_estep estep_applyAction
      dest: estep_applyAction split: if_splits)

text \<open>Inversion by the kind of action.\<close>

inductive_cases estep_E: "estep rs h s a s'"

section \<open>Reachable states\<close>

inductive reachable :: "rule_set \<Rightarrow> round_state \<Rightarrow> bool" for rs where
  start: "reachable rs (initialState gid rsh dl)"
| step: "reachable rs s \<Longrightarrow> applyAction s a rs h = ok s' \<Longrightarrow> reachable rs s'"

text \<open>An invariant of the start states that every transition keeps holds of every reachable
  state; the transition may assume an invariant established before.\<close>

lemma reachable_invariant [consumes 1, case_names start step]:
  assumes "reachable rs s"
    and "\<And>gid rsh dl. P (initialState gid rsh dl)"
    and "\<And>s a h s'. reachable rs s \<Longrightarrow> P s \<Longrightarrow> estep rs h s a s' \<Longrightarrow> P s'"
  shows "P s"
  using assms(1)
proof (induction rule: reachable.induct)
  case (start gid rsh dl)
  show ?case by (rule assms(2))
next
  case (step s a h s')
  then show ?case using assms(3) by (simp add: applyAction_iff_estep)
qed

end
