(* ===== verification/Invariants.thy ===== *)
theory Invariants
  imports Transitions
begin

text \<open>
  What holds of every state the engine can reach from an initial state, whatever actions
  arrive: distinct valid seats, non-negative safe amounts, the agreement of
  \<open>allowed_actions\<close> with the state class, the entropy flags of each phase, the number of
  face-up cards, the acting seat, and the shape of a concealed deck. Each conjunct is an
  invariant of its own over the transition relation.
\<close>

section \<open>Replacing one player\<close>

lemma map_list_update_same: "g y = g (xs ! i) \<Longrightarrow> map g (xs[i := y]) = map g xs"
  by (cases "i < length xs") (auto simp: map_update list_update_same_conv list_update_beyond)

lemma ball_list_updateI:
  "(\<forall>x \<in> set xs. P x) \<Longrightarrow> P y \<Longrightarrow> (\<forall>x \<in> set (xs[i := y]). P x)"
  using set_update_subset_insert[of xs i y] by auto

lemma find_index_in_set: "find_index P xs = Some i \<Longrightarrow> xs ! i \<in> set xs"
  using find_index_SomeD by fastforce

section \<open>Seats\<close>

definition seats_ok :: "round_state \<Rightarrow> bool" where
  "seats_ok s \<longleftrightarrow> distinct (map seat (players s)) \<and> (\<forall>n \<in> seat ` set (players s). safe_nat n)"

lemma seats_ok_cong:
  "map seat (players t) = map seat (players s) \<Longrightarrow> seats_ok s \<Longrightarrow> seats_ok t"
  by (metis list.set_map seats_ok_def)

lemma seats_of_estep:
  "estep rs h s a s' \<Longrightarrow>
     map seat (players s') = map seat (players s) \<or>
     (state_class s = S1_SEAT_OPEN \<and>
      map seat (players s') = map seat (players s) @ [join_seat s a] \<and>
      safe_nat (join_seat s a) \<and> join_seat s a \<notin> seat ` set (players s))"
  by (erule estep_E) (auto simp: map_list_update_same joined_player_def)

lemma reachable_seats_ok: "reachable rs s \<Longrightarrow> seats_ok s"
proof (induction rule: reachable_invariant)
  case (start gid rsh dl)
  show ?case by (simp add: seats_ok_def initialState_def)
next
  case (step s a h s')
  from seats_of_estep[OF step.hyps(2)] show ?case
  proof
    assume "map seat (players s') = map seat (players s)"
    then show ?thesis using step.IH by (rule seats_ok_cong)
  next
    assume j: "state_class s = S1_SEAT_OPEN \<and>
      map seat (players s') = map seat (players s) @ [join_seat s a] \<and>
      safe_nat (join_seat s a) \<and> join_seat s a \<notin> seat ` set (players s)"
    then have "seat ` set (players s') = insert (join_seat s a) (seat ` set (players s))"
      by (metis list.set_map list.simps(15) rotate1.simps(2) set_rotate1)
    then show ?thesis using j step.IH by (simp add: seats_ok_def)
  qed
qed

section \<open>Amounts\<close>

definition money_ok :: "round_state \<Rightarrow> bool" where
  "money_ok s \<longleftrightarrow> safe_nat (pot_value s) \<and> (\<forall>p \<in> set (players s). safe_nat (stake_at_risk p))"

lemma money_ok_estep:
  assumes "estep rs h s a s'" and "money_ok s" and "safe_nat (stake_amount rs)"
  shows "money_ok s'"
  using assms
  by (cases rule: estep.cases)
     (auto simp: money_ok_def joined_player_def credit_def
       dest!: set_update_subset_insert[THEN subsetD] find_index_in_set)

lemma reachable_money_ok: "safe_nat (stake_amount rs) \<Longrightarrow> reachable rs s \<Longrightarrow> money_ok s"
proof -
  assume rs: "safe_nat (stake_amount rs)" and r: "reachable rs s"
  from r show "money_ok s"
  proof (induction rule: reachable_invariant)
    case (start gid rsh dl)
    show ?case by (simp add: money_ok_def initialState_def)
  next
    case (step s a h s')
    then show ?case using rs money_ok_estep by blast
  qed
qed

section \<open>State classes and the actions they allow\<close>

definition class_ok :: "round_state \<Rightarrow> bool" where
  "class_ok s \<longleftrightarrow>
     state_class s \<notin> {S0_TABLE_OPEN, S2_TABLE_LOCKED, S7_CARD_REVEAL_SECOND} \<and>
     (allowed_actions s = getLegalActions (state_class s) \<or>
      state_class s = S12_TABLE_CLOSE \<and> allowed_actions s = [])"

lemma reveal_class_cases:
  "reveal_class c = Some c' \<Longrightarrow>
     (c = S5_DECK_COMMITTED \<and> c' = S6_CARD_REVEAL_FIRST) \<or>
     (c = S6_CARD_REVEAL_FIRST \<and> c' = S8_BET_DECISION) \<or>
     (c = S9_CARD_REVEAL_THIRD \<and> c' = S10_SETTLED_ROUND)"
  by (cases c) auto

lemma class_ok_estep: "estep rs h s a s' \<Longrightarrow> class_ok s \<Longrightarrow> class_ok s'"
  by (erule estep_E) (auto simp: class_ok_def dest: reveal_class_cases)

lemma reachable_class_ok: "reachable rs s \<Longrightarrow> class_ok s"
proof (induction rule: reachable_invariant)
  case (start gid rsh dl)
  show ?case by (simp add: class_ok_def initialState_def)
next
  case (step s a h s')
  then show ?case using class_ok_estep by blast
qed

section \<open>Entropy\<close>

definition player_entropy_ok :: "player_state \<Rightarrow> bool" where
  "player_entropy_ok p \<longleftrightarrow>
     (entropy_committed p \<longleftrightarrow> entropy_commitment_hash p \<noteq> None) \<and>
     (entropy_revealed p \<longleftrightarrow> entropy_value p \<noteq> None) \<and>
     (entropy_revealed p \<longrightarrow> entropy_committed p)"

definition before_reveals :: "state_class set" where
  "before_reveals = {S1_SEAT_OPEN, S3_ENTROPY_COMMIT_WINDOW}"

definition in_play :: "state_class set" where
  "in_play = {S5_DECK_COMMITTED, S6_CARD_REVEAL_FIRST, S7_CARD_REVEAL_SECOND, S8_BET_DECISION,
              S9_CARD_REVEAL_THIRD, S10_SETTLED_ROUND, S11_ROTATE_TURN, S12_TABLE_CLOSE}"

definition entropy_ok :: "round_state \<Rightarrow> bool" where
  "entropy_ok s \<longleftrightarrow>
     (\<forall>p \<in> set (players s). player_entropy_ok p) \<and>
     (state_class s = S1_SEAT_OPEN \<longrightarrow> (\<forall>p \<in> set (players s). \<not> entropy_committed p)) \<and>
     (state_class s \<in> before_reveals \<longrightarrow> (\<forall>p \<in> set (players s). \<not> entropy_revealed p)) \<and>
     (state_class s = S4_ENTROPY_REVEAL_WINDOW \<longrightarrow> (\<forall>p \<in> set (players s). entropy_committed p)) \<and>
     (state_class s \<in> in_play \<longrightarrow> (\<forall>p \<in> set (players s). entropy_revealed p)) \<and>
     (state_class s \<in> insert S4_ENTROPY_REVEAL_WINDOW in_play \<longrightarrow> players s \<noteq> [])"

lemma ball_list_update_D:
  "x \<in> set (xs[i := y]) \<Longrightarrow> \<forall>z \<in> set xs. P z \<Longrightarrow> P y \<Longrightarrow> P x"
  using set_update_subset_insert by fastforce

lemma entropy_ok_players: "entropy_ok s \<Longrightarrow> \<forall>p \<in> set (players s). player_entropy_ok p"
  by (simp add: entropy_ok_def)

lemma entropy_ok_in_play:
  "state_class s \<in> in_play \<Longrightarrow>
     entropy_ok s \<longleftrightarrow> players s \<noteq> [] \<and> (\<forall>p \<in> set (players s). player_entropy_ok p \<and> entropy_revealed p)"
  by (auto simp: entropy_ok_def before_reveals_def in_play_def)

lemma in_play_simps [simp]:
  "S5_DECK_COMMITTED \<in> in_play" "S6_CARD_REVEAL_FIRST \<in> in_play" "S7_CARD_REVEAL_SECOND \<in> in_play"
  "S8_BET_DECISION \<in> in_play" "S9_CARD_REVEAL_THIRD \<in> in_play" "S10_SETTLED_ROUND \<in> in_play"
  "S11_ROTATE_TURN \<in> in_play" "S12_TABLE_CLOSE \<in> in_play"
  "S1_SEAT_OPEN \<notin> in_play" "S3_ENTROPY_COMMIT_WINDOW \<notin> in_play"
  "S4_ENTROPY_REVEAL_WINDOW \<notin> in_play" "RECOVERED \<notin> in_play"
  by (simp_all add: in_play_def)

lemma reveal_class_in_play: "reveal_class c = Some c' \<Longrightarrow> c \<in> in_play \<and> c' \<in> in_play"
  using reveal_class_cases by fastforce

text \<open>Within the playing phase only \<open>Fold\<close> and \<open>Settle\<close> touch a player, and neither its
  entropy.\<close>

lemma player_entropy_credit [simp]:
  "player_entropy_ok (credit acting d p) = player_entropy_ok p"
  "entropy_revealed (credit acting d p) = entropy_revealed p"
  by (simp_all add: credit_def player_entropy_ok_def)

lemma entropy_ok_play_estep:
  assumes "estep rs h s a s'" and "entropy_ok s" and "state_class s \<in> in_play"
    and "state_class s' \<noteq> RECOVERED"
  shows "entropy_ok s'"
proof -
  have all: "players s \<noteq> []" "\<forall>p \<in> set (players s). player_entropy_ok p \<and> entropy_revealed p"
    using assms(2,3) by (simp_all add: entropy_ok_in_play)
  have c: "state_class s' \<in> in_play"
    using assms(1,3,4) by (cases rule: estep.cases) (auto dest: reveal_class_in_play)
  have "players s' \<noteq> [] \<and> (\<forall>p \<in> set (players s'). player_entropy_ok p \<and> entropy_revealed p)"
    using assms(1)
  proof (cases rule: estep.cases)
    case (surrender st deck i pk ps)
    have "\<forall>x \<in> set ps. player_entropy_ok x \<and> entropy_revealed x"
      unfolding surrender(10) using all(2) find_index_in_set[OF surrender(7)]
      by (intro ball_list_updateI) (auto simp: player_entropy_ok_def)
    then show ?thesis using surrender(1,10) all(1) by simp
  qed (use all assms(3) in simp_all)
  then show ?thesis using c by (simp add: entropy_ok_in_play)
qed

lemma entropy_ok_estep:
  assumes "estep rs h s a s'" and "entropy_ok s"
  shows "entropy_ok s'"
proof (cases "state_class s \<in> in_play \<and> state_class s' \<noteq> RECOVERED")
  case True
  then show ?thesis using entropy_ok_play_estep assms by blast
next
  case False
  from assms(1) show ?thesis
  proof (cases rule: estep.cases)
    case (commit ch st i ps c)
    let ?p = "players s ! i"
    have p: "?p \<in> set (players s)" using commit find_index_in_set by blast
    have all: "\<forall>x \<in> set (players s). player_entropy_ok x \<and> \<not> entropy_revealed x"
      using commit(4) assms(2) by (auto simp: entropy_ok_def before_reveals_def)
    have "\<forall>x \<in> set ps. player_entropy_ok x \<and> \<not> entropy_revealed x"
      unfolding commit(8) by (rule ball_list_updateI) (use all p in \<open>auto simp: player_entropy_ok_def\<close>)
    moreover have "ps \<noteq> []" using p commit(8) by auto
    ultimately show ?thesis
      using commit(1,9) by (auto simp: entropy_ok_def before_reveals_def list_all_iff)
  next
    case (reveal e st i ps c)
    let ?p = "players s ! i"
    have p: "?p \<in> set (players s)" using reveal find_index_in_set by blast
    have all: "\<forall>x \<in> set (players s). player_entropy_ok x \<and> entropy_committed x"
      using reveal(4) assms(2) by (auto simp: entropy_ok_def)
    have "\<forall>x \<in> set ps. player_entropy_ok x \<and> entropy_committed x"
      unfolding reveal(9) by (rule ball_list_updateI) (use all p in \<open>auto simp: player_entropy_ok_def\<close>)
    moreover have "ps \<noteq> []" using p reveal(9) by auto
    ultimately show ?thesis
      using reveal(1,10) by (auto simp: entropy_ok_def before_reveals_def list_all_iff)
  next
    case (recovery x dl)
    then show ?thesis
      using entropy_ok_players[OF assms(2)] by (simp add: entropy_ok_def before_reveals_def)
  next
    case (join pk)
    then show ?thesis
      using assms(2) by (auto simp: entropy_ok_def before_reveals_def joined_player_def
          player_entropy_ok_def)
  next
    case lock
    then show ?thesis using assms(2) by (auto simp: entropy_ok_def before_reveals_def)
  qed (use False in \<open>auto dest: reveal_class_in_play reveal_class_cases\<close>)
qed

lemma reachable_entropy_ok: "reachable rs s \<Longrightarrow> entropy_ok s"
proof (induction rule: reachable_invariant)
  case (start gid rsh dl)
  show ?case by (simp add: entropy_ok_def before_reveals_def in_play_def initialState_def)
next
  case (step s a h s')
  then show ?case using entropy_ok_estep by blast
qed

section \<open>Rounds and face-up cards\<close>

text \<open>The number of face-up cards of each class, in the first round and in a later one. Only
  the first round starts at \<open>S5_DECK_COMMITTED\<close>; a later one starts at
  \<open>S6_CARD_REVEAL_FIRST\<close> with the visible cards cleared.\<close>

fun face_up :: "state_class \<Rightarrow> bool \<Rightarrow> nat option" where
  "face_up S1_SEAT_OPEN first = Some 0"
| "face_up S3_ENTROPY_COMMIT_WINDOW first = Some 0"
| "face_up S4_ENTROPY_REVEAL_WINDOW first = Some 0"
| "face_up S5_DECK_COMMITTED first = Some 0"
| "face_up S6_CARD_REVEAL_FIRST first = Some (if first then 1 else 0)"
| "face_up S8_BET_DECISION first = Some (if first then 2 else 1)"
| "face_up S9_CARD_REVEAL_THIRD first = Some (if first then 2 else 1)"
| "face_up S10_SETTLED_ROUND first = Some (if first then 3 else 2)"
| "face_up _ first = None"

definition preparing :: "state_class set" where
  "preparing = {S1_SEAT_OPEN, S3_ENTROPY_COMMIT_WINDOW, S4_ENTROPY_REVEAL_WINDOW, S5_DECK_COMMITTED}"

definition cards_ok :: "round_state \<Rightarrow> bool" where
  "cards_ok s \<longleftrightarrow>
     safe_nat (round_number s) \<and> (state_class s \<in> preparing \<longrightarrow> round_number s = 0) \<and>
     (\<forall>k. face_up (state_class s) (round_number s = 0) = Some k \<longrightarrow> length (visible_cards s) = k)"

lemma cards_ok_estep:
  assumes "estep rs h s a s'" and "cards_ok s"
  shows "cards_ok s'"
  using assms(1)
proof (cases rule: estep.cases)
  case (card r c)
  from reveal_class_cases[OF card(4)] show ?thesis
    using assms(2) card(1) by (elim disjE) (auto simp: cards_ok_def preparing_def)
qed (use assms(2) in \<open>auto simp: cards_ok_def preparing_def safe_nat_def split: if_splits\<close>)

lemma reachable_cards_ok: "reachable rs s \<Longrightarrow> cards_ok s"
proof (induction rule: reachable_invariant)
  case (start gid rsh dl)
  show ?case by (simp add: cards_ok_def initialState_def)
next
  case (step s a h s')
  then show ?case using cards_ok_estep by blast
qed

section \<open>The acting seat\<close>

definition decided :: "state_class set" where
  "decided = {S8_BET_DECISION, S9_CARD_REVEAL_THIRD, S10_SETTLED_ROUND, S11_ROTATE_TURN,
              S12_TABLE_CLOSE}"

definition actor_ok :: "round_state \<Rightarrow> bool" where
  "actor_ok s \<longleftrightarrow>
     (\<forall>st. acting_player_seat s = Some st \<longrightarrow> st \<in> seat ` set (players s)) \<and>
     (state_class s \<in> decided \<longrightarrow> acting_player_seat s \<noteq> None) \<and>
     (state_class s \<in> preparing \<longrightarrow> acting_player_seat s = None)"

lemma next_seat_in:
  assumes "seats \<noteq> []" shows "next_seat seats acting \<in> set seats"
proof -
  have "nat (k mod int (length seats)) < length seats" for k
    using assms by (simp add: nat_less_iff)
  then show ?thesis using assms by (auto simp: next_seat_def Let_def hd_conv_nth[symmetric] split: option.splits)
qed

lemma actor_ok_cong:
  "seat ` set (players s) \<subseteq> seat ` set (players t) \<Longrightarrow>
   acting_player_seat t = acting_player_seat s \<Longrightarrow> actor_ok s \<Longrightarrow>
   (state_class t \<in> decided \<longrightarrow> state_class s \<in> decided) \<Longrightarrow>
   (state_class t \<in> preparing \<longrightarrow> state_class s \<in> preparing) \<Longrightarrow> actor_ok t"
  unfolding actor_ok_def by (metis subsetD)

lemma actor_ok_card:
  assumes "actor_ok s" and "entropy_ok s" and "reveal_class (state_class s) = Some c"
  shows "actor_ok (enter c (s\<lparr> visible_cards := vs, acting_player_seat := reveal_actor s \<rparr>))"
proof -
  have "players s \<noteq> []" using assms(2,3) reveal_class_in_play entropy_ok_in_play by blast
  then show ?thesis using reveal_class_cases[OF assms(3)] assms(1)
    by (elim disjE) (auto simp: actor_ok_def decided_def preparing_def reveal_actor_def)
qed

lemma seats_mono: "estep rs h s a s' \<Longrightarrow> seat ` set (players s) \<subseteq> seat ` set (players s')"
  using seats_of_estep[of rs h s a s'] by (metis Un_upper1 list.set_map set_append set_eq_subset)

lemma actor_kept:
  assumes "estep rs h s a s'" and "class_ok s"
    and "act_type a \<noteq> CardReveal" and "state_class s' \<noteq> S6_CARD_REVEAL_FIRST"
  shows "acting_player_seat s' = acting_player_seat s \<and>
    (state_class s' \<in> decided \<longrightarrow> state_class s \<in> decided) \<and>
    (state_class s' \<in> preparing \<longrightarrow> state_class s \<in> preparing)"
  using assms(1)
proof (cases rule: estep.cases)
  case (surrender st deck i pk ps)
  then show ?thesis using assms(2) by (simp add: class_ok_def decided_def preparing_def)
qed (use assms(3,4) in \<open>simp_all add: decided_def preparing_def\<close>)

lemma actor_ok_estep:
  assumes "estep rs h s a s'" and "actor_ok s" and "entropy_ok s" and "class_ok s"
  shows "actor_ok s'"
proof (cases "act_type a = CardReveal")
  case True
  from assms(1) show ?thesis
  proof (cases rule: estep.cases)
    case (card r c)
    then show ?thesis using actor_ok_card assms(2,3) by simp
  qed (use True in simp_all)
next
  case False
  show ?thesis
  proof (cases "state_class s' = S6_CARD_REVEAL_FIRST")
    case True
    from assms(1) show ?thesis
    proof (cases rule: estep.cases)
      case (rotate seats n)
      then have "n \<in> seat ` set (players s)" using next_seat_in by (metis list.set_map set_sort)
      then show ?thesis using rotate(1) by (simp add: actor_ok_def decided_def preparing_def)
    qed (use True False assms(2) in \<open>simp_all split: if_splits\<close>)
  next
    case neq: False
    then show ?thesis
      using actor_kept[OF assms(1,4) False] actor_ok_cong[OF seats_mono[OF assms(1)] _ assms(2)]
      by blast
  qed
qed

lemma reachable_actor_ok: "reachable rs s \<Longrightarrow> actor_ok s"
proof (induction rule: reachable_invariant)
  case (start gid rsh dl)
  show ?case by (simp add: actor_ok_def decided_def initialState_def)
next
  case (step s a h s')
  then show ?case using actor_ok_estep reachable_entropy_ok reachable_class_ok by blast
qed

section \<open>The concealed deck\<close>

definition deck_ok :: "rule_set \<Rightarrow> concealed_card list \<Rightarrow> bool" where
  "deck_ok rs deck \<longleftrightarrow>
     int (length deck) = deck_format rs \<and> distinct (map (position \<circ> commitment) deck) \<and>
     (\<forall>c \<in> set deck. 0 \<le> position (commitment c) \<and> position (commitment c) < deck_format rs)"

definition concealed_ok :: "rule_set \<Rightarrow> round_state \<Rightarrow> bool" where
  "concealed_ok rs s \<longleftrightarrow>
     (\<forall>deck. concealed_deck s = Some deck \<longrightarrow>
        deck_ok rs deck \<and> state_class s \<in> insert RECOVERED in_play)"

lemma surrender_card_simps [simp]:
  "commitment (surrender_card pk c) = commitment c"
  "ciphertext (surrender_card pk c) = ciphertext c"
  "custody_outpoint (surrender_card pk c) = custody_outpoint c"
  "holder_pubkey (surrender_card pk c) = holder_pubkey c"
  by (simp_all add: surrender_card_def)

lemma deck_ok_surrender [simp]: "deck_ok rs (map (surrender_card pk) deck) = deck_ok rs deck"
  by (simp add: deck_ok_def o_def)

lemma concealed_ok_estep:
  assumes "estep rs h s a s'" and "concealed_ok rs s"
  shows "concealed_ok rs s'"
  using assms(1)
proof (cases rule: estep.cases)
  case (card r c)
  then show ?thesis using assms(2) by (auto simp: concealed_ok_def dest: reveal_class_in_play)
qed (use assms(2) in \<open>auto simp: concealed_ok_def deck_ok_def[of rs] in_play_def o_def\<close>)

lemma reachable_concealed_ok: "reachable rs s \<Longrightarrow> concealed_ok rs s"
proof (induction rule: reachable_invariant)
  case (start gid rsh dl)
  show ?case by (simp add: concealed_ok_def initialState_def)
next
  case (step s a h s')
  then show ?case using concealed_ok_estep by blast
qed

text \<open>The positions of a full deck are exactly \<open>0..n-1\<close>.\<close>

lemma deck_ok_positions:
  assumes "deck_ok rs deck"
  shows "(position \<circ> commitment) ` set deck = {0..<deck_format rs}"
proof -
  let ?f = "position \<circ> commitment"
  have "?f ` set deck \<subseteq> {0..<deck_format rs}" using assms by (auto simp: deck_ok_def)
  moreover have "card (?f ` set deck) = nat (deck_format rs)"
    using assms distinct_card[of "map ?f deck"] nat_int[of "length deck"] by (auto simp: deck_ok_def)
  ultimately show ?thesis
    using card_subset_eq[of "{0..<deck_format rs}" "?f ` set deck"] by simp
qed

section \<open>What no action changes\<close>

lemma frame_estep:
  "estep rs h s a s' \<Longrightarrow>
     game_id s' = game_id s \<and> rule_set_hash s' = rule_set_hash s \<and>
     state_hash s' = state_hash s \<and>
     decision_deadline_block_height s' = decision_deadline_block_height s \<and>
     recovery_deadline_block_height s' = recovery_deadline_block_height s \<and>
     hidden_commitment_refs s' = hidden_commitment_refs s \<and>
     successor_template_hashes s' = successor_template_hashes s \<and>
     combined_entropy s' = combined_entropy s \<and>
     deck_commitment_hash s' = deck_commitment_hash s \<and>
     prior_state_hash s' = Some (state_hash s)"
  by (erule estep_E) simp_all

lemma no_decision_deadline: "reachable rs s \<Longrightarrow> decision_deadline_block_height s = None"
proof (induction rule: reachable_invariant)
  case (step s a h s')
  then show ?case using frame_estep by metis
qed (simp add: initialState_def)

section \<open>All of it\<close>

definition well_formed :: "rule_set \<Rightarrow> round_state \<Rightarrow> bool" where
  "well_formed rs s \<longleftrightarrow>
     seats_ok s \<and> class_ok s \<and> entropy_ok s \<and> cards_ok s \<and> actor_ok s \<and> concealed_ok rs s \<and>
     decision_deadline_block_height s = None \<and> (safe_nat (stake_amount rs) \<longrightarrow> money_ok s)"

lemma seats_ok_estep: "estep rs h s a s' \<Longrightarrow> seats_ok s \<Longrightarrow> seats_ok s'"
proof -
  assume e: "estep rs h s a s'" and s: "seats_ok s"
  from seats_of_estep[OF e] show "seats_ok s'"
  proof
    assume "map seat (players s') = map seat (players s)"
    then show ?thesis using s by (rule seats_ok_cong)
  next
    assume j: "state_class s = S1_SEAT_OPEN \<and>
      map seat (players s') = map seat (players s) @ [join_seat s a] \<and>
      safe_nat (join_seat s a) \<and> join_seat s a \<notin> seat ` set (players s)"
    then have "seat ` set (players s') = insert (join_seat s a) (seat ` set (players s))"
      by (metis list.set_map list.simps(15) rotate1.simps(2) set_rotate1)
    then show ?thesis using j s by (simp add: seats_ok_def)
  qed
qed

lemma well_formed_estep: "estep rs h s a s' \<Longrightarrow> well_formed rs s \<Longrightarrow> well_formed rs s'"
  unfolding well_formed_def
  using seats_ok_estep class_ok_estep entropy_ok_estep cards_ok_estep actor_ok_estep
    concealed_ok_estep money_ok_estep frame_estep by metis

lemma reachable_well_formed: "reachable rs s \<Longrightarrow> well_formed rs s"
  using reachable_seats_ok reachable_class_ok reachable_entropy_ok reachable_cards_ok
    reachable_actor_ok reachable_concealed_ok reachable_money_ok no_decision_deadline
  unfolding well_formed_def by blast

text \<open>The engine as a guarded machine: an input is an action with the height it arrives at.\<close>

definition engine_step :: "rule_set \<Rightarrow> round_state \<Rightarrow> signed_action \<times> block_height \<Rightarrow> round_state result" where
  "engine_step rs s i = applyAction s (fst i) rs (snd i)"

lemma engine_step_iff: "engine_step rs s i = ok t \<longleftrightarrow> estep rs (snd i) s (fst i) t"
  by (simp add: engine_step_def applyAction_iff_estep)

interpretation engine: guarded_machine "engine_step rs" "well_formed rs" for rs
  by unfold_locales (auto simp: engine_step_iff intro: well_formed_estep)

lemma initial_well_formed: "well_formed rs (initialState gid rsh dl)"
  by (rule reachable_well_formed) (rule reachable.start)

lemma run_reachable:
  "reachable rs s \<Longrightarrow> run_machine (engine_step rs) s inputs = ok s' \<Longrightarrow> reachable rs s'"
  by (induction inputs arbitrary: s) (auto simp: res_bind_eq_Inr engine_step_def intro: reachable.step)

lemma run_frame:
  "run_machine (engine_step rs) s inputs = ok s' \<Longrightarrow>
     game_id s' = game_id s \<and> rule_set_hash s' = rule_set_hash s \<and> state_hash s' = state_hash s \<and>
     recovery_deadline_block_height s' = recovery_deadline_block_height s \<and>
     combined_entropy s' = combined_entropy s"
proof (induction inputs arbitrary: s)
  case (Cons i inputs)
  then obtain t where t: "estep rs (snd i) s (fst i) t" "run_machine (engine_step rs) t inputs = ok s'"
    by (auto simp: res_bind_eq_Inr engine_step_iff)
  then show ?case using frame_estep[OF t(1)] Cons.IH[OF t(2)] by simp
qed simp

end
