(* ===== verification/Accounting.thy ===== *)
theory Accounting
  imports Invariants
begin

text \<open>
  Consequences of the invariants that need arithmetic over whole sessions: where value enters
  and how it moves, the order in which the turn passes, and a measure that bounds the length of
  every session.
\<close>

section \<open>Value\<close>

definition total_value :: "round_state \<Rightarrow> int" where
  "total_value s = pot_value s + sum_list (map stake_at_risk (players s))"

text \<open>What an accepted action brings in from outside: the stake of a \<open>Join\<close> and the amount of a
  \<open>BetAction\<close>.\<close>

definition inflow :: "signed_action \<Rightarrow> int" where
  "inflow a = (case payload a of Join_Payload pk stake \<Rightarrow> stake | Bet_Payload b \<Rightarrow> b | _ \<Rightarrow> 0)"

lemma stake_credit:
  "stake_at_risk (credit acting d p) = stake_at_risk p + (if seat p = acting then d else 0)"
  by (simp add: credit_def)

lemma sum_credit_absent:
  "acting \<notin> seat ` set ps \<Longrightarrow>
     sum_list (map stake_at_risk (map (credit acting d) ps)) = sum_list (map stake_at_risk ps)"
  by (induction ps) (auto simp: stake_credit)

lemma sum_credit:
  "distinct (map seat ps) \<Longrightarrow> acting \<in> seat ` set ps \<Longrightarrow>
     sum_list (map stake_at_risk (map (credit acting d) ps)) = sum_list (map stake_at_risk ps) + d"
proof (induction ps)
  case (Cons p ps)
  show ?case
  proof (cases "seat p = acting")
    case True
    then have "acting \<notin> seat ` set ps" using Cons.prems(1) by auto
    then show ?thesis using sum_credit_absent[of acting ps d] True by (simp add: stake_credit)
  next
    case False
    then show ?thesis using Cons by (auto simp: stake_credit)
  qed
qed simp

lemma total_value_estep:
  assumes "estep rs h s a s'" and "well_formed rs s"
  shows "total_value s' = total_value s + inflow a"
  using assms(1)
proof (cases rule: estep.cases)
  case (settle acting oc t pd qd)
  have "acting \<in> seat ` set (players s)" "distinct (map seat (players s))"
    using assms(2) settle(5) by (auto simp: well_formed_def actor_ok_def seats_ok_def)
  then show ?thesis
    using settle(1,3) value_transfer_zero_sum[OF settle(7)] sum_credit[of "players s" acting pd]
    by (simp add: total_value_def inflow_def)
qed (auto simp: total_value_def inflow_def joined_player_def map_list_update_same)

lemma run_total_value:
  "well_formed rs s \<Longrightarrow> run_machine (engine_step rs) s inputs = ok s' \<Longrightarrow>
     total_value s' = total_value s + sum_list (map (inflow \<circ> fst) inputs)"
proof (induction inputs arbitrary: s)
  case (Cons i inputs)
  from Cons.prems(2) obtain t where t: "engine_step rs s i = ok t"
    "run_machine (engine_step rs) t inputs = ok s'" by (auto simp: res_bind_eq_Inr)
  have "estep rs (snd i) s (fst i) t" using t(1) by (simp add: engine_step_iff)
  then show ?case
    using Cons.IH[OF engine.stp_inv[OF Cons.prems(1) t(1)] t(2)] total_value_estep Cons.prems(1)
    by fastforce
qed simp

section \<open>Turn order\<close>

lemma find_index_nth: "distinct xs \<Longrightarrow> i < length xs \<Longrightarrow> find_index ((=) (xs ! i)) xs = Some i"
proof (induction xs arbitrary: i)
  case (Cons x xs)
  then show ?case by (cases i) auto
qed simp

text \<open>In a strictly sorted seat list the turn passes to the next larger seat; from the largest it
  wraps to the first.\<close>

lemma next_seat_nth:
  assumes "distinct seats" and "i < length seats"
  shows "next_seat seats (Some (seats ! i)) = (if Suc i < length seats then seats ! Suc i else seats ! 0)"
proof (cases "Suc i < length seats")
  case True
  then have "nat ((int i + 1) mod int (length seats)) = Suc i" by simp
  then show ?thesis using True find_index_nth[OF assms] by (simp add: next_seat_def)
next
  case False
  then have "int i + 1 = int (length seats)" using assms(2) by simp
  then show ?thesis using False find_index_nth[OF assms] by (simp add: next_seat_def)
qed

text \<open>The successor in a strictly sorted list is the least larger element.\<close>

lemma sorted_successor:
  assumes "distinct xs" and "sorted xs" and "i < length xs"
  shows "if Suc i < length xs
    then xs ! i < xs ! Suc i \<and> xs ! Suc i \<in> set xs \<and> (\<forall>m \<in> set xs. xs ! i < m \<longrightarrow> xs ! Suc i \<le> (m :: int))
    else \<forall>m \<in> set xs. m \<le> xs ! i"
proof (cases "Suc i < length xs")
  case True
  have "xs ! Suc i \<le> m" if m: "m \<in> set xs" "xs ! i < m" for m
  proof -
    from m(1) obtain j where j: "j < length xs" "xs ! j = m" by (auto simp: in_set_conv_nth)
    then have "\<not> j \<le> i" using m(2) assms(2,3) sorted_nth_mono by fastforce
    then show ?thesis using j assms(2) sorted_nth_mono[of xs "Suc i" j] by simp
  qed
  moreover have "xs ! i \<noteq> xs ! Suc i" using assms(1,3) True by (simp add: nth_eq_iff_index_eq)
  ultimately show ?thesis
    using True assms(2) sorted_nth_mono[of xs i "Suc i"] by auto
next
  case False
  have "m \<le> xs ! i" if m: "m \<in> set xs" for m
  proof -
    from m obtain j where "j < length xs" "xs ! j = m" by (auto simp: in_set_conv_nth)
    then show ?thesis using False assms(2,3) sorted_nth_mono[of xs j i] by simp
  qed
  then show ?thesis using False by simp
qed

definition seat_order :: "round_state \<Rightarrow> seat list" where
  "seat_order s = sort (map seat (players s))"

lemma seat_order_facts:
  "well_formed rs s \<Longrightarrow> distinct (seat_order s) \<and> sorted (seat_order s) \<and>
     set (seat_order s) = seat ` set (players s) \<and> length (seat_order s) = length (players s)"
  by (simp add: seat_order_def well_formed_def seats_ok_def)

text \<open>How many turns are left after the acting player's.\<close>

definition turns_left :: "round_state \<Rightarrow> nat" where
  "turns_left s = (case acting_player_seat s of
      None \<Rightarrow> length (players s)
    | Some st \<Rightarrow> length (filter (\<lambda>n. st < n) (map seat (players s))))"

lemma card_above: "turns_left s \<le> length (players s)"
  using length_filter_le[of _ "map seat (players s)"] by (simp add: turns_left_def split: option.splits)

lemma filter_sort_length:
  "length (filter P (sort xs)) = length (filter P (xs :: int list))"
  by (metis mset_filter mset_sort size_mset)

lemma sorted_above_nth:
  "sorted xs \<Longrightarrow> distinct xs \<Longrightarrow> i < length xs \<Longrightarrow>
     length (filter (\<lambda>n. xs ! i < n) (xs :: int list)) = length xs - Suc i"
proof (induction xs arbitrary: i)
  case (Cons x xs)
  show ?case
  proof (cases i)
    case 0
    then have "filter (\<lambda>n. x < n) xs = xs"
      using Cons.prems by (auto simp: filter_id_conv order_less_le)
    then show ?thesis using 0 by simp
  next
    case (Suc j)
    have "xs ! j \<in> set xs" using Suc Cons.prems by simp
    then have "x < xs ! j" using Cons.prems by (auto simp: order_less_le)
    then show ?thesis using Suc Cons by simp
  qed
qed simp

lemma turns_left_nth:
  assumes "well_formed rs s" and "acting_player_seat s = Some (seat_order s ! i)"
    and "i < length (players s)"
  shows "turns_left s = length (players s) - Suc i"
  using sorted_above_nth[of "seat_order s" i] seat_order_facts[OF assms(1)] assms(2,3)
    filter_sort_length[of _ "map seat (players s)"]
  by (simp add: turns_left_def seat_order_def)

lemma acting_index:
  assumes "well_formed rs s" and "acting_player_seat s = Some st"
  obtains i where "i < length (players s)" and "seat_order s ! i = st"
proof -
  have "st \<in> set (seat_order s)"
    using assms seat_order_facts[OF assms(1)] by (auto simp: well_formed_def actor_ok_def)
  then show ?thesis using that seat_order_facts[OF assms(1)] by (metis in_set_conv_nth)
qed

lemma rotate_actor:
  assumes "well_formed rs s" and "state_class s = S11_ROTATE_TURN"
  obtains i where "i < length (players s)" and "acting_player_seat s = Some (seat_order s ! i)"
    and "next_seat (seat_order s) (acting_player_seat s) =
      (if Suc i < length (players s) then seat_order s ! Suc i else seat_order s ! 0)"
proof -
  obtain st where st: "acting_player_seat s = Some st"
    using assms by (auto simp: well_formed_def actor_ok_def decided_def)
  from acting_index[OF assms(1) st] obtain i where i: "i < length (players s)" "seat_order s ! i = st" .
  show ?thesis
    using that[of i] i st next_seat_nth[of "seat_order s" i] seat_order_facts[OF assms(1)] by auto
qed

section \<open>Every session ends\<close>

text \<open>
  A measure on states that every accepted action lowers, \<open>TableClose\<close> and \<open>Recovery\<close> (which
  may be repeated at the end) apart. A round takes at most five steps after a rotation, so eight
  per remaining turn is enough room.
\<close>

definition play_steps :: "state_class \<Rightarrow> nat" where
  "play_steps c = (case c of S5_DECK_COMMITTED \<Rightarrow> 6 | S6_CARD_REVEAL_FIRST \<Rightarrow> 5
     | S7_CARD_REVEAL_SECOND \<Rightarrow> 4 | S8_BET_DECISION \<Rightarrow> 4 | S9_CARD_REVEAL_THIRD \<Rightarrow> 3
     | S10_SETTLED_ROUND \<Rightarrow> 2 | S11_ROTATE_TURN \<Rightarrow> 1 | _ \<Rightarrow> 0)"

definition seat_room :: "rule_set \<Rightarrow> nat" where
  "seat_room rs = nat (player_count_max rs)"

definition steps_left :: "rule_set \<Rightarrow> round_state \<Rightarrow> nat" where
  "steps_left rs s =
     (let n = length (players s) in case state_class s of
        S1_SEAT_OPEN \<Rightarrow> 10 * seat_room rs + 10 + (seat_room rs - n)
      | S3_ENTROPY_COMMIT_WINDOW \<Rightarrow>
          9 * n + 9 + length (filter (\<lambda>p. \<not> entropy_committed p) (players s))
      | S4_ENTROPY_REVEAL_WINDOW \<Rightarrow>
          8 * n + 8 + length (filter (\<lambda>p. \<not> entropy_revealed p) (players s))
      | RECOVERED \<Rightarrow> 0
      | c \<Rightarrow> 8 * turns_left s + play_steps c
             + (if c = S5_DECK_COMMITTED \<and> concealed_deck s = None then 1 else 0))"

definition productive :: "signed_action \<Rightarrow> bool" where
  "productive a \<longleftrightarrow> act_type a \<noteq> TableClose \<and> act_type a \<noteq> Recovery"

lemma filter_update_less:
  "i < length xs \<Longrightarrow> P (xs ! i) \<Longrightarrow> \<not> P y \<Longrightarrow>
     length (filter P xs) = Suc (length (filter P (xs[i := y])))"
proof (induction xs arbitrary: i)
  case (Cons x xs)
  then show ?case by (cases i) auto
qed simp

lemma players_bounded:
  assumes "reachable rs s" shows "length (players s) \<le> seat_room rs"
  using assms
proof (induction rule: reachable_invariant)
  case (start gid rsh dl)
  show ?case by (simp add: initialState_def)
next
  case (step s a h s')
  from step.hyps(2) show ?case
    by (cases rule: estep.cases) (use step.IH in \<open>auto simp: seat_room_def\<close>)
qed

lemma turns_left_enter [simp]: "turns_left (enter c s) = turns_left s"
  by (simp add: turns_left_def split: option.splits)

lemma turns_left_cong:
  "acting_player_seat t = acting_player_seat s \<Longrightarrow> map seat (players t) = map seat (players s) \<Longrightarrow>
     turns_left t = turns_left s"
  using map_eq_imp_length_eq by (fastforce simp: turns_left_def split: option.splits)

lemma turns_left_rotate:
  assumes "well_formed rs s" and "state_class s = S11_ROTATE_TURN"
    and "next_seat (seat_order s) (acting_player_seat s) = n" and "n \<noteq> seat_order s ! 0"
    and "players t = players s" and "acting_player_seat t = Some n"
  shows "Suc (turns_left t) = turns_left s"
proof -
  from rotate_actor[OF assms(1,2)] obtain i where i: "i < length (players s)"
    "acting_player_seat s = Some (seat_order s ! i)"
    "next_seat (seat_order s) (acting_player_seat s) =
      (if Suc i < length (players s) then seat_order s ! Suc i else seat_order s ! 0)" .
  then have j: "Suc i < length (players s)" and n: "n = seat_order s ! Suc i"
    using assms(3,4) by (auto split: if_splits)
  have "turns_left t = length (filter (\<lambda>k. seat_order s ! Suc i < k) (seat_order s))"
    using assms(5,6) n filter_sort_length by (simp add: turns_left_def seat_order_def)
  also have "\<dots> = length (players s) - Suc (Suc i)"
    using sorted_above_nth[of "seat_order s" "Suc i"] seat_order_facts[OF assms(1)] j by simp
  finally show ?thesis using turns_left_nth[OF assms(1) i(2,1)] j by simp
qed

lemma turns_left_reveal: "turns_left (s\<lparr> visible_cards := vs, acting_player_seat := reveal_actor s \<rparr>)
    \<le> turns_left s"
  using length_filter_le[of _ "map seat (players s)"]
  by (auto simp: turns_left_def reveal_actor_def split: option.splits)

lemma steps_left_play:
  "state_class s \<in> in_play \<Longrightarrow> steps_left rs s = 8 * turns_left s + play_steps (state_class s)
     + (if state_class s = S5_DECK_COMMITTED \<and> concealed_deck s = None then 1 else 0)"
  by (auto simp: in_play_def steps_left_def Let_def)

lemma steps_left_estep_play:
  assumes e: "estep rs h s a s'" and wf: "well_formed rs s" and p: "productive a"
    and ip: "state_class s \<in> in_play"
  shows "steps_left rs s' < steps_left rs s"
  using e
proof (cases rule: estep.cases)
  case (card r c)
  have "turns_left s' \<le> turns_left s" using card(1) turns_left_reveal by simp
  then show ?thesis using reveal_class_cases[OF card(4)] card(1) ip
    by (elim disjE) (simp_all add: steps_left_play play_steps_def)
next
  case (deal cs)
  have "turns_left s' = turns_left s" using deal(1) by (intro turns_left_cong) simp_all
  then show ?thesis using deal ip by (simp add: steps_left_play play_steps_def)
next
  case (bet b)
  have "turns_left s' = turns_left s" using bet(1) by (intro turns_left_cong) simp_all
  then show ?thesis using bet ip by (simp add: steps_left_play play_steps_def)
next
  case pass
  then show ?thesis using ip by (simp add: steps_left_play play_steps_def)
next
  case (surrender st deck i pk ps)
  have "turns_left s' = turns_left s"
    using surrender(1,10) by (intro turns_left_cong) (simp_all add: map_list_update_same)
  then show ?thesis using surrender(1,4) ip by (auto simp: steps_left_play play_steps_def)
next
  case (settle acting oc t pd qd)
  have "turns_left s' = turns_left s" using settle(1) by (intro turns_left_cong) simp_all
  then show ?thesis using settle(1,4) ip by (simp add: steps_left_play play_steps_def)
next
  case (wrap seats)
  then show ?thesis using ip by (simp add: steps_left_play play_steps_def)
next
  case (rotate seats n)
  have "acting_player_seat s \<noteq> None"
    using wf rotate(4) by (simp add: well_formed_def actor_ok_def decided_def)
  then have "Suc (turns_left s') = turns_left s"
    using turns_left_rotate[OF wf rotate(4) _ _, of n s'] rotate by (auto simp: seat_order_def)
  then show ?thesis using rotate(1,4) ip by (simp add: steps_left_play play_steps_def)
next
  case (timeout d x dl)
  then show ?thesis using ip by (simp add: steps_left_play play_steps_def)
qed (use p ip in \<open>simp_all add: productive_def\<close>)

lemma turns_left_le_players: "turns_left s \<le> length (players s)"
  by (rule card_above)

lemma steps_left_estep:
  assumes e: "estep rs h s a s'" and r: "reachable rs s" and p: "productive a"
  shows "steps_left rs s' < steps_left rs s"
proof (cases "state_class s \<in> in_play")
  case True
  then show ?thesis using steps_left_estep_play e reachable_well_formed[OF r] p by blast
next
  case False
  from e show ?thesis
  proof (cases rule: estep.cases)
    case (join pk)
    then show ?thesis by (simp add: steps_left_def seat_room_def)
  next
    case lock
    then show ?thesis
      using players_bounded[OF r] length_filter_le[of "\<lambda>p. \<not> entropy_committed p" "players s"]
      by (simp add: steps_left_def del: length_filter_le)
  next
    case (commit ch st i ps c)
    have i: "i < length (players s)" using commit(6) find_index_SomeD by blast
    have "length (filter (\<lambda>p. \<not> entropy_committed p) (players s))
        = Suc (length (filter (\<lambda>p. \<not> entropy_committed p) ps))"
      unfolding commit(8) by (rule filter_update_less) (use i commit(7) in simp_all)
    then show ?thesis
      using commit(1,4,8,9) length_filter_le[of "\<lambda>p. \<not> entropy_revealed p" ps]
      by (simp add: steps_left_def)
  next
    case (reveal ev st i ps c)
    have i: "i < length (players s)" using reveal(6) find_index_SomeD by blast
    have "length (filter (\<lambda>p. \<not> entropy_revealed p) (players s))
        = Suc (length (filter (\<lambda>p. \<not> entropy_revealed p) ps))"
      unfolding reveal(9) by (rule filter_update_less) (use i reveal(8) in simp_all)
    moreover have "turns_left s' \<le> length (players s)"
      using turns_left_le_players[of s'] reveal(1,9) by simp
    ultimately show ?thesis
      using reveal(1,4,9,10) by (simp add: steps_left_def play_steps_def Let_def)
  qed (use p False in \<open>auto simp: productive_def dest: reveal_class_in_play\<close>)
qed

lemma steps_left_idle:
  assumes "estep rs h s a s'" and "\<not> productive a"
  shows "steps_left rs s' \<le> steps_left rs s"
  using assms(1)
proof (cases rule: estep.cases)
  case table_close
  then have "turns_left s' = turns_left s" by (intro turns_left_cong) simp_all
  then show ?thesis using table_close by (simp add: steps_left_play play_steps_def)
qed (use assms(2) in \<open>simp_all add: productive_def steps_left_def\<close>)

lemma run_steps_left:
  "reachable rs s \<Longrightarrow> run_machine (engine_step rs) s inputs = ok s' \<Longrightarrow>
     length (filter (productive \<circ> fst) inputs) + steps_left rs s' \<le> steps_left rs s"
proof (induction inputs arbitrary: s)
  case (Cons i inputs)
  from Cons.prems(2) obtain t where t: "engine_step rs s i = ok t"
    "run_machine (engine_step rs) t inputs = ok s'" by (auto simp: res_bind_eq_Inr)
  have e: "estep rs (snd i) s (fst i) t"
    using t(1) by (simp add: engine_step_iff)
  have "reachable rs t" using Cons.prems(1) t(1) reachable.step by (simp add: engine_step_def)
  from Cons.IH[OF this t(2)] show ?case
    using steps_left_estep[OF e Cons.prems(1)] steps_left_idle[OF e]
    by (cases "productive (fst i)") simp_all
qed simp

text \<open>Each round has its own acting player, so there are at most as many rounds as seats.\<close>

definition round_bound :: "round_state \<Rightarrow> bool" where
  "round_bound s \<longleftrightarrow> round_number s = 0 \<or>
    (acting_player_seat s \<noteq> None \<and> int (turns_left s) + round_number s < int (length (players s)))"

lemma round_bound_keep:
  "round_bound s \<Longrightarrow> round_number t = round_number s \<Longrightarrow>
   (round_number s \<noteq> 0 \<longrightarrow> acting_player_seat t = acting_player_seat s \<and>
      map seat (players t) = map seat (players s)) \<Longrightarrow> round_bound t"
  using turns_left_cong[of t s] map_eq_imp_length_eq[of seat "players t" seat "players s"]
  by (auto simp: round_bound_def)

lemma round_bound_rotate:
  assumes wf: "well_formed rs s" and b: "round_bound s" and c: "state_class s = S11_ROTATE_TURN"
    and n: "next_seat (seat_order s) (acting_player_seat s) = n" "n \<noteq> seat_order s ! 0"
    and t: "players t = players s" "acting_player_seat t = Some n"
      "round_number t = round_number s + 1"
  shows "round_bound t"
proof -
  have l: "Suc (turns_left t) = turns_left s"
    by (rule turns_left_rotate[OF wf c n t(1,2)])
  from rotate_actor[OF wf c] obtain i where "i < length (players s)"
    "acting_player_seat s = Some (seat_order s ! i)" by blast
  then have "turns_left s < length (players s)" using turns_left_nth[OF wf] by simp
  then show ?thesis using l b t by (auto simp: round_bound_def)
qed

lemma round_bound_estep:
  assumes e: "estep rs h s a s'" and wf: "well_formed rs s" and b: "round_bound s"
  shows "round_bound s'"
  using e
proof (cases rule: estep.cases)
  case (rotate seats n)
  moreover have "acting_player_seat s \<noteq> None"
    using wf rotate(4) by (simp add: well_formed_def actor_ok_def decided_def)
  ultimately show ?thesis
    using round_bound_rotate[OF wf b rotate(4), of n s'] by (auto simp: seat_order_def)
next
  case (join pk)
  then have "round_number s = 0"
    using wf by (simp add: well_formed_def cards_ok_def preparing_def)
  then show ?thesis using join(1) by (simp add: round_bound_def)
next
  case (card r c)
  then show ?thesis
    using b by (intro round_bound_keep[OF b]) (auto simp: reveal_actor_def round_bound_def)
qed (intro round_bound_keep[OF b]; simp add: map_list_update_same)+

lemma reachable_round_bound: "reachable rs s \<Longrightarrow> round_bound s"
proof (induction rule: reachable_invariant)
  case (start gid rsh dl)
  show ?case by (simp add: round_bound_def initialState_def)
next
  case (step s a h s')
  then show ?case using round_bound_estep reachable_well_formed by blast
qed

section \<open>Commitments and concealed cards over a session\<close>

definition commitments_fixed :: "round_state \<Rightarrow> bool" where
  "commitments_fixed s \<longleftrightarrow> state_class s \<notin> {S1_SEAT_OPEN, S3_ENTROPY_COMMIT_WINDOW}"

lemma commitments_kept:
  assumes "estep rs h s a s'" and "commitments_fixed s"
  shows "commitments_fixed s' \<and>
    map entropy_commitment_hash (players s') = map entropy_commitment_hash (players s)"
  using assms(1)
proof (cases rule: estep.cases)
  case (card r c)
  then show ?thesis by (auto simp: commitments_fixed_def dest!: reveal_class_cases)
qed (use assms(2) in \<open>simp_all add: commitments_fixed_def map_list_update_same credit_def cong: if_cong\<close>)

lemma run_commitments_kept:
  "run_machine (engine_step rs) s inputs = ok s' \<Longrightarrow> commitments_fixed s \<Longrightarrow>
     map entropy_commitment_hash (players s') = map entropy_commitment_hash (players s)"
proof (induction inputs arbitrary: s)
  case (Cons i inputs)
  then obtain t where t: "estep rs (snd i) s (fst i) t" "run_machine (engine_step rs) t inputs = ok s'"
    by (auto simp: res_bind_eq_Inr engine_step_iff)
  then show ?case using commitments_kept[OF t(1)] Cons by metis
qed simp

text \<open>What a concealed card may become: only its lifecycle state moves, and only from
  \<open>ASSIGNED_CONCEALED\<close> to \<open>SURRENDERED\<close>.\<close>

definition card_step :: "concealed_card \<Rightarrow> concealed_card \<Rightarrow> bool" where
  "card_step c d \<longleftrightarrow> d = c \<or>
     (lifecycle_state c = ASSIGNED_CONCEALED \<and> d = c\<lparr> lifecycle_state := SURRENDERED \<rparr>)"

lemma card_step_refl [simp]: "card_step c c"
  by (simp add: card_step_def)

lemma card_step_trans: "card_step c d \<Longrightarrow> card_step d e \<Longrightarrow> card_step c e"
  by (auto simp: card_step_def)

lemma card_step_surrender: "card_step c (surrender_card pk c)"
  by (simp add: card_step_def surrender_card_def surrenders_def)

lemma deck_estep:
  assumes "estep rs h s a s'" and "concealed_deck s = Some deck"
  shows "\<exists>deck'. concealed_deck s' = Some deck' \<and> list_all2 card_step deck deck'"
  using assms(1)
proof (cases rule: estep.cases)
  case (surrender st deck1 i pk ps)
  then show ?thesis using assms(2) by (simp add: list_all2_conv_all_nth card_step_surrender)
qed (use assms(2) in \<open>simp_all add: list_all2_refl\<close>)

lemma run_deck:
  "run_machine (engine_step rs) s inputs = ok s' \<Longrightarrow> concealed_deck s = Some deck \<Longrightarrow>
     \<exists>deck'. concealed_deck s' = Some deck' \<and> list_all2 card_step deck deck'"
proof (induction inputs arbitrary: s deck)
  case (Cons i inputs)
  then obtain t where t: "estep rs (snd i) s (fst i) t" "run_machine (engine_step rs) t inputs = ok s'"
    by (auto simp: res_bind_eq_Inr engine_step_iff)
  from deck_estep[OF t(1) Cons.prems(2)] obtain d where
    d: "concealed_deck t = Some d" "list_all2 card_step deck d" by blast
  from Cons.IH[OF t(2) d(1)] show ?case
    using d(2) list_all2_trans[of card_step card_step card_step] card_step_trans by blast
qed (simp add: list_all2_refl)

lemma deck_ok_steps: "list_all2 card_step deck deck' \<Longrightarrow> map commitment deck' = map commitment deck"
  by (induction rule: list_all2_induct) (auto simp: card_step_def)

section \<open>Settlement\<close>

lemma map_clampSat_ok_iff:
  "map_res (\<lambda>p. if seat p = acting then clampSat (stake_at_risk p + d) else ok (stake_at_risk p)) ps
     = ok bs \<longleftrightarrow>
   bs = map stake_at_risk (map (credit acting d) ps) \<and>
   (\<forall>p \<in> set ps. seat p = acting \<longrightarrow> safe_nat (stake_at_risk p + d))"
  by (induction ps arbitrary: bs) (auto simp: res_bind_eq_Inr clampSat_eq stake_credit split: if_splits)

lemma computeSettlement_ok_iff:
  "computeSettlement s rs = ok r \<longleftrightarrow>
     (\<exists>acting oc t pd qd. state_class s = S10_SETTLED_ROUND \<and>
        acting_player_seat s = Some acting \<and>
        classifyInBetweenRound (visible_cards s) = ok (oc, t) \<and>
        computeValueTransfer oc (pot_value s) (settlement_rules rs) = (pd, qd) \<and>
        safe_nat (pot_value s + qd) \<and> safe_nat \<bar>pd\<bar> \<and>
        (\<forall>p \<in> set (players s). seat p = acting \<longrightarrow> safe_nat (stake_at_risk p + pd)) \<and>
        r = \<lparr> round_state_hash = state_hash s, outcome = oc, sr_bet_amount = pot_value s,
              sr_acting_player_seat = acting, amount_won_or_lost = \<bar>pd\<bar>,
              resulting_pot_value = pot_value s + qd,
              resulting_balances = map stake_at_risk (map (credit acting pd) (players s)) \<rparr>)"
proof (cases "acting_player_seat s")
  case None
  then show ?thesis by (simp add: computeSettlement_def)
next
  case (Some acting)
  show ?thesis
  proof (cases "classifyInBetweenRound (visible_cards s)")
    case (Inl e)
    then show ?thesis using Some by (simp add: computeSettlement_def Let_def)
  next
    case (Inr c)
    obtain oc t where c: "c = (oc, t)" by force
    obtain pd qd where v: "computeValueTransfer oc (pot_value s) (settlement_rules rs) = (pd, qd)"
      by force
    have l: "length (visible_cards s) = 3" using classify_length Inr by blast
    show ?thesis
      by (auto simp: computeSettlement_def Some Inr c v l Let_def res_bind_eq_Inr asSatoshis_eq
          clampSat_eq map_clampSat_ok_iff)
  qed
qed

lemma transfer_safe:
  "computeValueTransfer oc bet rules = (pd, qd) \<Longrightarrow> safe_nat pot \<Longrightarrow> safe_nat (pot + qd) \<Longrightarrow>
     safe_nat \<bar>pd\<bar>"
  using value_transfer_zero_sum[of oc bet rules pd qd] by (auto simp: safe_nat_def)

end
