(* ===== verification/Scenario.thy ===== *)
theory Scenario
  imports Accounting
begin

text \<open>
  A concrete two-player session, the shape of the end-to-end session of the repository's
  deck simulator: two joins, the lock, both entropy exchanges, the concealed deal (four cards
  here), two reveals, a bet, the third reveal, the settlement, the rotation to the second
  player, and that player's round up to its third card. The properties are applied to its states. The identifiers are shortened: the engine only
  compares them.
\<close>

definition demo_id :: hash256 where
  "demo_id = ''a1''"

definition demo_key :: "char \<Rightarrow> pubkey33" where
  "demo_key c = ''02'' @ [c]"

definition demo_rules :: rule_set where
  "demo_rules = \<lparr>
     game_type = In_between, player_count_min = 2, player_count_max = 4, stake_amount = 1000,
     min_bet = 10, max_bet = 500, decision_timeout_blocks = 6, recovery_timeout_blocks = 144,
     invitation_window_blocks = 12, default_action_by_state = [(''S8_BET_DECISION'', ''Pass'')],
     penalty_schedule = \<lparr> non_reveal = 1, bad_reveal = 2, consecutive_cards = 3, equal_cards = 4 \<rparr>,
     deck_format = 4, shuffle_algorithm_version = 1,
     settlement_rules = \<lparr> in_between_win_multiplier = 1, in_between_loss_multiplier = 1,
       consecutive_cards_penalty = 50, equal_cards_penalty = 100 \<rparr>,
     recovery_rules = \<lparr> refund_stakes_to_funders = True, apply_non_reveal_penalty = False,
       apply_bad_reveal_penalty = True \<rparr>,
     serialisation_version = 1 \<rparr>"

definition demo_action :: "seat option \<Rightarrow> action_payload \<Rightarrow> signed_action" where
  "demo_action st p = \<lparr> act_game_id = demo_id, act_round_number = 0, referenced_state_hash = demo_id,
     action_nonce = demo_id, act_seat = st, authorising_signature = '''',
     successor_state_commitment = demo_id, payload = p \<rparr>"

definition demo_concealed :: "int \<Rightarrow> pubkey33 \<Rightarrow> concealed_card" where
  "demo_concealed i pk = \<lparr>
     commitment = \<lparr> position = i, card_commitment = demo_id, card_nonce = demo_id \<rparr>,
     ciphertext = ''00'', custody_outpoint = ''tx:0'', holder_pubkey = pk,
     lifecycle_state = ASSIGNED_CONCEALED \<rparr>"

definition demo_deck :: "concealed_card list" where
  "demo_deck = [demo_concealed 2 (demo_key CHR ''a''), demo_concealed 0 (demo_key CHR ''b''),
                demo_concealed 3 (demo_key CHR ''a''), demo_concealed 1 (demo_key CHR ''b'')]"

definition demo_reveal :: "int \<Rightarrow> rank \<Rightarrow> suit \<Rightarrow> int \<Rightarrow> reveal_proof" where
  "demo_reveal p r s n = \<lparr> proof_position = p, proof_card = \<lparr> rank = r, suit = s, ordinal = n \<rparr>,
     proof_card_nonce = demo_id, proof_deck_nonce = demo_id \<rparr>"

definition demo_inputs :: "(signed_action \<times> block_height) list" where
  "demo_inputs = map (\<lambda>a. (a, 100))
     [demo_action None (Join_Payload (demo_key CHR ''a'') 1000),
      demo_action (Some 1) (Join_Payload (demo_key CHR ''b'') 1000),
      demo_action None TableLock_Payload,
      demo_action (Some 0) (EntropyCommit_Payload demo_id),
      demo_action (Some 1) (EntropyCommit_Payload demo_id),
      demo_action (Some 0) (EntropyReveal_Payload demo_id),
      demo_action (Some 1) (EntropyReveal_Payload demo_id),
      demo_action None (DealConcealed_Payload demo_deck),
      demo_action (Some 0) (CardReveal_Payload (demo_reveal 0 R3 Clubs 1)),
      demo_action (Some 0) (CardReveal_Payload (demo_reveal 1 RK Clubs 11)),
      demo_action (Some 0) (Bet_Payload 100),
      demo_action (Some 0) (CardReveal_Payload (demo_reveal 2 R7 Hearts 31)),
      demo_action (Some 0) Settle_Payload,
      demo_action None RotateTurn_Payload,
      demo_action (Some 1) (CardReveal_Payload (demo_reveal 3 R9 Spades 46)),
      demo_action (Some 1) (Bet_Payload 40),
      demo_action (Some 1) (CardReveal_Payload (demo_reveal 0 R3 Clubs 1))]"

definition demo_start :: round_state where
  "demo_start = initialState demo_id demo_id 500"

text \<open>The state after the first \<open>k\<close> actions.\<close>

definition demo_at :: "nat \<Rightarrow> round_state" where
  "demo_at k = (case run_machine (engine_step demo_rules) demo_start (take k demo_inputs) of
     Inl _ \<Rightarrow> demo_start | Inr s \<Rightarrow> s)"

lemma demo_reachable: "reachable demo_rules (demo_at k)"
  using run_reachable[of demo_rules demo_start "take k demo_inputs"] reachable.start
  by (simp add: demo_at_def demo_start_def split: sum.splits)

lemma demo_accepted: "\<not> isl (run_machine (engine_step demo_rules) demo_start demo_inputs)"
  by code_simp

lemma demo_classes:
  "map (\<lambda>k. state_class (demo_at k)) [7, 8, 9, 10, 11, 12, 13, 14] =
     [S5_DECK_COMMITTED, S5_DECK_COMMITTED, S6_CARD_REVEAL_FIRST, S8_BET_DECISION,
      S9_CARD_REVEAL_THIRD, S10_SETTLED_ROUND, S11_ROTATE_TURN, S6_CARD_REVEAL_FIRST]"
  by code_simp

end
