(* ===== verification/Game_Laws.thy ===== *)
theory Game_Laws
  imports Scenario
begin

text \<open>
  The properties of the game engine: each is one theorem over the definitions of \<open>Cards\<close>,
  \<open>Penalties\<close> and \<open>Engine\<close>, a few steps from the invariants and the transition relation,
  followed by its application to the session of \<open>Scenario\<close> where it has hypotheses.
\<close>

section \<open>The transition function\<close>

text \<open>C1. \<open>applyAction\<close> implements the transition relation exactly: it accepts an action with a
  given successor state if and only if the relation has that step. Every guard of every handler,
  and every field of every successor state, is thereby stated declaratively in \<open>estep\<close>.\<close>
theorem engine_refines_relation:
  "applyAction s a rs h = ok s' \<longleftrightarrow> estep rs h s a s'"
  by (rule applyAction_iff_estep)

text \<open>C2. Every state the engine reaches from an initial state, whatever actions arrive, is well
  formed: seats are distinct safe non-negative integers, the allowed actions are those of the
  state class (or none, at a closed table), the classes \<open>S0\<close>, \<open>S2\<close> and \<open>S7\<close> never occur, the
  acting seat is always a seated player and is defined from the bet decision on, entropy flags
  agree with the stored values, and with a valid stake amount every balance and the pot are safe
  non-negative integers.\<close>
theorem reachable_states_are_well_formed:
  assumes "reachable rs s"
  shows "distinct (map seat (players s)) \<and> (\<forall>n \<in> seat ` set (players s). safe_nat n)
    \<and> state_class s \<notin> {S0_TABLE_OPEN, S2_TABLE_LOCKED, S7_CARD_REVEAL_SECOND}
    \<and> (allowed_actions s = getLegalActions (state_class s) \<or>
         state_class s = S12_TABLE_CLOSE \<and> allowed_actions s = [])
    \<and> (\<forall>st. acting_player_seat s = Some st \<longrightarrow> st \<in> seat ` set (players s))
    \<and> (state_class s \<in> {S8_BET_DECISION, S9_CARD_REVEAL_THIRD, S10_SETTLED_ROUND,
         S11_ROTATE_TURN, S12_TABLE_CLOSE} \<longrightarrow> acting_player_seat s \<noteq> None)
    \<and> (\<forall>p \<in> set (players s). (entropy_committed p \<longleftrightarrow> entropy_commitment_hash p \<noteq> None)
         \<and> (entropy_revealed p \<longleftrightarrow> entropy_value p \<noteq> None)
         \<and> (entropy_revealed p \<longrightarrow> entropy_committed p))
    \<and> (safe_nat (stake_amount rs) \<longrightarrow>
         safe_nat (pot_value s) \<and> (\<forall>p \<in> set (players s). safe_nat (stake_at_risk p)))"
proof -
  have "seats_ok s" "class_ok s" "entropy_ok s" "actor_ok s" "safe_nat (stake_amount rs) \<longrightarrow> money_ok s"
    using reachable_well_formed[OF assms] by (simp_all add: well_formed_def)
  note wf = this(1)[unfolded seats_ok_def] this(2)[unfolded class_ok_def]
    entropy_ok_players[OF this(3), unfolded player_entropy_ok_def]
    this(4)[unfolded actor_ok_def decided_def] this(5)[unfolded money_ok_def]
  show ?thesis by (insert wf, elim conjE, intro conjI) assumption+
qed

lemma reachable_states_are_well_formed_witness:
  "reachable demo_rules (demo_at 12) \<and> acting_player_seat (demo_at 12) \<noteq> None"
proof -
  have "state_class (demo_at 12) = S10_SETTLED_ROUND" by code_simp
  then show ?thesis
    using reachable_states_are_well_formed[OF demo_reachable, of 12] demo_reachable[of 12] by blast
qed

text \<open>Actions are accepted only where the protocol lists them: in a reachable state an accepted
  action other than \<open>Recovery\<close> belongs to the session, has a type among the legal actions of the
  state class, and that type is in the state's own \<open>allowed_actions\<close> unless the table was closed
  already. The engine never accepts anything else than \<open>Recovery\<close> in \<open>RECOVERED\<close>.\<close>
theorem accepted_actions_are_legal:
  assumes "reachable rs s" and "applyAction s a rs h = ok s'" and "act_type a \<noteq> Recovery"
  shows "act_game_id a = game_id s \<and> act_type a \<in> set (getLegalActions (state_class s))
    \<and> (act_type a \<in> set (allowed_actions s) \<or> state_class s = S12_TABLE_CLOSE)
    \<and> state_class s \<noteq> RECOVERED"
proof -
  have "act_game_id a = game_id s" "act_type a \<in> set (getLegalActions (state_class s))"
    using assms(2,3) by (auto simp: applyAction_def split: if_splits)
  then show ?thesis using reachable_class_ok[OF assms(1)] by (auto simp: class_ok_def)
qed

lemma accepted_actions_are_legal_witness:
  "Settle \<in> set (getLegalActions (state_class (demo_at 12)))"
proof -
  let ?a = "demo_action (Some 0) Settle_Payload"
  have "\<not> isl (applyAction (demo_at 12) ?a demo_rules 100)" by code_simp
  then obtain s' where "applyAction (demo_at 12) ?a demo_rules 100 = ok s'"
    by (cases "applyAction (demo_at 12) ?a demo_rules 100") auto
  then show ?thesis
    using accepted_actions_are_legal[OF demo_reachable, of 12 ?a 100 s'] by (simp add: demo_action_def)
qed

section \<open>Value\<close>

text \<open>C3. Exact accounting over a session: from any reachable state, after any accepted sequence of
  actions, the pot plus all balances has grown by exactly the stakes of the accepted joins and the
  amounts of the accepted bets. Passing, folding, settling, rotating and recovering move value but
  create and destroy none (and a bet is not debited from the bettor's balance).\<close>
theorem session_accounting:
  assumes "reachable rs s" and "run_machine (engine_step rs) s inputs = ok s'"
  shows "total_value s' = total_value s
    + (\<Sum>i\<leftarrow>inputs. case payload (fst i) of Join_Payload pk stake \<Rightarrow> stake | Bet_Payload b \<Rightarrow> b | _ \<Rightarrow> 0)"
  using run_total_value[OF reachable_well_formed[OF assms(1)] assms(2)] by (simp add: inflow_def o_def)

lemma demo_run: "run_machine (engine_step demo_rules) demo_start demo_inputs = ok (demo_at 17)"
proof -
  have "take 17 demo_inputs = demo_inputs" by (simp add: demo_inputs_def)
  then show ?thesis using demo_accepted by (auto simp: demo_at_def split: sum.splits)
qed

lemma demo_start_reachable: "reachable demo_rules demo_start"
  by (simp add: demo_start_def reachable.start)

lemma session_accounting_witness: "total_value (demo_at 17) = 2140"
  using session_accounting[OF demo_start_reachable demo_run]
  by (simp add: total_value_def demo_start_def initialState_def demo_inputs_def demo_action_def)

text \<open>Classification of a round, for cards of the 52-card deck, in terms of the ranks alone: equal
  first ranks are the equal-cards penalty, adjacent ones the consecutive-cards penalty, and
  otherwise the round is won exactly if the third rank lies strictly between the first two.\<close>
theorem classification_by_ranks:
  assumes "canonical_card a" and "canonical_card b" and "canonical_card c"
  shows "classifyInBetweenRound [a, b, c] = ok
    (if rank a = rank b then (Equal_Penalty, False)
     else if rank_index (rank a) = Suc (rank_index (rank b)) \<or>
             rank_index (rank b) = Suc (rank_index (rank a)) then (Consecutive_Penalty, False)
     else if min (rank a) (rank b) < rank c \<and> rank c < max (rank a) (rank b) then (Win, True)
     else (Loss, True))"
  using rank_index_inj[of "rank a" "rank b"]
  by (auto simp: classifyInBetweenRound_def Let_def assms[THEN canonical_residue] min_def max_def
      less_rank_def less_eq_rank_def)

lemma classification_by_ranks_witness:
  "classifyInBetweenRound [\<lparr> rank = R3, suit = Clubs, ordinal = 1 \<rparr>,
     \<lparr> rank = RK, suit = Clubs, ordinal = 11 \<rparr>, \<lparr> rank = R7, suit = Hearts, ordinal = 31 \<rparr>]
   = ok (Win, True)"
  by (subst classification_by_ranks)
     (simp_all add: canonical_card_def cardOrdinal_eq min_def max_def less_rank_def less_eq_rank_def)

text \<open>The canonical ordinal is a bijection between the rank and suit pairs and \<open>0..51\<close>, and
  \<open>cardFromOrdinal\<close> is its inverse; outside the range it throws.\<close>
theorem card_ordinal_bijection:
  "(cardFromOrdinal n = ok c \<longleftrightarrow> ordinal c = n \<and> cardOrdinal (rank c) (suit c) = ok n)
   \<and> ((\<exists>c. cardFromOrdinal n = ok c) \<longleftrightarrow> 0 \<le> n \<and> n \<le> 51)"
proof (intro conjI iffI)
  assume "cardFromOrdinal n = ok c"
  then show "ordinal c = n" "cardOrdinal (rank c) (suit c) = ok n"
    by (auto simp: cardFromOrdinal_def Let_def split: if_splits dest!: leI intro!: ordinal_of_parts)
next
  assume "ordinal c = n \<and> cardOrdinal (rank c) (suit c) = ok n"
  then show "cardFromOrdinal n = ok c" using cardFromOrdinal_cardOrdinal by (cases c) auto
next
  assume "\<exists>c. cardFromOrdinal n = ok c"
  then show "0 \<le> n" "n \<le> 51" by (auto simp: cardFromOrdinal_def split: if_splits)
next
  assume "0 \<le> n \<and> n \<le> 51"
  then show "\<exists>c. cardFromOrdinal n = ok c"
    by (auto simp: cardFromOrdinal_def Let_def order_lengths)
qed

section \<open>Turns and rounds\<close>

text \<open>C4. Every session ends: at most \<open>11 * player_count_max + 10\<close> actions other than \<open>TableClose\<close>
  and \<open>Recovery\<close> (which change nothing but the class) are ever accepted from an initial state.\<close>
theorem every_session_ends:
  assumes "run_machine (engine_step rs) (initialState gid rsh dl) inputs = ok s'"
  shows "length (filter (\<lambda>i. act_type (fst i) \<noteq> TableClose \<and> act_type (fst i) \<noteq> Recovery) inputs)
    \<le> 11 * nat (player_count_max rs) + 10"
proof -
  have "filter (productive \<circ> fst) inputs
    = filter (\<lambda>i. act_type (fst i) \<noteq> TableClose \<and> act_type (fst i) \<noteq> Recovery) inputs"
    by (simp add: productive_def o_def)
  then show ?thesis
    using run_steps_left[OF reachable.start assms]
    by (simp add: steps_left_def initialState_def seat_room_def)
qed

lemma every_session_ends_witness:
  "length (filter (\<lambda>i. act_type (fst i) \<noteq> TableClose \<and> act_type (fst i) \<noteq> Recovery) demo_inputs) \<le> 54"
  using every_session_ends[OF demo_run[unfolded demo_start_def]] by (simp add: demo_rules_def)

text \<open>C5. Turn order: in a reachable state an accepted \<open>RotateTurn\<close> starts the next round for the
  seated player with the next larger seat number, with no card face up and the round number
  advanced by one; it closes the table exactly when the acting player holds the largest seat.
  There are never more rounds than players.\<close>
theorem turn_order:
  assumes "reachable rs s" and "payload a = RotateTurn_Payload" and "applyAction s a rs h = ok s'"
    and "acting_player_seat s = Some st"
  shows "if \<forall>n \<in> seat ` set (players s). n \<le> st
    then state_class s' = S12_TABLE_CLOSE \<and> acting_player_seat s' = Some st
      \<and> round_number s' = round_number s
    else state_class s' = S6_CARD_REVEAL_FIRST \<and> visible_cards s' = []
      \<and> round_number s' = round_number s + 1 \<and> round_number s' < int (length (players s'))
      \<and> (\<exists>n \<in> seat ` set (players s). acting_player_seat s' = Some n \<and> st < n
           \<and> (\<forall>m \<in> seat ` set (players s). st < m \<longrightarrow> n \<le> m))"
proof -
  have wf: "well_formed rs s" using assms(1) by (rule reachable_well_formed)
  have e: "estep rs h s a s'" using assms(3) by (simp add: applyAction_iff_estep)
  then have c: "state_class s = S11_ROTATE_TURN"
    by (cases rule: estep.cases) (simp_all add: assms(2))
  from rotate_actor[OF wf c] obtain i where i: "i < length (players s)"
    "acting_player_seat s = Some (seat_order s ! i)"
    and nxt: "next_seat (seat_order s) (acting_player_seat s) =
      (if Suc i < length (players s) then seat_order s ! Suc i else seat_order s ! 0)" .
  have st: "st = seat_order s ! i" using i(2) assms(4) by simp
  have rb: "round_bound s'" using assms(1,3) reachable.step reachable_round_bound by blast
  note ord = sorted_successor[of "seat_order s" i, folded st]
    seat_order_facts[OF wf, THEN conjunct1] seat_order_facts[OF wf, THEN conjunct2]
  show ?thesis
  proof (cases "Suc i < length (players s)")
    case True
    have neq: "seat_order s ! Suc i \<noteq> seat_order s ! 0"
      using True ord(2,3) nth_eq_iff_index_eq[of "seat_order s" "Suc i" 0] by fastforce
    from e have "s' = enter S6_CARD_REVEAL_FIRST (s\<lparr> round_number := round_number s + 1,
        acting_player_seat := Some (seat_order s ! Suc i), visible_cards := [] \<rparr>)
        \<and> safe_nat (round_number s + 1)"
      by (cases rule: estep.cases)
         (use True neq nxt assms(2) in \<open>simp_all flip: seat_order_def\<close>)
    moreover have "round_number s \<ge> 0"
      using reachable_cards_ok[OF assms(1)] by (simp add: cards_ok_def safe_nat_def)
    moreover have n: "seat_order s ! Suc i \<in> seat ` set (players s)" "st < seat_order s ! Suc i"
      "\<forall>m \<in> seat ` set (players s). st < m \<longrightarrow> seat_order s ! Suc i \<le> m"
      using True ord i(1) by simp_all
    moreover have "\<not> (\<forall>n \<in> seat ` set (players s). n \<le> st)" using n(1,2) by (meson not_le)
    ultimately show ?thesis using rb by (auto simp: round_bound_def)
  next
    case False
    from e have "s' = enter S12_TABLE_CLOSE s"
      by (cases rule: estep.cases)
         (use False nxt assms(2,4) in \<open>simp_all flip: seat_order_def\<close>)
    then show ?thesis using False ord i(1) assms(4) by auto
  qed
qed

text \<open>The step of the session from its \<open>k\<close>-th state.\<close>

lemma demo_step:
  assumes "k < 17"
  shows "applyAction (demo_at k) (fst (demo_inputs ! k)) demo_rules (snd (demo_inputs ! k))
    = ok (demo_at (Suc k))"
proof -
  let ?run = "\<lambda>n. run_machine (engine_step demo_rules) demo_start (take n demo_inputs)"
  have all: "?run n = ok (demo_at n)" for n
  proof -
    have "run_machine (engine_step demo_rules) demo_start (take n demo_inputs @ drop n demo_inputs)
      = ok (demo_at 17)" using demo_run by simp
    then obtain t where "?run n = ok t" by (rule engine.run_prefix_ok)
    then show ?thesis by (simp add: demo_at_def)
  qed
  have "k < length demo_inputs" using assms by (simp add: demo_inputs_def)
  then have "take (Suc k) demo_inputs = take k demo_inputs @ [demo_inputs ! k]"
    by (rule take_Suc_conv_app_nth)
  then have "?run (Suc k) = engine_step demo_rules (demo_at k) (demo_inputs ! k)"
    by (simp add: run_machine_append all[of k])
  then show ?thesis using all[of "Suc k"] by (simp add: engine_step_def)
qed

lemma demo_input_13: "demo_inputs ! 13 = (demo_action None RotateTurn_Payload, 100)"
  by (simp add: demo_inputs_def)

lemma turn_order_witness: "state_class (demo_at 14) = S6_CARD_REVEAL_FIRST \<and> visible_cards (demo_at 14) = []"
proof -
  have "acting_player_seat (demo_at 13) = Some 0"
    "\<not> (\<forall>n \<in> seat ` set (players (demo_at 13)). n \<le> 0)" by code_simp+
  then show ?thesis
    using turn_order[OF demo_reachable, of "demo_action None RotateTurn_Payload" 13 100 "demo_at 14" 0]
      demo_step[of 13] by (simp add: demo_input_13 demo_action_def)
qed

text \<open>C11. Only the first round can settle. In a later round \<open>visible_cards\<close> was cleared but play
  resumes at the second reveal, so at \<open>S10_SETTLED_ROUND\<close> only two cards lie face up: \<open>Settle\<close> is
  rejected with \<open>INVALID_STATE_TRANSITION\<close>, the preview fails too, and no action but \<open>Recovery\<close>
  is ever accepted.\<close>
theorem later_rounds_cannot_settle:
  assumes "reachable rs s" and "state_class s = S10_SETTLED_ROUND" and "round_number s \<noteq> 0"
  shows "length (visible_cards s) = 2 \<and> applySettle s rs = err INVALID_STATE_TRANSITION
    \<and> computeSettlement s rs = err INVALID_STATE_TRANSITION
    \<and> (\<forall>a h s'. applyAction s a rs h = ok s' \<longrightarrow> act_type a = Recovery)"
proof -
  have n: "length (visible_cards s) = 2"
    using reachable_cards_ok[OF assms(1)] assms(2,3) by (simp add: cards_ok_def)
  moreover obtain st where "acting_player_seat s = Some st"
    using reachable_actor_ok[OF assms(1)] assms(2) by (auto simp: actor_ok_def decided_def)
  moreover have "act_type a = Recovery" if "applyAction s a rs h = ok s'" for a h s'
    using that unfolding applyAction_iff_estep
  proof (cases rule: estep.cases)
    case (settle acting oc t pd qd)
    then show ?thesis using n classify_length by fastforce
  qed (use assms(2) in simp_all)
  moreover have "applySettle s rs = err INVALID_STATE_TRANSITION"
    using n assms(2) by (simp add: applySettle_def)
  moreover have "computeSettlement s rs = err INVALID_STATE_TRANSITION" if "acting_player_seat s = Some st" for st
    using n assms(2) that by (simp add: computeSettlement_def)
  ultimately show ?thesis by blast
qed

lemma later_rounds_cannot_settle_witness:
  "applySettle (demo_at 17) demo_rules = err INVALID_STATE_TRANSITION"
proof -
  have "state_class (demo_at 17) = S10_SETTLED_ROUND" "round_number (demo_at 17) \<noteq> 0" by code_simp+
  from later_rounds_cannot_settle[OF demo_reachable this] show ?thesis by (elim conjE)
qed

text \<open>C12. The decision timeout can never fire: no handler ever sets
  \<open>decision_deadline_block_height\<close>, so in every reachable state, at any height, \<open>Timeout\<close> is
  rejected (with \<open>TIMEOUT_NOT_MATURE\<close> at the bet decision), and \<open>eligibility\<close>'s deadline is
  always absent.\<close>
theorem timeout_never_fires:
  assumes "reachable rs s" and "act_type a = Timeout" and "act_game_id a = game_id s"
  shows "decision_deadline_block_height s = None
    \<and> applyAction s a rs h = (if state_class s = S8_BET_DECISION then err TIMEOUT_NOT_MATURE
                             else err INVALID_ACTION_FOR_STATE)"
proof -
  obtain d x where "payload a = Timeout_Payload d x"
    using assms(2) by (cases "payload a") auto
  moreover have "state_class s \<noteq> S7_CARD_REVEAL_SECOND" "decision_deadline_block_height s = None"
    using reachable_well_formed[OF assms(1)] by (auto simp: well_formed_def class_ok_def)
  ultimately show ?thesis using assms(3)
    by (cases "state_class s") (simp_all add: applyAction_def applyTimeout_def)
qed

lemma timeout_never_fires_witness:
  "applyAction (demo_at 10) (demo_action (Some 0) (Timeout_Payload Pass 0)) demo_rules 100000
    = err TIMEOUT_NOT_MATURE"
proof -
  have "state_class (demo_at 10) = S8_BET_DECISION" "game_id (demo_at 10) = demo_id" by code_simp+
  then show ?thesis
    using timeout_never_fires[OF demo_reachable, of "demo_action (Some 0) (Timeout_Payload Pass 0)" 10 100000]
    by (simp add: demo_action_def)
qed

text \<open>C6. Recovery is always available and final: in every reachable state of a session started
  with recovery deadline \<open>dl\<close>, a \<open>Recovery\<close> action of the session is accepted if and only if the
  height has reached \<open>dl\<close>; it changes no balance, the pot and no card, and from \<open>RECOVERED\<close> only
  \<open>RECOVERED\<close> can be reached.\<close>
theorem recovery_always_available:
  assumes "run_machine (engine_step rs) (initialState gid rsh dl) inputs = ok s"
    and "payload a = Recovery_Payload note" and "act_game_id a = gid"
  shows "if h < dl then applyAction s a rs h = err RECOVERY_NOT_MATURE
    else \<exists>s'. applyAction s a rs h = ok s' \<and> state_class s' = RECOVERED
      \<and> players s' = players s \<and> pot_value s' = pot_value s \<and> concealed_deck s' = concealed_deck s
      \<and> visible_cards s' = visible_cards s
      \<and> (\<forall>b k s''. applyAction s' b rs k = ok s'' \<longrightarrow> state_class s'' = RECOVERED)"
proof -
  have f: "game_id s = gid \<and> recovery_deadline_block_height s = Some dl"
    using run_frame[OF assms(1)] by (simp add: initialState_def)
  have absorbing: "applyAction (enter RECOVERED s) b rs k = ok s'' \<longrightarrow> state_class s'' = RECOVERED"
    for b k s''
  proof
    assume "applyAction (enter RECOVERED s) b rs k = ok s''"
    then show "state_class s'' = RECOVERED"
      unfolding applyAction_iff_estep by (cases rule: estep.cases) simp_all
  qed
  show ?thesis
  proof (cases "h < dl")
    case True
    then show ?thesis using f assms(2,3) by (simp add: applyAction_def applyRecovery_def)
  next
    case False
    then have "applyAction s a rs h = ok (enter RECOVERED s)"
      using f assms(2,3) by (simp add: applyAction_def applyRecovery_def enter_def)
    then show ?thesis unfolding if_not_P[OF False]
      by (intro exI[of _ "enter RECOVERED s"] conjI allI absorbing) simp_all
  qed
qed

lemma recovery_always_available_witness:
  "\<exists>s'. applyAction (demo_at 17) (demo_action None (Recovery_Payload ''abort'')) demo_rules 500 = ok s'
     \<and> state_class s' = RECOVERED"
  using recovery_always_available[OF demo_run[unfolded demo_start_def],
      of "demo_action None (Recovery_Payload ''abort'')" "''abort''" 500]
  by (auto simp: demo_action_def)

section \<open>Entropy\<close>

text \<open>C7. Commit before reveal: when the engine accepts an entropy reveal in a reachable state, every
  seated player has committed, the revealing player had not revealed, and whatever is accepted
  afterwards no commitment hash changes, so nobody chooses entropy after seeing another's.\<close>
theorem commit_before_reveal:
  assumes "reachable rs s" and "payload a = EntropyReveal_Payload e" and "applyAction s a rs h = ok s'"
    and "run_machine (engine_step rs) s' inputs = ok s''"
  shows "(\<forall>p \<in> set (players s). entropy_committed p \<and> entropy_commitment_hash p \<noteq> None)
    \<and> (\<exists>p \<in> set (players s). act_seat a = Some (seat p) \<and> entropy_value p = None)
    \<and> map entropy_commitment_hash (players s'') = map entropy_commitment_hash (players s)"
proof -
  have e: "estep rs h s a s'" using assms(3) by (simp add: applyAction_iff_estep)
  have ok: "entropy_ok s" using assms(1) by (rule reachable_entropy_ok)
  note ps = entropy_ok_players[OF ok, unfolded player_entropy_ok_def]
  from e have c: "state_class s = S4_ENTROPY_REVEAL_WINDOW"
    and who: "\<exists>p \<in> set (players s). act_seat a = Some (seat p) \<and> \<not> entropy_revealed p"
    by (cases rule: estep.cases; use assms(2) in \<open>auto dest: find_index_SomeD intro!: bexI[OF _ find_index_in_set]\<close>)+
  have "\<forall>p \<in> set (players s). entropy_committed p" using ok c by (simp add: entropy_ok_def)
  moreover have f: "commitments_fixed s" by (simp add: c commitments_fixed_def)
  then have "map entropy_commitment_hash (players s'') = map entropy_commitment_hash (players s)"
    using commitments_kept[OF e f] run_commitments_kept[OF assms(4)] by simp
  ultimately show ?thesis using ps who by blast
qed

lemma commit_before_reveal_witness:
  "list_all (\<lambda>p. entropy_committed p \<and> entropy_commitment_hash p \<noteq> None) (players (demo_at 6))"
proof -
  have "demo_inputs ! 6 = (demo_action (Some 1) (EntropyReveal_Payload demo_id), 100)"
    by (simp add: demo_inputs_def)
  then show ?thesis
    using commit_before_reveal[OF demo_reachable, of "demo_action (Some 1) (EntropyReveal_Payload demo_id)"
        demo_id 6 100 "demo_at 7" "[]" "demo_at 7"] demo_step[of 6]
    by (simp add: demo_action_def list_all_iff)
qed

section \<open>Concealed cards\<close>

text \<open>C8. A dealt deck is complete and stays so: in a reachable state with a concealed deck the
  deck has exactly \<open>deck_format\<close> cards at the positions \<open>0..deck_format-1\<close>, once each, and after
  any further accepted actions every card keeps its commitment, ciphertext, custody and holder;
  its lifecycle state moves at most from \<open>ASSIGNED_CONCEALED\<close> to \<open>SURRENDERED\<close>.\<close>
theorem concealed_deck_is_complete_and_fixed:
  assumes "reachable rs s" and "concealed_deck s = Some deck"
    and "run_machine (engine_step rs) s inputs = ok s'"
  shows "int (length deck) = deck_format rs
    \<and> distinct (map (position \<circ> commitment) deck)
    \<and> (position \<circ> commitment) ` set deck = {0..<deck_format rs}
    \<and> (\<exists>deck'. concealed_deck s' = Some deck' \<and> list_all2 (\<lambda>c d. d = c \<or>
         lifecycle_state c = ASSIGNED_CONCEALED \<and> d = c\<lparr> lifecycle_state := SURRENDERED \<rparr>) deck deck')"
proof -
  have "deck_ok rs deck"
    using reachable_concealed_ok[OF assms(1)] assms(2) by (simp add: concealed_ok_def)
  then show ?thesis
    using run_deck[OF assms(3,2)] deck_ok_positions[of rs deck]
    unfolding deck_ok_def card_step_def by blast
qed

lemma concealed_deck_is_complete_and_fixed_witness:
  "(position \<circ> commitment) ` set demo_deck = {0..<4}"
proof -
  have "concealed_deck (demo_at 8) = Some demo_deck" by code_simp
  then show ?thesis
    using concealed_deck_is_complete_and_fixed[OF demo_reachable, of 8 demo_deck "[]" "demo_at 8"]
    by (simp add: demo_rules_def)
qed

text \<open>C9. Folding reveals nothing: an accepted \<open>Fold\<close> surrenders exactly the folder's
  \<open>ASSIGNED_CONCEALED\<close> cards (at least one), leaves every other card and every commitment,
  ciphertext and custody as it was, turns no card face up, moves no value, marks only the folder
  as folded and passes to the rotation.\<close>
theorem fold_reveals_nothing:
  assumes "applyFold s a = ok s'"
  shows "\<exists>deck i. concealed_deck s = Some deck \<and> i < length (players s)
    \<and> act_seat a = Some (seat (players s ! i))
    \<and> (let pk = value_signing_pubkey (players s ! i);
           mine = (\<lambda>c. holder_pubkey c = pk \<and> lifecycle_state c = ASSIGNED_CONCEALED)
       in (\<exists>c \<in> set deck. mine c)
        \<and> concealed_deck s' = Some (map (\<lambda>c. if mine c then c\<lparr> lifecycle_state := SURRENDERED \<rparr> else c) deck))
    \<and> visible_cards s' = visible_cards s \<and> pot_value s' = pot_value s
    \<and> map stake_at_risk (players s') = map stake_at_risk (players s)
    \<and> players s' = (players s)[i := (players s ! i)\<lparr> participation_status := Folded \<rparr>]
    \<and> state_class s' = S11_ROTATE_TURN"
proof -
  from assms obtain st deck i pk ps where f: "act_seat a = Some st" "concealed_deck s = Some deck"
    "find_index (\<lambda>p. seat p = st) (players s) = Some i" "pk = value_signing_pubkey (players s ! i)"
    "\<exists>x \<in> set deck. surrenders pk x"
    "ps = (players s)[i := (players s ! i)\<lparr> participation_status := Folded \<rparr>]"
    "s' = enter S11_ROTATE_TURN
       (s\<lparr> players := ps, concealed_deck := Some (map (surrender_card pk) deck) \<rparr>)"
    unfolding applyFold_ok_iff by blast
  have i: "i < length (players s)" "seat (players s ! i) = st"
    using find_index_SomeD[OF f(3)] by auto
  show ?thesis
    by (rule exI[of _ deck], rule exI[of _ i])
       (use f i in \<open>simp add: Let_def surrenders_def surrender_card_def map_list_update_same\<close>)
qed

lemma fold_reveals_nothing_witness:
  "\<exists>s'. applyFold (demo_at 10) (demo_action (Some 0) Fold_Payload) = ok s'
     \<and> visible_cards s' = visible_cards (demo_at 10) \<and> pot_value s' = 0"
proof -
  have "\<not> isl (applyFold (demo_at 10) (demo_action (Some 0) Fold_Payload))" "pot_value (demo_at 10) = 0"
    by code_simp+
  then obtain s' where "applyFold (demo_at 10) (demo_action (Some 0) Fold_Payload) = ok s'"
    by (cases "applyFold (demo_at 10) (demo_action (Some 0) Fold_Payload)") auto
  then show ?thesis
    using fold_reveals_nothing[of "demo_at 10" "demo_action (Some 0) Fold_Payload" s']
      \<open>pot_value (demo_at 10) = 0\<close> by auto
qed

section \<open>Settlement\<close>

text \<open>C10. The settlement preview is the settlement: in a reachable state with a valid stake amount,
  \<open>computeSettlement\<close> succeeds exactly when \<open>applySettle\<close> accepts, and then its pot and its
  balances (in the order of the players) are those of the settled state, its bet is the whole pot,
  and the amount won or lost is the change of the pot.\<close>
theorem preview_is_settlement:
  assumes "reachable rs s" and "safe_nat (stake_amount rs)"
  shows "computeSettlement s rs = ok r \<longleftrightarrow>
    (\<exists>s' acting oc t. applySettle s rs = ok s' \<and> acting_player_seat s = Some acting
       \<and> classifyInBetweenRound (visible_cards s) = ok (oc, t)
       \<and> r = \<lparr> round_state_hash = state_hash s, outcome = oc, sr_bet_amount = pot_value s,
               sr_acting_player_seat = acting, amount_won_or_lost = \<bar>pot_value s' - pot_value s\<bar>,
               resulting_pot_value = pot_value s',
               resulting_balances = map stake_at_risk (players s') \<rparr>)"
    (is "?preview \<longleftrightarrow> ?settled")
proof
  assume ?preview
  then show ?settled unfolding computeSettlement_ok_iff applySettle_ok_iff
    by (fastforce dest: value_transfer_zero_sum)
next
  have pot: "safe_nat (pot_value s)"
    using reachable_money_ok[OF assms(2,1)] by (simp add: money_ok_def)
  assume ?settled
  then show ?preview unfolding computeSettlement_ok_iff applySettle_ok_iff
    using transfer_safe[OF _ pot] value_transfer_zero_sum by fastforce
qed

lemma preview_is_settlement_witness:
  "\<exists>r. computeSettlement (demo_at 12) demo_rules = ok r \<and> resulting_pot_value r = 0
     \<and> resulting_balances r = [1100, 1000]"
proof -
  have "pot_value (demo_at 13) = 0" "map stake_at_risk (players (demo_at 13)) = [1100, 1000]"
    "classifyInBetweenRound (visible_cards (demo_at 12)) = ok (Win, True)"
    "acting_player_seat (demo_at 12) = Some 0" "state_class (demo_at 12) = S10_SETTLED_ROUND"
    "game_id (demo_at 12) = demo_id" by code_simp+
  moreover have "demo_inputs ! 12 = (demo_action (Some 0) Settle_Payload, 100)"
    by (simp add: demo_inputs_def)
  then have "applyAction (demo_at 12) (demo_action (Some 0) Settle_Payload) demo_rules 100 = ok (demo_at 13)"
    using demo_step[of 12] by simp
  then have "applySettle (demo_at 12) demo_rules = ok (demo_at 13)"
    by (simp add: applyAction_def demo_action_def split: if_splits)
  moreover have st: "safe_nat (stake_amount demo_rules)"
    by (simp add: demo_rules_def safe_nat_def MAX_SAFE_INTEGER_def)
  ultimately show ?thesis
    unfolding preview_is_settlement[OF demo_reachable st] by auto
qed

section \<open>Failures\<close>

text \<open>C13. When the engine throws instead of returning an error: in a reachable state, with a valid
  stake amount and player maximum, only for a \<open>Join\<close> naming an unsafe seat, a bet that would push
  the pot out of the safe integers, and a \<open>Settle\<close> whose acting player cannot cover the loss (or
  whose balance would leave the safe integers). Everything else is a returned error code.\<close>
theorem engine_throws_only:
  assumes "reachable rs s" and "safe_nat (player_count_max rs)"
    and "applyAction s a rs h = throw f"
  shows "(\<exists>pk stake n. payload a = Join_Payload pk stake \<and> act_seat a = Some n \<and> \<not> safe_nat n)
    \<or> (\<exists>b. payload a = Bet_Payload b \<and> min_bet rs \<le> b \<and> b \<le> max_bet rs \<and> \<not> safe_nat (pot_value s + b))
    \<or> (\<exists>p oc t. payload a = Settle_Payload \<and> p \<in> set (players s) \<and> acting_player_seat s = Some (seat p)
        \<and> classifyInBetweenRound (visible_cards s) = ok (oc, t)
        \<and> \<not> safe_nat (stake_at_risk p
            + fst (computeValueTransfer oc (pot_value s) (settlement_rules rs))))"
proof -
  have d: "dispatch s a rs h (payload a) = throw f"
    using assms(3) by (auto simp: applyAction_def split: if_splits)
  have b: "int (length (players s)) \<le> player_count_max rs" "int (length (players s)) \<le> MAX_SAFE_INTEGER"
    using players_bounded[OF assms(1)] assms(2) by (auto simp: seat_room_def safe_nat_def)
  show ?thesis
  proof (cases "payload a")
    case (Join_Payload pk stake)
    then show ?thesis using d join_throws b(2) by fastforce
  next
    case (Bet_Payload x)
    then show ?thesis using d bet_throws by fastforce
  next
    case Settle_Payload
    then show ?thesis using d settle_throws by fastforce
  next
    case RotateTurn_Payload
    have "safe_nat (round_number s + 1)"
      using reachable_round_bound[OF assms(1)] reachable_cards_ok[OF assms(1)] b(2)
      by (auto simp: round_bound_def cards_ok_def safe_nat_def MAX_SAFE_INTEGER_def)
    then show ?thesis using d RotateTurn_Payload rotate_not_throws by fastforce
  qed (use d handler_not_throws in \<open>fastforce+\<close>)
qed

lemma engine_throws_only_witness:
  "\<exists>f. applyAction (demo_at 0) (demo_action (Some (- 1)) (Join_Payload (demo_key CHR ''a'') 1000)) demo_rules 0
     = throw f \<and> \<not> safe_nat (- 1)"
proof -
  let ?a = "demo_action (Some (- 1)) (Join_Payload (demo_key CHR ''a'') 1000)"
  have t: "applyAction (demo_at 0) ?a demo_rules 0 = throw ''asSeat''" by code_simp
  have "safe_nat (player_count_max demo_rules)"
    by (simp add: demo_rules_def safe_nat_def MAX_SAFE_INTEGER_def)
  from engine_throws_only[OF demo_reachable this t] t show ?thesis by (auto simp: demo_action_def)
qed

end
