(* ===== verification/Bytes.thy ===== *)
theory Bytes
  imports Primitives
begin

text \<open>
  Bytes and the JavaScript operations the sources build them with. A \<open>Uint8Array\<close> is a list of
  \<^typ>\<open>byte\<close>; the bitwise operators convert to 32-bit words first, as the language does, and a
  \<open>DataView\<close> setter keeps the low bits of its argument in little-endian order. A byte reader is
  the list of the bytes it has not read yet. The locale at the end is the contract every
  encoder and decoder pair of the repository is checked against.
\<close>

unbundle bit_operations_syntax

section \<open>32-bit operators\<close>

abbreviation word32 :: "int \<Rightarrow> 32 word" where
  "word32 n \<equiv> word_of_int n"

definition js_and :: "int \<Rightarrow> int \<Rightarrow> int" where
  "js_and a b = sint (word32 a AND word32 b)"

definition js_or :: "int \<Rightarrow> int \<Rightarrow> int" where
  "js_or a b = sint (word32 a OR word32 b)"

definition js_shl :: "int \<Rightarrow> nat \<Rightarrow> int" where
  "js_shl a k = sint (push_bit k (word32 a))"

text \<open>The arithmetic shift \<open>>>\<close> and the unsigned shift \<open>>>>\<close>.\<close>

definition js_shr :: "int \<Rightarrow> nat \<Rightarrow> int" where
  "js_shr a k = sint (signed_drop_bit k (word32 a))"

definition js_ushr :: "int \<Rightarrow> nat \<Rightarrow> int" where
  "js_ushr a k = uint (drop_bit k (word32 a))"

text \<open>Storing a number into a \<open>Uint8Array\<close>.\<close>

definition u8 :: "int \<Rightarrow> byte" where
  "u8 n = word_of_int n"

lemma u8_eqI: "(\<And>k. k < 8 \<Longrightarrow> bit a k = bit b k) \<Longrightarrow> u8 a = u8 b"
  by (rule bit_word_eqI) (simp add: u8_def bit_word_of_int_iff)

lemma bit_ff: "bit (0xff :: int) k \<longleftrightarrow> k < 8"
proof -
  have "(0xff :: int) = mask 8" by (simp add: mask_eq_exp_minus_1)
  then show ?thesis by (simp only: bit_mask_iff) simp
qed

lemma u8_and_ff [simp]: "u8 (js_and v 0xff) = u8 v"
  by (rule u8_eqI) (simp add: js_and_def bit_sint_iff bit_and_iff bit_word_of_int_iff bit_ff)

lemma u8_ushr: "k \<le> 24 \<Longrightarrow> u8 (js_ushr v k) = u8 (v div 2 ^ k)"
  by (rule u8_eqI)
     (simp add: js_ushr_def bit_uint_iff bit_drop_bit_eq bit_word_of_int_iff add.commute
       flip: drop_bit_eq_div)

lemma u8_shr: "k \<le> 24 \<Longrightarrow> u8 (js_shr v k) = u8 (v div 2 ^ k)"
proof (rule u8_eqI)
  fix j :: nat
  assume "k \<le> 24" and "j < 8"
  then have "k + j < 31 \<or> k + j = 31" by linarith
  then have "bit (js_shr v k) j = bit v (k + j)"
  proof
    assume "k + j < 31"
    then have "\<not> 31 - k \<le> j" "\<not> 32 - k \<le> j" by linarith+
    then show ?thesis using \<open>k + j < 31\<close>
      by (simp add: js_shr_def bit_sint_iff bit_signed_drop_bit_iff bit_word_of_int_iff)
  next
    assume "k + j = 31"
    then show ?thesis
      by (simp add: js_shr_def bit_sint_iff bit_signed_drop_bit_iff bit_word_of_int_iff)
  qed
  then show "bit (js_shr v k) j = bit (v div 2 ^ k) j"
    by (simp add: bit_drop_bit_eq flip: drop_bit_eq_div)
qed

lemma u8_of_mod [simp]: "u8 (v mod 256) = u8 v"
  by (rule u8_eqI) (simp add: bit_take_bit_iff flip: take_bit_eq_mod[of 8, simplified])

lemma uint_u8: "uint (u8 v) = v mod 256"
  by (simp add: u8_def uint_word_of_int)

lemma u8_uint [simp]: "u8 (uint b) = b"
  by (simp add: u8_def)

section \<open>Little-endian integers\<close>

text \<open>What a \<open>DataView\<close> setter of \<open>n\<close> bytes writes with \<open>littleEndian = true\<close>: the low
  \<open>8 * n\<close> bits of the number, two's complement for a negative one. The getters read it back.\<close>

fun le_bytes :: "nat \<Rightarrow> int \<Rightarrow> byte list" where
  "le_bytes 0 v = []"
| "le_bytes (Suc n) v = u8 v # le_bytes n (v div 256)"

fun le_value :: "byte list \<Rightarrow> int" where
  "le_value [] = 0"
| "le_value (b # bs) = uint b + 256 * le_value bs"

lemma length_le_bytes [simp]: "length (le_bytes n v) = n"
  by (induction n arbitrary: v) auto

lemma le_value_bounds: "0 \<le> le_value bs \<and> le_value bs < 256 ^ length bs"
proof (induction bs)
  case (Cons b bs)
  have "0 \<le> uint b" "uint b < 256" using uint_lt2p[of b] by simp_all
  then show ?case using Cons by simp
qed simp

lemma le_value_le_bytes: "le_value (le_bytes n v) = v mod 256 ^ n"
proof (induction n arbitrary: v)
  case (Suc n)
  have "v mod (256 * 256 ^ n) = 256 * (v div 256 mod 256 ^ n) + v mod 256"
    by (rule zmod_zmult2_eq) simp
  then show ?case using Suc by (simp add: uint_u8)
qed simp

lemma le_bytes_le_value: "length bs = n \<Longrightarrow> le_bytes n (le_value bs) = bs"
proof (induction bs arbitrary: n)
  case (Cons b bs)
  have "uint b < 256" using uint_lt2p[of b] by simp
  then have "(uint b + 256 * le_value bs) div 256 = le_value bs"
    "(uint b + 256 * le_value bs) mod 256 = uint b" by simp_all
  then show ?case using Cons u8_of_mod[of "uint b + 256 * le_value bs"] by auto
qed simp

lemma le_value_small: "0 \<le> v \<Longrightarrow> v < 256 ^ n \<Longrightarrow> le_value (le_bytes n v) = v"
  by (simp add: le_value_le_bytes)

lemma le_value_append: "le_value (a @ b) = le_value a + 256 ^ length a * le_value b"
  by (induction a) (simp_all add: algebra_simps)

lemma le_bytes_mod: "le_bytes n (v mod 256 ^ n) = le_bytes n v"
  using le_bytes_le_value[of "le_bytes n v" n] by (simp add: le_value_le_bytes)

lemma le_bytes_add: "le_bytes (m + n) v = le_bytes m v @ le_bytes n (v div 256 ^ m)"
proof (induction m arbitrary: v)
  case (Suc m)
  have "v div 256 div 256 ^ m = v div (256 * 256 ^ m)" by (simp add: zdiv_zmult2_eq)
  then show ?case using Suc by simp
qed simp

text \<open>The byte-by-byte encoders shift and mask; the bytes are those of the little-endian form.\<close>

lemma le_bytes_2: "[u8 v, u8 (v div 2 ^ 8)] = le_bytes 2 v"
  by (simp add: numeral_2_eq_2)

lemma le_bytes_4: "[u8 v, u8 (v div 2 ^ 8), u8 (v div 2 ^ 16), u8 (v div 2 ^ 24)] = le_bytes 4 v"
  by (simp add: numeral_eq_Suc zdiv_zmult2_eq[symmetric])

section \<open>Hexadecimal\<close>

text \<open>\<open>n.toString(16).padStart(2, '0')\<close> for a byte value.\<close>

definition hex_digit :: "nat \<Rightarrow> char" where
  "hex_digit n = ''0123456789abcdef'' ! n"

definition hex2 :: "nat \<Rightarrow> string" where
  "hex2 n = [hex_digit (n div 16), hex_digit (n mod 16)]"

definition toHex :: "byte list \<Rightarrow> string" where
  "toHex bs = concat (map (\<lambda>b. hex2 (unat b)) bs)"

text \<open>\<open>parseInt(s, 16)\<close>: leading white space, a sign and a \<open>0x\<close> prefix are skipped, the longest
  run of hexadecimal digits is read and the rest ignored; \<^const>\<open>None\<close> is \<open>NaN\<close>.\<close>

definition hex_value :: "char \<Rightarrow> int option" where
  "hex_value c =
     (let n = int (of_char c) in
      if 48 \<le> n \<and> n \<le> 57 then Some (n - 48)
      else if 97 \<le> n \<and> n \<le> 102 then Some (n - 87)
      else if 65 \<le> n \<and> n \<le> 70 then Some (n - 55) else None)"

definition js_space :: "char \<Rightarrow> bool" where
  "js_space c \<longleftrightarrow> (of_char c :: nat) \<in> {9, 10, 11, 12, 13, 32, 160}"

fun hex_run :: "int \<Rightarrow> string \<Rightarrow> int" where
  "hex_run acc [] = acc"
| "hex_run acc (c # cs) = (case hex_value c of None \<Rightarrow> acc | Some d \<Rightarrow> hex_run (16 * acc + d) cs)"

definition parse_unsigned16 :: "string \<Rightarrow> int option" where
  "parse_unsigned16 s =
     (let t = (if take 2 s = ''0x'' \<or> take 2 s = ''0X'' then drop 2 s else s)
      in case t of [] \<Rightarrow> None | c # _ \<Rightarrow> (if hex_value c = None then None else Some (hex_run 0 t)))"

definition parseInt16 :: "string \<Rightarrow> int option" where
  "parseInt16 s =
     (let t = dropWhile js_space s
      in case t of
           [] \<Rightarrow> None
         | c # cs \<Rightarrow> if c = CHR ''-'' then map_option uminus (parse_unsigned16 cs)
                    else if c = CHR ''+'' then parse_unsigned16 cs
                    else parse_unsigned16 t)"

text \<open>The loop of \<open>fromHex\<close> over \<open>hex.substring(i * 2, i * 2 + 2)\<close>.\<close>

fun parse_pairs :: "string \<Rightarrow> byte list result" where
  "parse_pairs (a # b # cs) =
     (case parseInt16 [a, b] of
        None \<Rightarrow> throw ''fromHex''
      | Some v \<Rightarrow> res_bind (parse_pairs cs) (\<lambda>bs. ok (u8 v # bs)))"
| "parse_pairs _ = ok []"

definition fromHex :: "string \<Rightarrow> byte list result" where
  "fromHex hex = (if length hex mod 2 \<noteq> 0 then throw ''fromHex'' else parse_pairs hex)"

text \<open>\<open>hexToBytes\<close> of \<open>hash.ts\<close> tests the pattern first.\<close>

definition hexToBytes :: "string \<Rightarrow> byte list result" where
  "hexToBytes hex =
     (if length hex mod 2 \<noteq> 0 \<or> \<not> list_all is_lower_hex hex then throw ''hexToBytes''
      else parse_pairs hex)"

lemma hex_digits_checked:
  "list_all (\<lambda>n. is_lower_hex (hex_digit n) \<and> hex_value (hex_digit n) = Some (int n) \<and>
     \<not> js_space (hex_digit n) \<and> hex_digit n \<notin> set ''-+xX'') [0..<16]"
  by code_simp

lemma hex_digit_facts:
  assumes "n < 16"
  shows "is_lower_hex (hex_digit n) \<and> hex_value (hex_digit n) = Some (int n) \<and>
    \<not> js_space (hex_digit n) \<and> hex_digit n \<noteq> CHR ''-'' \<and> hex_digit n \<noteq> CHR ''+'' \<and>
    hex_digit n \<noteq> CHR ''x'' \<and> hex_digit n \<noteq> CHR ''X''"
  using hex_digits_checked assms unfolding list_all_iff by auto

lemma lower_hex_digit: "is_lower_hex c \<Longrightarrow> \<exists>n < 16. c = hex_digit n"
proof -
  assume "is_lower_hex c"
  then obtain n where "n < length ''0123456789abcdef''" "c = ''0123456789abcdef'' ! n"
    unfolding is_lower_hex_def in_set_conv_nth by blast
  then show ?thesis by (auto simp: hex_digit_def intro!: exI[of _ n])
qed

lemma parseInt16_pair:
  "m < 16 \<Longrightarrow> n < 16 \<Longrightarrow> parseInt16 [hex_digit m, hex_digit n] = Some (16 * int m + int n)"
  using hex_digit_facts[of m] hex_digit_facts[of n]
  by (simp add: parseInt16_def parse_unsigned16_def)

lemma length_toHex: "length (toHex bs) = 2 * length bs"
  by (induction bs) (simp_all add: toHex_def hex2_def)

lemma unat_byte: "unat (b :: byte) < 256"
  using unsigned_less[of b] by simp

lemma toHex_lower: "list_all is_lower_hex (toHex bs)"
proof (induction bs)
  case (Cons b bs)
  have "unat b div 16 < 16" "unat b mod 16 < 16" using unat_byte[of b] by auto
  then show ?case using Cons hex_digit_facts by (simp add: toHex_def hex2_def)
qed (simp add: toHex_def)

lemma hex_string_toHex: "hex_string (2 * length bs) (toHex bs)"
  by (simp add: hex_string_def length_toHex toHex_lower)

lemma parse_pairs_toHex: "parse_pairs (toHex bs) = ok bs"
proof (induction bs)
  case (Cons b bs)
  have n: "unat b div 16 < 16" "unat b mod 16 < 16" using unat_byte[of b] by auto
  have "16 * int (unat b div 16) + int (unat b mod 16) = uint b"
    by (simp add: zdiv_int zmod_int flip: uint_nat)
  then show ?case using Cons parseInt16_pair[OF n] by (simp add: toHex_def hex2_def)
qed (simp add: toHex_def)

lemma fromHex_toHex [simp]: "fromHex (toHex bs) = ok bs"
  by (simp add: fromHex_def length_toHex parse_pairs_toHex)

lemma hexToBytes_toHex [simp]: "hexToBytes (toHex bs) = ok bs"
  by (simp add: hexToBytes_def length_toHex toHex_lower parse_pairs_toHex)

lemma unat_u8: "0 \<le> v \<Longrightarrow> v < 256 \<Longrightarrow> unat (u8 v) = nat v"
  unfolding unat_eq_nat_uint uint_u8 by simp

lemma toHex_Cons:
  assumes "m < 16" and "n < 16"
  shows "toHex (u8 (16 * int m + int n) # bs) = hex_digit m # hex_digit n # toHex bs"
proof -
  have "unat (u8 (16 * int m + int n)) = 16 * m + n"
    using assms by (simp add: unat_u8 nat_add_distrib nat_mult_distrib)
  moreover have "(16 * m + n) div 16 = m" "(16 * m + n) mod 16 = n" using assms(2) by simp_all
  ultimately show ?thesis by (simp add: toHex_def hex2_def)
qed

lemma lower_hex_toHex:
  "even (length h) \<Longrightarrow> list_all is_lower_hex h \<Longrightarrow> \<exists>bs. h = toHex bs \<and> 2 * length bs = length h"
proof (induction h rule: parse_pairs.induct)
  case (1 a b cs)
  have "is_lower_hex a" "is_lower_hex b" using "1.prems" by simp_all
  then obtain m n where mn: "m < 16" "n < 16" "a = hex_digit m" "b = hex_digit n"
    using lower_hex_digit by metis
  have "parseInt16 [a, b] = Some (16 * int m + int n)"
    unfolding mn(3,4) by (rule parseInt16_pair[OF mn(1,2)])
  moreover have "even (length cs)" "list_all is_lower_hex cs" using "1.prems" by simp_all
  ultimately obtain bs where bs: "cs = toHex bs" using "1.IH" by blast
  have "a # b # cs = toHex (u8 (16 * int m + int n) # bs)"
    unfolding bs mn(3,4) toHex_Cons[OF mn(1,2)] ..
  then show ?case using length_toHex by metis
qed (simp_all add: toHex_def)

section \<open>Reading\<close>

text \<open>\<open>who\<close> names the function that throws when the bytes run out.\<close>

definition take_bytes :: "string \<Rightarrow> int \<Rightarrow> byte list \<Rightarrow> (byte list \<times> byte list) result" where
  "take_bytes who n bs =
     (if int (length bs) < n then throw who else ok (take (nat n) bs, drop (nat n) bs))"

definition read_le :: "string \<Rightarrow> int \<Rightarrow> byte list \<Rightarrow> (int \<times> byte list) result" where
  "read_le who n bs = res_bind (take_bytes who n bs) (\<lambda>(v, rest). ok (le_value v, rest))"

text \<open>A counted loop that pushes one decoded item per turn.\<close>

fun dec_many ::
  "(byte list \<Rightarrow> 'e + ('a \<times> byte list)) \<Rightarrow> nat \<Rightarrow> byte list \<Rightarrow> 'e + ('a list \<times> byte list)"
where
  "dec_many dec 0 bs = Inr ([], bs)"
| "dec_many dec (Suc n) bs = res_bind (dec bs) (\<lambda>(x, rest).
     res_bind (dec_many dec n rest) (\<lambda>(xs, rest'). Inr (x # xs, rest')))"

lemma take_bytes_append [simp]: "n = int (length v) \<Longrightarrow> take_bytes who n (v @ rest) = ok (v, rest)"
  by (simp add: take_bytes_def)

lemma read_le_append [simp]:
  "n = int m \<Longrightarrow> 0 \<le> v \<Longrightarrow> v < 256 ^ m \<Longrightarrow> read_le who n (le_bytes m v @ rest) = ok (v, rest)"
  by (simp add: read_le_def le_value_small)

lemma take_bytes_Inr:
  "take_bytes who n bs = ok (v, rest) \<Longrightarrow> 0 \<le> n \<Longrightarrow> bs = v @ rest \<and> int (length v) = n"
  by (auto simp: take_bytes_def split: if_splits)

lemma read_le_Inr:
  "read_le who n bs = ok (v, rest) \<Longrightarrow> 0 \<le> n \<Longrightarrow>
     bs = le_bytes (nat n) v @ rest \<and> 0 \<le> v \<and> v < 256 ^ nat n"
proof -
  assume "read_le who n bs = ok (v, rest)" and n: "0 \<le> n"
  then obtain w where w: "take_bytes who n bs = ok (w, rest)" "v = le_value w"
    by (auto simp: read_le_def res_bind_eq_Inr)
  from take_bytes_Inr[OF w(1) n] have "bs = w @ rest" "length w = nat n" by auto
  then show ?thesis using le_bytes_le_value[of w] le_value_bounds[of w] w(2) by simp
qed

section \<open>The contract of a codec\<close>

text \<open>A decoder undoes its encoder on the values the encoder is meant for, whatever follows on the
  wire. Encodings are then injective and prefix free, and the counted loop undoes the
  concatenation of encodings.\<close>

locale codec =
  fixes enc :: "'a \<Rightarrow> 'e + byte list" and dec :: "byte list \<Rightarrow> 'e + ('a \<times> byte list)"
    and valid :: "'a \<Rightarrow> bool"
  assumes dec_enc: "valid a \<Longrightarrow> enc a = Inr bs \<Longrightarrow> dec (bs @ rest) = Inr (a, rest)"
begin

lemma enc_injective: "valid a \<Longrightarrow> valid b \<Longrightarrow> enc a = Inr bs \<Longrightarrow> enc b = Inr bs \<Longrightarrow> a = b"
  using dec_enc[of a bs "[]"] dec_enc[of b bs "[]"] by simp

lemma enc_prefix_free:
  "valid a \<Longrightarrow> valid b \<Longrightarrow> enc a = Inr bs \<Longrightarrow> enc b = Inr cs \<Longrightarrow> bs @ x = cs @ y \<Longrightarrow>
     a = b \<and> x = y \<and> bs = cs"
  using dec_enc[of a bs x] dec_enc[of b cs y] by auto

lemma dec_many_concat:
  "\<forall>a \<in> set xs. valid a \<Longrightarrow> map_res enc xs = Inr ps \<Longrightarrow>
     dec_many dec (length xs) (concat ps @ rest) = Inr (xs, rest)"
proof (induction xs arbitrary: ps)
  case (Cons x xs)
  then obtain p qs where p: "enc x = Inr p" "map_res enc xs = Inr qs" "ps = p # qs"
    by (auto simp: res_bind_eq_Inr)
  then show ?case
    using Cons dec_enc[of x p "concat qs @ rest"] by (simp add: append_assoc)
qed simp

lemma concat_injective:
  assumes "\<forall>a \<in> set xs. valid a" and "\<forall>a \<in> set ys. valid a"
    and "map_res enc xs = Inr ps" and "map_res enc ys = Inr qs" and "length xs = length ys"
    and "concat ps = concat qs"
  shows "xs = ys"
  using dec_many_concat[OF assms(1,3), of "[]"] dec_many_concat[OF assms(2,4), of "[]"] assms(5,6)
  by simp

text \<open>If no encoding is empty, a concatenation of encodings determines the list.\<close>

lemma concat_decodable:
  assumes "\<And>a. valid a \<Longrightarrow> enc a \<noteq> Inr []"
    and "\<forall>a \<in> set xs. valid a" and "\<forall>a \<in> set ys. valid a"
    and "map_res enc xs = Inr ps" and "map_res enc ys = Inr qs" and "concat ps = concat qs"
  shows "xs = ys"
  using assms(2-)
proof (induction xs arbitrary: ys ps qs)
  case Nil
  then show ?case using assms(1) by (cases ys) (auto simp: res_bind_eq_Inr)
next
  case (Cons x xs)
  then obtain p ps' where p: "enc x = Inr p" "map_res enc xs = Inr ps'" "ps = p # ps'"
    by (auto simp: res_bind_eq_Inr)
  show ?case
  proof (cases ys)
    case Nil
    then show ?thesis using Cons.prems p assms(1) by auto
  next
    case (Cons y ys')
    then obtain q qs' where q: "enc y = Inr q" "map_res enc ys' = Inr qs'" "qs = q # qs'"
      using Cons.prems(4) by (auto simp: res_bind_eq_Inr)
    have "x = y \<and> concat ps' = concat qs'"
      using enc_prefix_free[of x y p q "concat ps'" "concat qs'"] Cons.prems(1,2,5) Cons p q by simp
    then show ?thesis using Cons.IH[of ys' ps' qs'] Cons.prems(1,2) Cons p q by simp
  qed
qed

end

section \<open>Bitcoin varints\<close>

text \<open>The four forms that every varint encoder of the repository writes.\<close>

definition varint_bytes :: "int \<Rightarrow> byte list" where
  "varint_bytes v =
     (if v < 0xfd then [u8 v]
      else if v \<le> 0xffff then u8 0xfd # le_bytes 2 v
      else if v \<le> 0xffffffff then u8 0xfe # le_bytes 4 v
      else u8 0xff # le_bytes 8 v)"

definition varint_read :: "string \<Rightarrow> byte list \<Rightarrow> (int \<times> byte list) result" where
  "varint_read who bs = res_bind (take_bytes who 1 bs) (\<lambda>(h, rest).
     let first = uint (hd h) in
     if first < 0xfd then ok (first, rest)
     else if first = 0xfd then read_le who 2 rest
     else if first = 0xfe then read_le who 4 rest
     else read_le who 8 rest)"

lemma varint_read_bytes:
  "0 \<le> v \<Longrightarrow> v < 2 ^ 64 \<Longrightarrow> varint_read who (varint_bytes v @ rest) = ok (v, rest)"
  by (simp add: varint_read_def varint_bytes_def take_bytes_def Let_def uint_u8)

lemma varint_bytes_neq_Nil [simp]: "varint_bytes v \<noteq> []"
  by (simp add: varint_bytes_def)

text \<open>A length-prefixed string and what follows it are determined by the bytes.\<close>

lemma varint_string_prefix_free:
  assumes "int (length s) < 2 ^ 64" and "int (length t) < 2 ^ 64"
    and "varint_bytes (int (length s)) @ s @ x = varint_bytes (int (length t)) @ t @ y"
  shows "s = t \<and> x = y"
proof -
  have s: "varint_read ''x'' (varint_bytes (int (length s)) @ s @ x) = ok (int (length s), s @ x)"
    by (rule varint_read_bytes) (use assms(1) in simp_all)
  have t: "varint_read ''x'' (varint_bytes (int (length t)) @ t @ y) = ok (int (length t), t @ y)"
    by (rule varint_read_bytes) (use assms(2) in simp_all)
  from s[unfolded assms(3)] t have "length s = length t" and "s @ x = t @ y" by simp_all
  then show ?thesis by simp
qed

lemma concat_blocks:
  assumes "0 < k" and "\<forall>x \<in> set xs. length (f x) = k" and "\<forall>y \<in> set ys. length (f y) = k"
    and "concat (map f xs) = concat (map f ys)"
  shows "map f xs = map f ys"
  using assms(2-)
proof (induction xs arbitrary: ys)
  case Nil
  show ?case
  proof (cases ys)
    case (Cons y ys')
    then have "f y = []" using Nil(3) by simp
    then show ?thesis using Nil(2) Cons assms(1) by simp
  qed simp
next
  case (Cons x xs)
  show ?case
  proof (cases ys)
    case Nil
    then have "f x = []" using Cons.prems(3) by simp
    then show ?thesis using Cons.prems(1) assms(1) by simp
  next
    case ys: (Cons y ys')
    have "length (f x) = length (f y)" using Cons.prems(1,2) ys by simp
    then have "f x = f y" "concat (map f xs) = concat (map f ys')"
      using Cons.prems(3) ys by simp_all
    then show ?thesis using Cons.IH[of ys'] Cons.prems(1,2) ys by simp
  qed
qed

end
