(* ===== verification/Transactions.thy ===== *)
theory Transactions
  imports Bytes
begin

text \<open>
  \<open>packages/tx-builder/src\<close>: transactions (\<open>types.ts\<close>), their wire codec (\<open>encode.ts\<close>), transaction
  ids (\<open>txid.ts\<close>), the signature hash (\<open>sighash.ts\<close>) and the DER encoding of signatures
  (\<open>sign.ts\<close>). SHA-256 is the parameter \<open>sha\<close>. The reader models a \<open>Uint8Array\<close> that owns its
  buffer; a \<open>DataView\<close> that does not fit throws.
\<close>

section \<open>Transactions\<close>

record tx_input =
  prevTxid :: "byte list"
  prevVout :: int
  unlockingScript :: "byte list"
  sequence :: int

record tx_output =
  tx_value :: int
  lockingScript :: "byte list"

record bsv_transaction =
  version :: int
  inputs :: "tx_input list"
  outputs :: "tx_output list"
  lockTime :: int

definition SIGHASH_ALL :: int where "SIGHASH_ALL = 0x01"
definition SIGHASH_NONE :: int where "SIGHASH_NONE = 0x02"
definition SIGHASH_SINGLE :: int where "SIGHASH_SINGLE = 0x03"
definition SIGHASH_FORKID :: int where "SIGHASH_FORKID = 0x40"
definition SIGHASH_ANYONECANPAY :: int where "SIGHASH_ANYONECANPAY = 0x80"
definition SIGHASH_ALL_FORKID :: int where "SIGHASH_ALL_FORKID = js_or SIGHASH_ALL SIGHASH_FORKID"

lemmas sighash_flags = SIGHASH_ALL_def SIGHASH_NONE_def SIGHASH_SINGLE_def SIGHASH_FORKID_def
  SIGHASH_ANYONECANPAY_def

section \<open>Primitive encoders\<close>

definition encVarint :: "int \<Rightarrow> byte list result" where
  "encVarint v =
     (if v < 0 then throw ''encVarint''
      else if v < 0xfd then ok [u8 v]
      else if v \<le> 0xffff then ok (u8 0xfd # le_bytes 2 v)
      else if v \<le> 0xffffffff then ok (u8 0xfe # le_bytes 4 v)
      else ok (u8 0xff # le_bytes 8 v))"

definition encU32LE :: "int \<Rightarrow> byte list" where
  "encU32LE n = le_bytes 4 (js_ushr n 0)"

definition encI32LE :: "int \<Rightarrow> byte list" where
  "encI32LE n = le_bytes 4 n"

definition encU64LE :: "int \<Rightarrow> byte list" where
  "encU64LE n = le_bytes 8 n"

section \<open>Decoders\<close>

definition readU8 :: "byte list \<Rightarrow> (int \<times> byte list) result" where
  "readU8 c = (case c of [] \<Rightarrow> throw ''readU8'' | b # rest \<Rightarrow> ok (uint b, rest))"

definition readU16LE :: "byte list \<Rightarrow> (int \<times> byte list) result" where
  "readU16LE c = read_le ''DataView'' 2 c"

definition readU32LE :: "byte list \<Rightarrow> (int \<times> byte list) result" where
  "readU32LE c = read_le ''DataView'' 4 c"

text \<open>\<open>getInt32\<close> reads two's complement.\<close>

definition signed32 :: "int \<Rightarrow> int" where
  "signed32 v = (if v \<ge> 2 ^ 31 then v - 2 ^ 32 else v)"

definition readI32LE :: "byte list \<Rightarrow> (int \<times> byte list) result" where
  "readI32LE c = res_bind (read_le ''DataView'' 4 c) (\<lambda>(v, rest). ok (signed32 v, rest))"

definition readU64LE :: "byte list \<Rightarrow> (int \<times> byte list) result" where
  "readU64LE c = read_le ''DataView'' 8 c"

definition readVarint :: "byte list \<Rightarrow> (int \<times> byte list) result" where
  "readVarint c = res_bind (readU8 c) (\<lambda>(first, rest).
     if first < 0xfd then ok (first, rest)
     else if first = 0xfd then readU16LE rest
     else if first = 0xfe then readU32LE rest
     else readU64LE rest)"

definition readBytes :: "byte list \<Rightarrow> int \<Rightarrow> (byte list \<times> byte list) result" where
  "readBytes c n = take_bytes ''readBytes'' n c"

section \<open>The transaction codec\<close>

definition encInput :: "tx_input \<Rightarrow> byte list result" where
  "encInput i =
     (if length (prevTxid i) \<noteq> 32 then throw ''encInput''
      else res_bind (encVarint (int (length (unlockingScript i)))) (\<lambda>len.
        ok (prevTxid i @ encU32LE (prevVout i) @ len @ unlockingScript i @ encU32LE (sequence i))))"

definition encOutput :: "tx_output \<Rightarrow> byte list result" where
  "encOutput v = res_bind (encVarint (int (length (lockingScript v)))) (\<lambda>len.
     ok (encU64LE (tx_value v) @ len @ lockingScript v))"

definition encodeBsvTransaction :: "bsv_transaction \<Rightarrow> byte list result" where
  "encodeBsvTransaction tx =
     res_bind (encVarint (int (length (inputs tx)))) (\<lambda>nin.
     res_bind (map_res encInput (inputs tx)) (\<lambda>ins.
     res_bind (encVarint (int (length (outputs tx)))) (\<lambda>nout.
     res_bind (map_res encOutput (outputs tx)) (\<lambda>outs.
       ok (encI32LE (version tx) @ nin @ concat ins @ nout @ concat outs @ encU32LE (lockTime tx))))))"

text \<open>The body of each loop of the decoder.\<close>

definition decInput :: "byte list \<Rightarrow> (tx_input \<times> byte list) result" where
  "decInput c =
     res_bind (readBytes c 32) (\<lambda>(txid, c).
     res_bind (readU32LE c) (\<lambda>(vout, c).
     res_bind (readVarint c) (\<lambda>(scriptLen, c).
     res_bind (readBytes c scriptLen) (\<lambda>(script, c).
     res_bind (readU32LE c) (\<lambda>(sq, c).
       ok (\<lparr> prevTxid = txid, prevVout = vout, unlockingScript = script, sequence = sq \<rparr>, c))))))"

definition decOutput :: "byte list \<Rightarrow> (tx_output \<times> byte list) result" where
  "decOutput c =
     res_bind (readU64LE c) (\<lambda>(v, c).
     res_bind (readVarint c) (\<lambda>(scriptLen, c).
     res_bind (readBytes c scriptLen) (\<lambda>(script, c).
       ok (\<lparr> tx_value = v, lockingScript = script \<rparr>, c))))"

definition decodeBsvTransaction :: "byte list \<Rightarrow> bsv_transaction result" where
  "decodeBsvTransaction buf =
     res_bind (readI32LE buf) (\<lambda>(ver, c).
     res_bind (readVarint c) (\<lambda>(inputCount, c).
     res_bind (dec_many decInput (nat inputCount) c) (\<lambda>(ins, c).
     res_bind (readVarint c) (\<lambda>(outputCount, c).
     res_bind (dec_many decOutput (nat outputCount) c) (\<lambda>(outs, c).
     res_bind (readU32LE c) (\<lambda>(lt, c).
       if c \<noteq> [] then throw ''decodeBsvTransaction''
       else ok \<lparr> version = ver, inputs = ins, outputs = outs, lockTime = lt \<rparr>))))))"

section \<open>Correctness of the codec\<close>

text \<open>The ranges of the fields on the wire.\<close>

definition u32_range :: "int \<Rightarrow> bool" where
  "u32_range n \<longleftrightarrow> 0 \<le> n \<and> n < 2 ^ 32"

definition wire_input :: "tx_input \<Rightarrow> bool" where
  "wire_input i \<longleftrightarrow> length (prevTxid i) = 32 \<and> u32_range (prevVout i) \<and> u32_range (sequence i) \<and>
     int (length (unlockingScript i)) < 2 ^ 64"

definition wire_output :: "tx_output \<Rightarrow> bool" where
  "wire_output v \<longleftrightarrow> 0 \<le> tx_value v \<and> tx_value v < 2 ^ 64 \<and> int (length (lockingScript v)) < 2 ^ 64"

definition wire_tx :: "bsv_transaction \<Rightarrow> bool" where
  "wire_tx tx \<longleftrightarrow> - (2 ^ 31) \<le> version tx \<and> version tx < 2 ^ 31 \<and> u32_range (lockTime tx) \<and>
     (\<forall>i \<in> set (inputs tx). wire_input i) \<and> (\<forall>v \<in> set (outputs tx). wire_output v) \<and>
     int (length (inputs tx)) < 2 ^ 64 \<and> int (length (outputs tx)) < 2 ^ 64"

lemma js_ushr_0: "js_ushr n 0 = n mod 2 ^ 32"
  by (simp add: js_ushr_def uint_word_of_int)

lemma encVarint_bytes: "0 \<le> v \<Longrightarrow> encVarint v = ok (varint_bytes v)"
  by (simp add: encVarint_def varint_bytes_def)

lemma readVarint_eq: "readVarint (varint_bytes v @ rest) = ok (v, rest)"
  if "0 \<le> v" "v < 2 ^ 64" for v
  using that
  by (simp add: readVarint_def varint_bytes_def readU8_def readU16LE_def readU32LE_def readU64LE_def
      uint_u8)

lemma readU32LE_enc: "u32_range n \<Longrightarrow> readU32LE (encU32LE n @ rest) = ok (n, rest)"
  by (simp add: readU32LE_def encU32LE_def js_ushr_0 u32_range_def)

lemma readI32LE_enc:
  "- (2 ^ 31) \<le> n \<Longrightarrow> n < 2 ^ 31 \<Longrightarrow> readI32LE (encI32LE n @ rest) = ok (n, rest)"
proof -
  assume n: "- (2 ^ 31) \<le> n" "n < 2 ^ 31"
  have "signed32 (n mod 2 ^ 32) = n"
  proof (cases "0 \<le> n")
    case True
    then show ?thesis using n by (simp add: signed32_def)
  next
    case False
    have "n mod 2 ^ 32 = (n + 2 ^ 32) mod 2 ^ 32" by simp
    also have "\<dots> = n + 2 ^ 32" using False n by (intro mod_pos_pos_trivial) simp_all
    finally have "n mod 2 ^ 32 = n + 2 ^ 32" .
    then show ?thesis using False n by (simp add: signed32_def)
  qed
  then show ?thesis
    by (simp add: readI32LE_def read_le_def encI32LE_def le_value_le_bytes)
qed

lemma readU64LE_enc: "0 \<le> n \<Longrightarrow> n < 2 ^ 64 \<Longrightarrow> readU64LE (encU64LE n @ rest) = ok (n, rest)"
  by (simp add: readU64LE_def encU64LE_def)

interpretation input_codec: codec encInput decInput wire_input
  by unfold_locales
     (auto simp: encInput_def decInput_def wire_input_def res_bind_eq_Inr encVarint_bytes
       readBytes_def readU32LE_enc readVarint_eq split: if_splits)

interpretation output_codec: codec encOutput decOutput wire_output
  by unfold_locales
     (auto simp: encOutput_def decOutput_def wire_output_def res_bind_eq_Inr encVarint_bytes
       readBytes_def readU64LE_enc readVarint_eq)

lemma decode_encode:
  assumes "wire_tx tx" and "encodeBsvTransaction tx = ok bs"
  shows "decodeBsvTransaction bs = ok tx"
proof -
  from assms(2) obtain ins outs where p: "map_res encInput (inputs tx) = ok ins"
    "map_res encOutput (outputs tx) = ok outs"
    "bs = encI32LE (version tx) @ varint_bytes (int (length (inputs tx))) @ concat ins
       @ varint_bytes (int (length (outputs tx))) @ concat outs @ encU32LE (lockTime tx)"
    by (auto simp: encodeBsvTransaction_def res_bind_eq_Inr encVarint_bytes)
  show ?thesis
    using assms(1) input_codec.dec_many_concat[OF _ p(1)] output_codec.dec_many_concat[OF _ p(2)]
      readU32LE_enc[of "lockTime tx" "[]"]
    by (simp add: p(3) decodeBsvTransaction_def readI32LE_enc readVarint_eq wire_tx_def)
qed

lemma encode_total: "wire_tx tx \<Longrightarrow> \<exists>bs. encodeBsvTransaction tx = ok bs"
proof -
  assume "wire_tx tx"
  then have "map_res encInput (inputs tx) = ok (map (projr \<circ> encInput) (inputs tx))"
    by (intro map_res_total) (simp add: wire_tx_def wire_input_def encInput_def encVarint_bytes)
  moreover have "map_res encOutput (outputs tx) = ok (map (projr \<circ> encOutput) (outputs tx))"
    by (intro map_res_total) (simp add: encOutput_def encVarint_bytes)
  ultimately show ?thesis by (simp add: encodeBsvTransaction_def encVarint_bytes)
qed

section \<open>Transaction ids\<close>

text \<open>\<open>sha\<close> is \<open>crypto.subtle.digest('SHA-256', _)\<close>, which yields 32 bytes.\<close>

definition doubleSha256 :: "(byte list \<Rightarrow> byte list) \<Rightarrow> byte list \<Rightarrow> byte list" where
  "doubleSha256 sha b = sha (sha b)"

definition computeTxId :: "(byte list \<Rightarrow> byte list) \<Rightarrow> bsv_transaction \<Rightarrow> byte list result" where
  "computeTxId sha tx = res_bind (encodeBsvTransaction tx) (\<lambda>b. ok (sha (sha b)))"

definition txidHex :: "(byte list \<Rightarrow> byte list) \<Rightarrow> bsv_transaction \<Rightarrow> string result" where
  "txidHex sha tx = res_bind (computeTxId sha tx) (\<lambda>internal.
     ok (toHex (map (\<lambda>i. internal ! (31 - i)) [0..<32])))"

lemma reverse_32: "length xs = 32 \<Longrightarrow> map (\<lambda>i. xs ! (31 - i)) [0..<32] = rev xs"
  by (rule nth_equalityI) (simp_all add: rev_nth)

section \<open>The signature hash\<close>

definition ZERO_32 :: "byte list" where
  "ZERO_32 = replicate 32 0"

definition isBaseSighash :: "int \<Rightarrow> int \<Rightarrow> bool" where
  "isBaseSighash t base \<longleftrightarrow> js_and t 0x1f = base"

definition hashPrevouts :: "(byte list \<Rightarrow> byte list) \<Rightarrow> bsv_transaction \<Rightarrow> int \<Rightarrow> byte list" where
  "hashPrevouts sha tx hashType =
     (if js_and hashType SIGHASH_ANYONECANPAY \<noteq> 0 then ZERO_32
      else doubleSha256 sha (concat (map (\<lambda>i. prevTxid i @ encU32LE (prevVout i)) (inputs tx))))"

definition hashSequence :: "(byte list \<Rightarrow> byte list) \<Rightarrow> bsv_transaction \<Rightarrow> int \<Rightarrow> byte list" where
  "hashSequence sha tx hashType =
     (if js_and hashType SIGHASH_ANYONECANPAY \<noteq> 0 then ZERO_32
      else if isBaseSighash hashType SIGHASH_NONE then ZERO_32
      else if isBaseSighash hashType SIGHASH_SINGLE then ZERO_32
      else doubleSha256 sha (concat (map (\<lambda>i. encU32LE (sequence i)) (inputs tx))))"

definition hashOutputs ::
  "(byte list \<Rightarrow> byte list) \<Rightarrow> bsv_transaction \<Rightarrow> int \<Rightarrow> int \<Rightarrow> byte list result" where
  "hashOutputs sha tx inputIdx hashType =
     (if isBaseSighash hashType SIGHASH_ALL
      then res_bind (map_res encOutput (outputs tx)) (\<lambda>ps. ok (doubleSha256 sha (concat ps)))
      else if isBaseSighash hashType SIGHASH_SINGLE \<and> inputIdx < int (length (outputs tx))
      then res_bind (encOutput (outputs tx ! nat inputIdx)) (\<lambda>p. ok (doubleSha256 sha p))
      else ok ZERO_32)"

text \<open>The version bytes \<open>v & 0xff, (v >> 8) & 0xff, ...\<close>.\<close>

definition versionBytes :: "int \<Rightarrow> byte list" where
  "versionBytes v = map (\<lambda>k. u8 (js_and (js_shr v k) 0xff)) [0, 8, 16, 24]"

definition sighashPreimage ::
  "(byte list \<Rightarrow> byte list) \<Rightarrow> bsv_transaction \<Rightarrow> int \<Rightarrow> byte list \<Rightarrow> int \<Rightarrow> int \<Rightarrow> byte list result" where
  "sighashPreimage sha tx inputIdx prevScript prevValue hashType =
     (let i = inputs tx ! nat inputIdx in
      res_bind (encVarint (int (length prevScript))) (\<lambda>len.
      res_bind (hashOutputs sha tx inputIdx hashType) (\<lambda>outs.
        ok (versionBytes (version tx) @ hashPrevouts sha tx hashType @ hashSequence sha tx hashType
            @ prevTxid i @ encU32LE (prevVout i) @ len @ prevScript @ encU64LE prevValue
            @ encU32LE (sequence i) @ outs @ encU32LE (lockTime tx) @ encU32LE hashType))))"

definition computeSighash ::
  "(byte list \<Rightarrow> byte list) \<Rightarrow> bsv_transaction \<Rightarrow> int \<Rightarrow> byte list \<Rightarrow> int \<Rightarrow> int \<Rightarrow> byte list result" where
  "computeSighash sha tx inputIdx prevScript prevValue hashType =
     (if js_and hashType SIGHASH_FORKID = 0 then throw ''computeSighash''
      else if inputIdx < 0 \<or> inputIdx \<ge> int (length (inputs tx)) then throw ''computeSighash''
      else res_bind (sighashPreimage sha tx inputIdx prevScript prevValue hashType)
        (\<lambda>pre. ok (doubleSha256 sha pre)))"

section \<open>What a signature commits to\<close>

definition prevout_bytes :: "bsv_transaction \<Rightarrow> byte list" where
  "prevout_bytes tx = concat (map (\<lambda>i. prevTxid i @ encU32LE (prevVout i)) (inputs tx))"

definition sequence_bytes :: "bsv_transaction \<Rightarrow> byte list" where
  "sequence_bytes tx = concat (map (\<lambda>i. encU32LE (sequence i)) (inputs tx))"

definition output_bytes :: "bsv_transaction \<Rightarrow> byte list" where
  "output_bytes tx = concat (map (\<lambda>v. encU64LE (tx_value v)
     @ varint_bytes (int (length (lockingScript v))) @ lockingScript v) (outputs tx))"

text \<open>The strings that \<open>computeSighash\<close> hashes for \<open>SIGHASH_ALL | SIGHASH_FORKID\<close>.\<close>

definition sighash_inputs ::
  "(byte list \<Rightarrow> byte list) \<Rightarrow> bsv_transaction \<Rightarrow> int \<Rightarrow> byte list \<Rightarrow> int \<Rightarrow> byte list set" where
  "sighash_inputs sha tx idx prevScript prevValue =
     (\<Union>x \<in> {prevout_bytes tx, sequence_bytes tx, output_bytes tx,
             projr (sighashPreimage sha tx idx prevScript prevValue SIGHASH_ALL_FORKID)}. {x, sha x})"

lemma encU32LE_inj: "u32_range m \<Longrightarrow> u32_range n \<Longrightarrow> encU32LE m = encU32LE n \<Longrightarrow> m = n"
  using readU32LE_enc[of m "[]"] readU32LE_enc[of n "[]"] by simp

lemma encU64LE_inj:
  "0 \<le> m \<Longrightarrow> m < 2 ^ 64 \<Longrightarrow> 0 \<le> n \<Longrightarrow> n < 2 ^ 64 \<Longrightarrow> encU64LE m = encU64LE n \<Longrightarrow> m = n"
  using readU64LE_enc[of m "[]"] readU64LE_enc[of n "[]"] by simp

lemma length_encU [simp]: "length (encU32LE n) = 4" "length (encU64LE n) = 8"
  by (simp_all add: encU32LE_def encU64LE_def)

lemma encOutput_eq: "encOutput v = ok (encU64LE (tx_value v)
    @ varint_bytes (int (length (lockingScript v))) @ lockingScript v)"
  by (simp add: encOutput_def encVarint_bytes)

lemma map_encOutput: "map_res encOutput vs = ok (map (\<lambda>v. encU64LE (tx_value v)
    @ varint_bytes (int (length (lockingScript v))) @ lockingScript v) vs)"
  by (rule map_res_total) (simp add: encOutput_eq)

lemma flags_all_forkid:
  "SIGHASH_ALL_FORKID = 0x41" "js_and 0x41 SIGHASH_ANYONECANPAY = 0" "js_and 0x41 SIGHASH_FORKID \<noteq> 0"
  "isBaseSighash 0x41 SIGHASH_ALL" "\<not> isBaseSighash 0x41 SIGHASH_NONE" "\<not> isBaseSighash 0x41 SIGHASH_SINGLE"
  by (simp_all add: SIGHASH_ALL_FORKID_def sighash_flags js_or_def js_and_def isBaseSighash_def)

lemma preimage_all:
  "sighashPreimage sha tx idx prevScript prevValue SIGHASH_ALL_FORKID =
     ok (versionBytes (version tx) @ sha (sha (prevout_bytes tx)) @ sha (sha (sequence_bytes tx))
         @ prevTxid (inputs tx ! nat idx) @ encU32LE (prevVout (inputs tx ! nat idx))
         @ varint_bytes (int (length prevScript)) @ prevScript @ encU64LE prevValue
         @ encU32LE (sequence (inputs tx ! nat idx)) @ sha (sha (output_bytes tx))
         @ encU32LE (lockTime tx) @ encU32LE SIGHASH_ALL_FORKID)"
  by (simp add: sighashPreimage_def flags_all_forkid hashPrevouts_def hashSequence_def
      hashOutputs_def map_encOutput doubleSha256_def encVarint_bytes Let_def prevout_bytes_def
      sequence_bytes_def output_bytes_def)

lemma versionBytes_eq: "versionBytes v = le_bytes 4 v"
proof -
  have "versionBytes v = [u8 v, u8 (v div 2 ^ 8), u8 (v div 2 ^ 16), u8 (v div 2 ^ 24)]"
    by (simp add: versionBytes_def u8_shr del: power_numeral)
  also have "\<dots> = le_bytes 4 v"
    by (simp add: numeral_eq_Suc zdiv_zmult2_eq[symmetric])
  finally show ?thesis .
qed

lemma versionBytes_inj:
  assumes "- (2 ^ 31) \<le> v" "v < 2 ^ 31" "- (2 ^ 31) \<le> w" "w < 2 ^ 31" "versionBytes v = versionBytes w"
  shows "v = w"
proof -
  have "readI32LE (encI32LE v) = readI32LE (encI32LE w)"
    using assms(5) by (simp only: versionBytes_eq encI32LE_def)
  then show ?thesis
    using readI32LE_enc[OF assms(1,2), of "[]"] readI32LE_enc[OF assms(3,4), of "[]"] by simp
qed

lemma prevouts_inj:
  assumes "wire_tx s" and "wire_tx t" and "prevout_bytes s = prevout_bytes t"
  shows "map (\<lambda>i. (prevTxid i, prevVout i)) (inputs s) = map (\<lambda>i. (prevTxid i, prevVout i)) (inputs t)"
proof -
  let ?f = "\<lambda>i. prevTxid i @ encU32LE (prevVout i)"
  let ?g = "\<lambda>b. (take 32 b, le_value (drop 32 b))"
  have g: "?g (?f i) = (prevTxid i, prevVout i)" if "wire_input i" for i
    using that by (simp add: wire_input_def u32_range_def encU32LE_def js_ushr_0 le_value_small)
  have w: "\<forall>i \<in> set (inputs s). wire_input i" "\<forall>i \<in> set (inputs t). wire_input i"
    using assms(1,2) by (simp_all add: wire_tx_def)
  have m: "map ?f (inputs s) = map ?f (inputs t)"
    using w assms(3) by (intro concat_blocks[of 36]) (simp_all add: wire_input_def prevout_bytes_def)
  have "map (?g \<circ> ?f) (inputs s) = map (?g \<circ> ?f) (inputs t)"
    using arg_cong[OF m, of "map ?g"] by (simp only: map_map)
  moreover have "map (?g \<circ> ?f) (inputs s) = map (\<lambda>i. (prevTxid i, prevVout i)) (inputs s)"
    "map (?g \<circ> ?f) (inputs t) = map (\<lambda>i. (prevTxid i, prevVout i)) (inputs t)"
    using w g by (simp_all only: map_eq_conv comp_apply) blast+
  ultimately show ?thesis by simp
qed

lemma sequences_inj:
  assumes "wire_tx s" and "wire_tx t" and "sequence_bytes s = sequence_bytes t"
  shows "map sequence (inputs s) = map sequence (inputs t)"
proof -
  let ?f = "\<lambda>i. encU32LE (sequence i)"
  have g: "le_value (?f i) = sequence i" if "wire_input i" for i
    using that by (simp add: wire_input_def u32_range_def encU32LE_def js_ushr_0 le_value_small)
  have w: "\<forall>i \<in> set (inputs s). wire_input i" "\<forall>i \<in> set (inputs t). wire_input i"
    using assms(1,2) by (simp_all add: wire_tx_def)
  have m: "map ?f (inputs s) = map ?f (inputs t)"
    using assms(3) by (intro concat_blocks[of 4]) (simp_all add: sequence_bytes_def)
  have "map (le_value \<circ> ?f) (inputs s) = map (le_value \<circ> ?f) (inputs t)"
    using arg_cong[OF m, of "map le_value"] by (simp only: map_map)
  moreover have "map (le_value \<circ> ?f) (inputs s) = map sequence (inputs s)"
    "map (le_value \<circ> ?f) (inputs t) = map sequence (inputs t)"
    using w g by (simp_all only: map_eq_conv comp_apply) blast+
  ultimately show ?thesis by simp
qed

lemma outputs_inj:
  assumes "wire_tx s" and "wire_tx t" and "output_bytes s = output_bytes t"
  shows "outputs s = outputs t"
proof (rule output_codec.concat_decodable)
  show "encOutput v \<noteq> ok []" if "wire_output v" for v by (simp add: encOutput_eq)
  show "\<forall>v \<in> set (outputs s). wire_output v" "\<forall>v \<in> set (outputs t). wire_output v"
    using assms(1,2) by (simp_all add: wire_tx_def)
qed (rule map_encOutput, rule map_encOutput, use assms(3) in \<open>simp add: output_bytes_def\<close>)

text \<open>Cutting two equal preimages along their fixed-width fields.\<close>

lemma preimage_cut:
  assumes sha: "\<And>x. length (sha x) = 32"
    and "wire_tx s" and "wire_tx t" and "nat i < length (inputs s)" and "nat i < length (inputs t)"
    and "int (length ps) < 2 ^ 64" and "int (length pt) < 2 ^ 64"
    and "sighashPreimage sha s i ps vs SIGHASH_ALL_FORKID = sighashPreimage sha t i pt vt SIGHASH_ALL_FORKID"
  shows "versionBytes (version s) = versionBytes (version t)
    \<and> sha (sha (prevout_bytes s)) = sha (sha (prevout_bytes t))
    \<and> sha (sha (sequence_bytes s)) = sha (sha (sequence_bytes t))
    \<and> ps = pt \<and> encU64LE vs = encU64LE vt
    \<and> sha (sha (output_bytes s)) = sha (sha (output_bytes t))
    \<and> encU32LE (lockTime s) = encU32LE (lockTime t)"
proof -
  have v: "length (versionBytes x) = 4" for x by (simp add: versionBytes_eq)
  have p: "length (prevTxid (inputs s ! nat i)) = 32" "length (prevTxid (inputs t ! nat i)) = 32"
    using assms(2-5) nth_mem by (auto simp: wire_tx_def wire_input_def)
  from assms(8) have a: "versionBytes (version s) = versionBytes (version t)"
    "sha (sha (prevout_bytes s)) = sha (sha (prevout_bytes t))"
    "sha (sha (sequence_bytes s)) = sha (sha (sequence_bytes t))"
    and rest: "varint_bytes (int (length ps)) @ ps @ encU64LE vs @ encU32LE (sequence (inputs s ! nat i))
        @ sha (sha (output_bytes s)) @ encU32LE (lockTime s) @ encU32LE SIGHASH_ALL_FORKID
      = varint_bytes (int (length pt)) @ pt @ encU64LE vt @ encU32LE (sequence (inputs t ! nat i))
        @ sha (sha (output_bytes t)) @ encU32LE (lockTime t) @ encU32LE SIGHASH_ALL_FORKID"
    by (simp_all only: preimage_all sum.inject append_eq_append_conv v sha p length_encU simp_thms
        HOL.disj_left_commute not_False_eq_True)
  from varint_string_prefix_free[OF assms(6,7) rest] show ?thesis
    using a by (simp only: append_eq_append_conv sha length_encU simp_thms)
qed

lemma sighash_inputs_mem:
  "prevout_bytes tx \<in> sighash_inputs sha tx i p v" "sha (prevout_bytes tx) \<in> sighash_inputs sha tx i p v"
  "sequence_bytes tx \<in> sighash_inputs sha tx i p v" "sha (sequence_bytes tx) \<in> sighash_inputs sha tx i p v"
  "output_bytes tx \<in> sighash_inputs sha tx i p v" "sha (output_bytes tx) \<in> sighash_inputs sha tx i p v"
  "projr (sighashPreimage sha tx i p v SIGHASH_ALL_FORKID) \<in> sighash_inputs sha tx i p v"
  "sha (projr (sighashPreimage sha tx i p v SIGHASH_ALL_FORKID)) \<in> sighash_inputs sha tx i p v"
  by (simp_all add: sighash_inputs_def)

section \<open>Properties\<close>

text \<open>A small transaction and a toy digest to apply the properties to.\<close>

definition demo_tx :: bsv_transaction where
  "demo_tx = \<lparr> version = 2,
     inputs = [\<lparr> prevTxid = replicate 32 7, prevVout = 1, unlockingScript = [1, 2], sequence = 0xffffffff \<rparr>],
     outputs = [\<lparr> tx_value = 5000, lockingScript = [0x51] \<rparr>], lockTime = 800000 \<rparr>"

definition toy_sha :: "byte list \<Rightarrow> byte list" where
  "toy_sha x = u8 (int (length x)) # take 31 (x @ replicate 31 0)"

lemma length_toy_sha: "length (toy_sha x) = 32"
  by (simp add: toy_sha_def min_def)

lemma demo_tx_wire: "wire_tx demo_tx"
  by (simp add: demo_tx_def wire_tx_def wire_input_def wire_output_def u32_range_def)

text \<open>C14. The transaction codec round trips: every transaction whose fields are in their wire ranges
  is encoded without an error, and decoding the bytes returns exactly that transaction.\<close>
theorem transaction_round_trip:
  assumes "wire_tx tx"
  shows "\<exists>bs. encodeBsvTransaction tx = ok bs \<and> decodeBsvTransaction bs = ok tx"
  using encode_total[OF assms] decode_encode[OF assms] by blast

lemma transaction_round_trip_witness:
  "\<exists>bs. encodeBsvTransaction demo_tx = ok bs \<and> decodeBsvTransaction bs = ok demo_tx"
  by (rule transaction_round_trip[OF demo_tx_wire])

text \<open>C15. What a \<open>SIGHASH_ALL | SIGHASH_FORKID\<close> signature commits to: if two transactions have the
  same signature hash for an input and SHA-256 does not collide on the strings the two computations
  hash, they agree on the version, every previous outpoint, every sequence number, every output, the
  lock time, the spent script and its value: on everything but the unlocking scripts.\<close>
theorem sighash_commits_to_transaction:
  assumes "\<And>x. length (sha x) = 32" and "wire_tx s" and "wire_tx t"
    and "int (length ps) < 2 ^ 64" and "int (length pt) < 2 ^ 64"
    and "0 \<le> vs \<and> vs < 2 ^ 64" and "0 \<le> vt \<and> vt < 2 ^ 64"
    and "computeSighash sha s i ps vs SIGHASH_ALL_FORKID = ok d"
    and "computeSighash sha t i pt vt SIGHASH_ALL_FORKID = ok d"
    and "inj_on sha (sighash_inputs sha s i ps vs \<union> sighash_inputs sha t i pt vt)"
  shows "version s = version t
    \<and> map (\<lambda>x. (prevTxid x, prevVout x)) (inputs s) = map (\<lambda>x. (prevTxid x, prevVout x)) (inputs t)
    \<and> map sequence (inputs s) = map sequence (inputs t) \<and> outputs s = outputs t
    \<and> lockTime s = lockTime t \<and> ps = pt \<and> vs = vt"
proof -
  let ?S = "sighash_inputs sha s i ps vs \<union> sighash_inputs sha t i pt vt"
  let ?pre = "\<lambda>u p v. projr (sighashPreimage sha u i p v SIGHASH_ALL_FORKID)"
  have twice: "x = y" if "sha (sha x) = sha (sha y)" "x \<in> ?S" "y \<in> ?S" "sha x \<in> ?S" "sha y \<in> ?S" for x y
    using that assms(10) by (meson inj_on_eq_iff)
  have r: "0 \<le> i" "nat i < length (inputs s)" "nat i < length (inputs t)"
    and d: "d = sha (sha (?pre s ps vs))" "d = sha (sha (?pre t pt vt))"
    using assms(8,9) by (auto simp: computeSighash_def preimage_all doubleSha256_def split: if_splits)
  note mem = sighash_inputs_mem[THEN UnI1] sighash_inputs_mem[THEN UnI2]
  have "?pre s ps vs = ?pre t pt vt"
    by (rule twice) (use d in \<open>simp_all only: mem\<close>)
  then have "sighashPreimage sha s i ps vs SIGHASH_ALL_FORKID = sighashPreimage sha t i pt vt SIGHASH_ALL_FORKID"
    by (simp only: preimage_all sum.sel)
  note cut = preimage_cut[OF assms(1-3) r(2,3) assms(4,5) this]
  have eq: "prevout_bytes s = prevout_bytes t" "sequence_bytes s = sequence_bytes t"
    "output_bytes s = output_bytes t"
    by (rule twice; (intro mem | use cut in blast))+
  have w: "- (2 ^ 31) \<le> version s" "version s < 2 ^ 31" "- (2 ^ 31) \<le> version t" "version t < 2 ^ 31"
    "u32_range (lockTime s)" "u32_range (lockTime t)" using assms(2,3) by (simp_all only: wire_tx_def)
  show ?thesis
  proof (intro conjI)
    show "version s = version t" using versionBytes_inj[OF w(1-4)] cut by (elim conjE)
    show "lockTime s = lockTime t" using encU32LE_inj[OF w(5,6)] cut by (elim conjE)
    show "ps = pt" using cut by (elim conjE)
    show "vs = vt" using encU64LE_inj[of vs vt] cut assms(6,7) by (elim conjE)
  qed (rule prevouts_inj sequences_inj outputs_inj; fact)+
qed

lemma demo_lengths:
  "length (prevout_bytes demo_tx) = 36" "length (sequence_bytes demo_tx) = 4"
  "length (output_bytes demo_tx) = 10"
  "length (projr (sighashPreimage toy_sha demo_tx 0 [0x51] 9000 SIGHASH_ALL_FORKID)) = 158"
  by (simp_all add: prevout_bytes_def sequence_bytes_def output_bytes_def preimage_all demo_tx_def
      varint_bytes_def length_toy_sha versionBytes_eq)

lemma demo_nonempty:
  "prevout_bytes demo_tx \<noteq> []" "sequence_bytes demo_tx \<noteq> []" "output_bytes demo_tx \<noteq> []"
  "projr (sighashPreimage toy_sha demo_tx 0 [0x51] 9000 SIGHASH_ALL_FORKID) \<noteq> []"
  using demo_lengths by force+

text \<open>The first two bytes of the toy digest tell the eight strings apart.\<close>

lemma toy_head: "x \<noteq> [] \<Longrightarrow> take 2 (toy_sha x) = [u8 (int (length x)), hd x]"
  by (cases x) (simp_all add: toy_sha_def numeral_2_eq_2 take_Suc)

lemma toy_head_twice: "take 2 (toy_sha (toy_sha x)) = [32, u8 (int (length x))]"
proof -
  have "toy_sha x \<noteq> []" "hd (toy_sha x) = u8 (int (length x))" by (simp_all add: toy_sha_def)
  then show ?thesis using toy_head[of "toy_sha x"] length_toy_sha[of x] by (simp add: u8_def)
qed

lemma demo_digests_injective: "inj_on toy_sha (sighash_inputs toy_sha demo_tx 0 [0x51] 9000)"
proof (rule inj_on_imageI2)
  let ?l = "[prevout_bytes demo_tx, sequence_bytes demo_tx, output_bytes demo_tx,
    projr (sighashPreimage toy_sha demo_tx 0 [0x51] 9000 SIGHASH_ALL_FORKID)]"
  have "map (take 2 \<circ> toy_sha) (?l @ map toy_sha ?l)
    = [[36, hd (?l ! 0)], [4, hd (?l ! 1)], [10, hd (?l ! 2)], [158, hd (?l ! 3)],
       [32, 36], [32, 4], [32, 10], [32, 158]]"
    by (simp add: toy_head toy_head_twice demo_nonempty demo_lengths u8_def)
  then have "distinct (map (take 2 \<circ> toy_sha) (?l @ map toy_sha ?l))" by simp
  then have "inj_on (take 2 \<circ> toy_sha) (set (?l @ map toy_sha ?l))" unfolding distinct_map by (rule conjunct2)
  moreover have "sighash_inputs toy_sha demo_tx 0 [0x51] 9000 = set (?l @ map toy_sha ?l)"
    unfolding sighash_inputs_def by auto
  ultimately show "inj_on (take 2 \<circ> toy_sha) (sighash_inputs toy_sha demo_tx 0 [0x51] 9000)" by simp
qed

lemma sighash_commits_to_transaction_witness:
  "\<exists>d. computeSighash toy_sha demo_tx 0 [0x51] 9000 SIGHASH_ALL_FORKID = ok d
     \<and> outputs demo_tx = outputs (demo_tx\<lparr> inputs := [(hd (inputs demo_tx))\<lparr> unlockingScript := [] \<rparr>] \<rparr>)"
proof -
  let ?t = "demo_tx\<lparr> inputs := [(hd (inputs demo_tx))\<lparr> unlockingScript := [] \<rparr>] \<rparr>"
  have eq: "prevout_bytes ?t = prevout_bytes demo_tx" "sequence_bytes ?t = sequence_bytes demo_tx"
    "output_bytes ?t = output_bytes demo_tx" "sighashPreimage toy_sha ?t 0 [0x51] 9000 SIGHASH_ALL_FORKID
      = sighashPreimage toy_sha demo_tx 0 [0x51] 9000 SIGHASH_ALL_FORKID" by code_simp+
  have "js_and SIGHASH_ALL_FORKID SIGHASH_FORKID \<noteq> 0"
    unfolding flags_all_forkid(1) by (rule flags_all_forkid(3))
  moreover have "length (inputs demo_tx) = 1" by (simp add: demo_tx_def)
  ultimately obtain d where d: "computeSighash toy_sha demo_tx 0 [0x51] 9000 SIGHASH_ALL_FORKID = ok d"
    by (simp add: computeSighash_def preimage_all)
  have l: "length (inputs ?t) = length (inputs demo_tx)" by (simp add: demo_tx_def)
  have d': "computeSighash toy_sha ?t 0 [0x51] 9000 SIGHASH_ALL_FORKID = ok d"
    using d unfolding computeSighash_def eq l .
  have "wire_tx ?t" by (simp add: demo_tx_def wire_tx_def wire_input_def wire_output_def u32_range_def)
  moreover have "inj_on toy_sha (sighash_inputs toy_sha demo_tx 0 [0x51] 9000
      \<union> sighash_inputs toy_sha ?t 0 [0x51] 9000)"
    using demo_digests_injective unfolding sighash_inputs_def eq by simp
  ultimately have "outputs demo_tx = outputs ?t"
    using sighash_commits_to_transaction[OF length_toy_sha demo_tx_wire _ _ _ _ _ d d'] by simp
  then show ?thesis using d by blast
qed

end
