(* ===== verification/Signing.thy ===== *)
theory Signing
  imports Transactions
begin

text \<open>
  \<open>packages/tx-builder/src/sign.ts\<close>: the BIP-66 DER encoding of an ECDSA signature, its decoder,
  and the two functions around the curve library. The library's \<open>signAsync\<close> and \<open>verify\<close> are the
  parameters \<open>sign\<close> and \<open>verify\<close>; a thrown exception of \<open>verify\<close> is \<^const>\<open>None\<close>.
\<close>

section \<open>Big-endian numbers\<close>

definition be_value :: "byte list \<Rightarrow> int" where
  "be_value bs = le_value (rev bs)"

lemma be_value_simps [simp]:
  "be_value [] = 0"
  "be_value (b # bs) = 256 ^ length bs * uint b + be_value bs"
  by (simp_all add: be_value_def le_value_append)

lemma be_value_append: "be_value (a @ b) = 256 ^ length b * be_value a + be_value b"
  by (simp add: be_value_def le_value_append)

lemma be_value_bounds: "0 \<le> be_value bs \<and> be_value bs < 256 ^ length bs"
  using le_value_bounds[of "rev bs"] by (simp add: be_value_def)

text \<open>\<open>n.toString(16)\<close> of a non-negative number.\<close>

fun nat_hex :: "nat \<Rightarrow> string" where
  "nat_hex n = (if n < 16 then [hex_digit n] else nat_hex (n div 16) @ [hex_digit (n mod 16)])"

declare nat_hex.simps [simp del]

text \<open>\<open>parseInt\<close> of each pair, stored into a byte (\<open>NaN\<close> stores 0).\<close>

fun bytes_of_pairs :: "string \<Rightarrow> byte list" where
  "bytes_of_pairs (a # b # cs) =
     u8 (case parseInt16 [a, b] of None \<Rightarrow> 0 | Some v \<Rightarrow> v) # bytes_of_pairs cs"
| "bytes_of_pairs _ = []"

definition bigintToBytes :: "int \<Rightarrow> byte list" where
  "bigintToBytes n =
     (let hex = nat_hex (nat n);
          hex = (if length hex mod 2 \<noteq> 0 then CHR ''0'' # hex else hex)
      in bytes_of_pairs hex)"

definition padTo32 :: "byte list \<Rightarrow> byte list" where
  "padTo32 b =
     (if length b = 32 then b
      else if length b > 32 then drop (length b - 32) b
      else replicate (32 - length b) 0 @ b)"

section \<open>DER\<close>

fun strip_zeros :: "byte list \<Rightarrow> byte list" where
  "strip_zeros (b # c # cs) = (if b = 0 then strip_zeros (c # cs) else b # c # cs)"
| "strip_zeros bs = bs"

definition der_body :: "byte list \<Rightarrow> byte list" where
  "der_body n =
     (let body = strip_zeros n
      in if body \<noteq> [] \<and> hd body AND 0x80 \<noteq> 0 then 0 # body else body)"

definition encodeDerInt :: "byte list \<Rightarrow> byte list" where
  "encodeDerInt n = (let body = der_body n in u8 0x02 # u8 (int (length body)) # body)"

definition encodeDer :: "byte list \<Rightarrow> byte list \<Rightarrow> byte list" where
  "encodeDer r s =
     (let rBytes = encodeDerInt r; sBytes = encodeDerInt s
      in u8 0x30 # u8 (int (length rBytes + length sBytes)) # rBytes @ sBytes)"

text \<open>\<open>buf[i]\<close>, undefined out of range, and \<open>buf.slice(a, b)\<close>.\<close>

definition at :: "byte list \<Rightarrow> nat \<Rightarrow> byte option" where
  "at buf i = (if i < length buf then Some (buf ! i) else None)"

definition slice :: "byte list \<Rightarrow> nat \<Rightarrow> nat \<Rightarrow> byte list" where
  "slice buf a b = take (b - a) (drop a buf)"

definition decodeDer :: "byte list \<Rightarrow> (byte list \<times> byte list) result" where
  "decodeDer buf =
     (if length buf < 8 then throw ''decodeDer''
      else if buf ! 0 \<noteq> u8 0x30 then throw ''decodeDer''
      else if unat (buf ! 1) \<noteq> length buf - 2 then throw ''decodeDer''
      else if buf ! 2 \<noteq> u8 0x02 then throw ''decodeDer''
      else let rLen = unat (buf ! 3);
               r = slice buf 4 (4 + rLen);
               off = 4 + rLen
           in if at buf off \<noteq> Some (u8 0x02) then throw ''decodeDer''
              else let s = (case at buf (off + 1) of
                              None \<Rightarrow> []
                            | Some sLen \<Rightarrow> slice buf (off + 2) (off + 2 + unat sLen))
                   in ok (r, s))"

section \<open>Signing and verifying\<close>

definition signSighash ::
  "(byte list \<Rightarrow> byte list \<Rightarrow> (int \<times> int) result) \<Rightarrow> byte list \<Rightarrow> byte list \<Rightarrow> byte list result" where
  "signSighash sign sighash privKey =
     (if length sighash \<noteq> 32 then throw ''signSighash''
      else if length privKey \<noteq> 32 then throw ''signSighash''
      else res_bind (sign sighash privKey) (\<lambda>(r, s).
        ok (encodeDer (bigintToBytes r) (bigintToBytes s))))"

definition verifySighashSignature ::
  "(byte list \<Rightarrow> byte list \<Rightarrow> byte list \<Rightarrow> bool option) \<Rightarrow> byte list \<Rightarrow> byte list \<Rightarrow> byte list \<Rightarrow> bool" where
  "verifySighashSignature verify derSig sighash pubKey =
     (if length sighash \<noteq> 32 then False
      else if length pubKey \<noteq> 33 then False
      else case decodeDer derSig of
          Inl _ \<Rightarrow> False
        | Inr (r, s) \<Rightarrow>
            (case verify (padTo32 r @ padTo32 s) sighash pubKey of None \<Rightarrow> False | Some v \<Rightarrow> v))"

section \<open>Lemmas\<close>

lemma be_value_strip [simp]: "be_value (strip_zeros bs) = be_value bs"
  by (induction bs rule: strip_zeros.induct) auto

lemma strip_zeros_length: "length (strip_zeros bs) \<le> length bs"
  by (induction bs rule: strip_zeros.induct) auto

lemma strip_zeros_Nil [simp]: "strip_zeros bs = [] \<longleftrightarrow> bs = []"
  by (induction bs rule: strip_zeros.induct) auto

lemma strip_zeros_hd: "length (strip_zeros bs) > 1 \<Longrightarrow> hd (strip_zeros bs) \<noteq> 0"
  by (induction bs rule: strip_zeros.induct) (auto split: if_splits)

lemma be_value_body [simp]: "be_value (der_body bs) = be_value bs"
  by (simp add: der_body_def Let_def)

lemma der_body_length: "length (der_body bs) \<le> Suc (length bs)"
  using strip_zeros_length[of bs] by (simp add: der_body_def Let_def)

lemma der_body_pos: "bs \<noteq> [] \<Longrightarrow> der_body bs \<noteq> []"
  by (simp add: der_body_def Let_def)

lemma padTo32_value:
  assumes "be_value b < 256 ^ 32"
  shows "padTo32 b = rev (le_bytes 32 (be_value b))"
proof -
  have v: "be_value (replicate k 0 @ b) = be_value b" for k
    by (induction k) (simp_all add: be_value_append)
  have d: "be_value (drop k b) = be_value b" if "length b = k + 32" for k
  proof -
    have "be_value b = 256 ^ 32 * be_value (take k b) + be_value (drop k b)"
      using be_value_append[of "take k b" "drop k b"] that by simp
    moreover have "0 \<le> be_value (take k b)" "0 \<le> be_value (drop k b)"
      using be_value_bounds by blast+
    ultimately show ?thesis using assms by (cases "be_value (take k b) = 0") auto
  qed
  have "length (padTo32 b) = 32" "be_value (padTo32 b) = be_value b"
    using v d[of "length b - 32"] by (auto simp: padTo32_def)
  then show ?thesis using le_bytes_le_value[of "rev (padTo32 b)" 32] by (simp add: be_value_def)
qed

lemma length_encodeDerInt: "length (encodeDerInt n) = 2 + length (der_body n)"
  by (simp add: encodeDerInt_def Let_def)

lemma decode_encode_der:
  assumes "r \<noteq> []" and "s \<noteq> []" and "length r \<le> 32" and "length s \<le> 32"
  shows "decodeDer (encodeDer r s) = ok (der_body r, der_body s)"
proof -
  let ?r = "der_body r" and ?s = "der_body s"
  have l: "length ?r \<le> 33" "length ?s \<le> 33" "0 < length ?r" "0 < length ?s"
    using der_body_length[of r] der_body_length[of s] der_body_pos assms by auto
  have e: "encodeDer r s = [u8 0x30, u8 (int (4 + length ?r + length ?s)), u8 0x02,
      u8 (int (length ?r))] @ ?r @ [u8 0x02, u8 (int (length ?s))] @ ?s"
    by (simp add: encodeDer_def encodeDerInt_def Let_def add.assoc add.commute add.left_commute)
  have u: "unat (u8 (int n)) = n" if "n < 256" for n using that by (simp add: unat_u8)
  have "unat (u8 (4 + int (length ?r) + int (length ?s))) = 4 + length ?r + length ?s"
    using u[of "4 + length ?r + length ?s"] l by simp
  moreover have "drop (6 + length ?r) (b1 # b2 # b3 # b4 # ?r @ b5 # b6 # ?s) = ?s" for b1 b2 b3 b4 b5 b6
    by (simp add: numeral_eq_Suc)
  moreover obtain x xs y ys where "?r = x # xs" "?s = y # ys" using l(3,4) by (cases ?r; cases ?s) auto
  ultimately show ?thesis
    using l(1,2) u[of "length ?r"] u[of "length ?s"]
    by (simp add: decodeDer_def e at_def slice_def Let_def nth_append)
qed

text \<open>\<open>bigintToBytes\<close> is the big-endian representation.\<close>

lemma bytes_of_pairs_toHex: "bytes_of_pairs (toHex bs) = bs"
proof (induction bs)
  case (Cons b bs)
  have n: "unat b div 16 < 16" "unat b mod 16 < 16" using unat_byte[of b] by auto
  have "16 * int (unat b div 16) + int (unat b mod 16) = uint b"
    by (simp add: zdiv_int zmod_int flip: uint_nat)
  then show ?case using Cons parseInt16_pair[OF n] by (simp add: toHex_def hex2_def)
qed (simp add: toHex_def)

definition hex_number :: "string \<Rightarrow> int" where
  "hex_number s = foldl (\<lambda>acc c. 16 * acc + the (hex_value c)) 0 s"

lemma hex_number_snoc: "hex_number (s @ [c]) = 16 * hex_number s + the (hex_value c)"
  by (simp add: hex_number_def)

lemma hex_number_append2:
  "hex_number (s @ [c, d]) = 256 * hex_number s + 16 * the (hex_value c) + the (hex_value d)"
  by (simp add: hex_number_def)

lemma hex_number_toHex: "hex_number (toHex bs) = be_value bs"
proof (induction bs rule: rev_induct)
  case (snoc b bs)
  have n: "unat b div 16 < 16" "unat b mod 16 < 16" using unat_byte[of b] by auto
  have "16 * int (unat b div 16) + int (unat b mod 16) = uint b"
    by (simp add: zdiv_int zmod_int flip: uint_nat)
  moreover have "toHex (bs @ [b]) = toHex bs @ [hex_digit (unat b div 16), hex_digit (unat b mod 16)]"
    by (simp add: toHex_def hex2_def)
  ultimately show ?case
    using hex_digit_facts[OF n(1)] hex_digit_facts[OF n(2)] snoc
    by (simp add: hex_number_append2 be_value_append)
qed (simp add: toHex_def hex_number_def)

lemma nat_hex_number: "hex_number (nat_hex n) = int n"
proof (induction n rule: nat_hex.induct)
  case (1 n)
  show ?case
  proof (cases "n < 16")
    case True
    then show ?thesis
      using hex_digit_facts[OF True] by (subst nat_hex.simps) (simp add: hex_number_def)
  next
    case False
    have "16 * int (n div 16) + int (n mod 16) = int n"
      by (metis mult_div_mod_eq of_nat_add of_nat_mult of_nat_numeral)
    then show ?thesis
      using False 1 hex_digit_facts[of "n mod 16"] by (subst nat_hex.simps) (simp add: hex_number_snoc)
  qed
qed

lemma nat_hex_lower: "list_all is_lower_hex (nat_hex n)"
proof (induction n rule: nat_hex.induct)
  case (1 n)
  then show ?case
    using hex_digit_facts[of n] hex_digit_facts[of "n mod 16"] by (subst nat_hex.simps) simp
qed

lemma nat_hex_length: "n < 16 ^ k \<Longrightarrow> 0 < k \<Longrightarrow> length (nat_hex n) \<le> k \<and> nat_hex n \<noteq> []"
proof (induction n arbitrary: k rule: nat_hex.induct)
  case (1 n)
  show ?case
  proof (cases "n < 16")
    case True
    then show ?thesis using "1.prems" by (subst (1 2) nat_hex.simps) simp
  next
    case False
    then obtain j where j: "k = Suc j" "0 < j" using "1.prems" by (cases k; cases "k - 1") auto
    then have "n div 16 < 16 ^ j" using "1.prems" by (simp add: less_mult_imp_div_less mult.commute)
    then show ?thesis using 1(1)[OF False] j False by (subst (1 2) nat_hex.simps) simp
  qed
qed

lemma bigintToBytes_facts:
  assumes "0 \<le> n" and "n < 256 ^ 32"
  shows "be_value (bigintToBytes n) = n \<and> bigintToBytes n \<noteq> [] \<and> length (bigintToBytes n) \<le> 32"
proof -
  let ?h = "nat_hex (nat n)"
  define h where "h = (if length ?h mod 2 \<noteq> 0 then CHR ''0'' # ?h else ?h)"
  have "nat n < 16 ^ 64" using assms by (simp add: nat_less_iff)
  from nat_hex_length[OF this] have l: "length ?h \<le> 64" "?h \<noteq> []" by simp_all
  have even: "even (length h)" by (auto simp: h_def)
  have "list_all is_lower_hex h" using nat_hex_lower by (simp add: h_def)
  from lower_hex_toHex[OF even this] obtain bs where bs: "h = toHex bs" "2 * length bs = length h" by blast
  have "hex_value CHR ''0'' = Some 0" by code_simp
  then have "hex_number h = n"
    using nat_hex_number[of "nat n"] assms(1) by (simp add: h_def hex_number_def)
  then have "be_value bs = n" using hex_number_toHex[of bs] bs(1) by simp
  moreover have "bigintToBytes n = bs"
    using bs(1) bytes_of_pairs_toHex[of bs] by (simp add: bigintToBytes_def h_def Let_def)
  moreover have "length h \<le> 64" "h \<noteq> []" using l by (auto simp: h_def) presburger
  ultimately show ?thesis using bs(2) by auto
qed

section \<open>Properties\<close>

text \<open>C16. A signature survives its DER encoding: \<open>signSighash\<close> succeeds on 32-byte arguments, and
  \<open>verifySighashSignature\<close> accepts its output for a 33-byte key exactly when the curve library's
  \<open>verify\<close> accepts the 64-byte compact form of the same pair \<open>(r, s)\<close>, both numbers big-endian in 32
  bytes. (The library's numbers are below \<open>2^256\<close>.)\<close>
theorem der_signature_round_trip:
  assumes "sign h k = ok (r, s)" and "0 \<le> r \<and> r < 2 ^ 256" and "0 \<le> s \<and> s < 2 ^ 256"
    and "length h = 32" and "length k = 32" and "length pk = 33"
  shows "\<exists>der. signSighash sign h k = ok der
    \<and> (verifySighashSignature verify der h pk
        \<longleftrightarrow> verify (rev (le_bytes 32 r) @ rev (le_bytes 32 s)) h pk = Some True)"
proof -
  let ?r = "bigintToBytes r" and ?s = "bigintToBytes s"
  have r: "be_value ?r = r" "?r \<noteq> []" "length ?r \<le> 32"
    using bigintToBytes_facts[of r] assms(2) by simp_all
  have s: "be_value ?s = s" "?s \<noteq> []" "length ?s \<le> 32"
    using bigintToBytes_facts[of s] assms(3) by simp_all
  have "padTo32 (der_body ?r) = rev (le_bytes 32 r)" "padTo32 (der_body ?s) = rev (le_bytes 32 s)"
    using padTo32_value[of "der_body ?r"] padTo32_value[of "der_body ?s"] r(1) s(1) assms(2,3) by simp_all
  then show ?thesis
    using decode_encode_der[OF r(2) s(2) r(3) s(3)] assms
    by (simp add: signSighash_def verifySighashSignature_def split: option.splits)
qed

lemma der_signature_round_trip_witness:
  "\<exists>der. signSighash (\<lambda>h k. ok (2 ^ 255, 1)) (replicate 32 5) (replicate 32 9) = ok der
     \<and> verifySighashSignature (\<lambda>c h pk. Some (take 1 c = [0x80])) der (replicate 32 5) (replicate 33 2)"
proof -
  have "take 1 (rev (le_bytes 32 (2 ^ 255)) @ rev (le_bytes 32 1)) = [0x80]" by code_simp
  then show ?thesis
    using der_signature_round_trip[of "\<lambda>h k. ok (2 ^ 255, 1)" "replicate 32 5" "replicate 32 9" "2 ^ 255" 1
        "replicate 33 2" "\<lambda>c h pk. Some (take 1 c = [0x80])"] by simp
qed

end
