(* ===== verification/Canonical.thy ===== *)
theory Canonical
  imports Bytes "HOL-Library.Char_ord" "HOL-Library.List_Lexorder"
begin

text \<open>
  \<open>packages/protocol-types/src/serialisation.ts\<close>: the growable \<open>CanonicalWriter\<close> and the
  sequential \<open>CanonicalReader\<close>. The writer is modelled with its buffer, its offset and the doubling
  loop of \<open>ensure\<close>, which may fail to return (\<^const>\<open>None\<close>); \<open>emits\<close> is the abstract view of a
  writing operation, the bytes it appends. The reader is the list of the unread bytes.

  Text is restricted to the characters below \<open>U+0100\<close>, which are the values of \<^typ>\<open>char\<close>: the UTF-8
  encoder is exact on them, the decoder rejects every other character along with malformed input.
\<close>

section \<open>The writer\<close>

record writer =
  wbuf :: "byte list"
  woffset :: nat

definition new_writer :: "nat \<Rightarrow> writer" where
  "new_writer initialCapacity = \<lparr> wbuf = replicate initialCapacity 0, woffset = 0 \<rparr>"

definition bytes :: "writer \<Rightarrow> byte list" where
  "bytes w = take (woffset w) (wbuf w)"

text \<open>\<open>while (cap < required) cap *= 2\<close>.\<close>

partial_function (option) grow_cap :: "nat \<Rightarrow> nat \<Rightarrow> nat option" where
  "grow_cap cap required = (if cap < required then grow_cap (cap * 2) required else Some cap)"

declare grow_cap.simps [code]

definition ensure :: "nat \<Rightarrow> writer \<Rightarrow> writer option" where
  "ensure extra w =
     (let required = woffset w + extra
      in if required \<le> length (wbuf w) then Some w
         else map_option (\<lambda>cap. w\<lparr> wbuf := wbuf w @ replicate (cap - length (wbuf w)) 0 \<rparr>)
                (grow_cap (length (wbuf w) * 2) required))"

text \<open>A writing operation returns the writer or throws, if it returns at all.\<close>

type_synonym write_op = "writer \<Rightarrow> writer result option"

definition wbind :: "write_op \<Rightarrow> write_op \<Rightarrow> write_op" where
  "wbind f g = (\<lambda>w. case f w of None \<Rightarrow> None | Some (Inl e) \<Rightarrow> Some (Inl e) | Some (Inr w') \<Rightarrow> g w')"

definition wthrow :: "string \<Rightarrow> write_op" where
  "wthrow who = (\<lambda>w. Some (throw who))"

definition wskip :: write_op where
  "wskip = (\<lambda>w. Some (ok w))"

text \<open>\<open>this.buf[this.offset++] = v\<close>, after \<open>ensure\<close>.\<close>

definition put :: "int \<Rightarrow> writer \<Rightarrow> writer" where
  "put v w = w\<lparr> wbuf := (wbuf w)[woffset w := u8 v], woffset := Suc (woffset w) \<rparr>"

definition ensured :: "nat \<Rightarrow> (writer \<Rightarrow> writer) \<Rightarrow> write_op" where
  "ensured n f w = map_option (\<lambda>w'. ok (f w')) (ensure n w)"

definition writeU8 :: "int \<Rightarrow> write_op" where
  "writeU8 v = (if v < 0 \<or> v > 0xff then wthrow ''writeU8'' else ensured 1 (put v))"

definition writeBool :: "bool \<Rightarrow> write_op" where
  "writeBool v = writeU8 (if v then 0x01 else 0x00)"

definition writeU16LE :: "int \<Rightarrow> write_op" where
  "writeU16LE v =
     (if v < 0 \<or> v > 0xffff then wthrow ''writeU16LE''
      else ensured 2 (put (js_and (js_shr v 8) 0xff) \<circ> put (js_and v 0xff)))"

definition writeU32LE :: "int \<Rightarrow> write_op" where
  "writeU32LE v =
     (if v < 0 \<or> v > 0xffffffff then wthrow ''writeU32LE''
      else ensured 4 (put (js_and (js_ushr v 24) 0xff) \<circ> put (js_and (js_ushr v 16) 0xff)
             \<circ> put (js_and (js_ushr v 8) 0xff) \<circ> put (js_and v 0xff)))"

definition writeU64LE :: "int \<Rightarrow> write_op" where
  "writeU64LE v =
     (if \<not> isSafeInteger v \<or> v < 0 then wthrow ''writeU64LE''
      else let lo = js_ushr v 0; hi = js_ushr (v div 0x100000000) 0
        in ensured 8
             (put (js_and (js_ushr hi 24) 0xff) \<circ> put (js_and (js_ushr hi 16) 0xff)
              \<circ> put (js_and (js_ushr hi 8) 0xff) \<circ> put (js_and hi 0xff)
              \<circ> put (js_and (js_ushr lo 24) 0xff) \<circ> put (js_and (js_ushr lo 16) 0xff)
              \<circ> put (js_and (js_ushr lo 8) 0xff) \<circ> put (js_and lo 0xff)))"

definition writeI32LE :: "int \<Rightarrow> write_op" where
  "writeI32LE v =
     (if v < - 0x80000000 \<or> v > 0x7fffffff then wthrow ''writeI32LE''
      else writeU32LE (if v < 0 then v + 0x100000000 else v))"

definition writeVarint :: "int \<Rightarrow> write_op" where
  "writeVarint n =
     (if \<not> isSafeInteger n \<or> n < 0 then wthrow ''writeVarint''
      else if n < 0xfd then writeU8 n
      else if n \<le> 0xffff then wbind (writeU8 0xfd) (writeU16LE n)
      else if n \<le> 0xffffffff then wbind (writeU8 0xfe) (writeU32LE n)
      else wbind (writeU8 0xff) (writeU64LE n))"

definition writeRaw :: "byte list \<Rightarrow> write_op" where
  "writeRaw data = ensured (length data) (\<lambda>w. w\<lparr>
     wbuf := take (woffset w) (wbuf w) @ data @ drop (woffset w + length data) (wbuf w),
     woffset := woffset w + length data \<rparr>)"

definition writeBytes :: "byte list \<Rightarrow> write_op" where
  "writeBytes data = wbind (writeVarint (int (length data))) (writeRaw data)"

text \<open>\<open>TextEncoder\<close> on the characters below \<open>U+0100\<close>.\<close>

definition utf8_char :: "char \<Rightarrow> byte list" where
  "utf8_char c =
     (let n = of_char c :: int
      in if n < 0x80 then [u8 n] else [u8 (0xC0 + n div 64), u8 (0x80 + n mod 64)])"

definition utf8 :: "string \<Rightarrow> byte list" where
  "utf8 s = concat (map utf8_char s)"

definition writeUtf8 :: "string \<Rightarrow> write_op" where
  "writeUtf8 s = writeBytes (utf8 s)"

section \<open>What a writing operation appends\<close>

definition writer_ok :: "writer \<Rightarrow> bool" where
  "writer_ok w \<longleftrightarrow> 0 < length (wbuf w) \<and> woffset w \<le> length (wbuf w)"

text \<open>\<open>emits f r\<close>: from any writer with a non-empty buffer \<open>f\<close> returns; it throws if \<open>r\<close> is a
  failure, and otherwise appends the bytes \<open>r\<close> to what was written before.\<close>

definition emits :: "write_op \<Rightarrow> byte list result \<Rightarrow> bool" where
  "emits f r \<longleftrightarrow> (\<forall>w. writer_ok w \<longrightarrow>
     (case r of Inl e \<Rightarrow> f w = Some (Inl e)
      | Inr bs \<Rightarrow> \<exists>w'. f w = Some (Inr w') \<and> writer_ok w' \<and> bytes w' = bytes w @ bs))"

lemma emitsD:
  "emits f (Inr bs) \<Longrightarrow> writer_ok w \<Longrightarrow>
     \<exists>w'. f w = Some (Inr w') \<and> writer_ok w' \<and> bytes w' = bytes w @ bs"
  "emits f (Inl e) \<Longrightarrow> writer_ok w \<Longrightarrow> f w = Some (Inl e)"
  by (auto simp: emits_def)

lemma grow_cap_returns:
  "0 < cap \<Longrightarrow> \<exists>c. grow_cap cap required = Some c \<and> required \<le> c \<and> cap \<le> c"
proof (induction "required - cap" arbitrary: cap rule: less_induct)
  case less
  show ?case
  proof (cases "cap < required")
    case True
    then have "required - cap * 2 < required - cap" using less.prems by linarith
    from less.hyps[OF this] less.prems obtain c where
      "grow_cap (cap * 2) required = Some c" "required \<le> c" "cap * 2 \<le> c" by auto
    then show ?thesis using True by (subst grow_cap.simps) auto
  next
    case False
    then show ?thesis by (subst grow_cap.simps) simp
  qed
qed

lemma ensure_ok:
  assumes "writer_ok w"
  shows "\<exists>w'. ensure n w = Some w' \<and> writer_ok w' \<and> bytes w' = bytes w \<and> woffset w' = woffset w
    \<and> woffset w + n \<le> length (wbuf w')"
proof (cases "woffset w + n \<le> length (wbuf w)")
  case True
  then show ?thesis using assms by (simp add: ensure_def)
next
  case False
  obtain c where "grow_cap (length (wbuf w) * 2) (woffset w + n) = Some c" "woffset w + n \<le> c"
    "length (wbuf w) * 2 \<le> c"
    using grow_cap_returns[of "length (wbuf w) * 2"] assms by (auto simp: writer_ok_def)
  then show ?thesis using False assms by (simp add: ensure_def writer_ok_def bytes_def)
qed

lemma emits_ensured:
  assumes "\<And>w. writer_ok w \<Longrightarrow> woffset w + n \<le> length (wbuf w) \<Longrightarrow>
    writer_ok (f w) \<and> bytes (f w) = bytes w @ bs"
  shows "emits (ensured n f) (ok bs)"
  unfolding emits_def
proof (intro allI impI)
  fix w
  assume "writer_ok w"
  from ensure_ok[OF this, of n] obtain w' where w: "ensure n w = Some w'" "writer_ok w'"
    "bytes w' = bytes w" "woffset w + n \<le> length (wbuf w')" "woffset w' = woffset w" by blast
  then show "case ok bs of Inl e \<Rightarrow> ensured n f w = Some (Inl e)
    | Inr bs \<Rightarrow> \<exists>w'. ensured n f w = Some (Inr w') \<and> writer_ok w' \<and> bytes w' = bytes w @ bs"
    using assms[of w'] by (simp add: ensured_def)
qed

lemma put_ok:
  "writer_ok w \<Longrightarrow> woffset w < length (wbuf w) \<Longrightarrow>
     writer_ok (put v w) \<and> bytes (put v w) = bytes w @ [u8 v] \<and>
     length (wbuf (put v w)) = length (wbuf w) \<and> woffset (put v w) = Suc (woffset w)"
  by (simp add: put_def writer_ok_def bytes_def take_Suc_conv_app_nth)

lemma puts_ok:
  "writer_ok w \<Longrightarrow> woffset w + length vs \<le> length (wbuf w) \<Longrightarrow>
     writer_ok (fold put vs w) \<and> bytes (fold put vs w) = bytes w @ map u8 vs"
proof (induction vs arbitrary: w)
  case (Cons v vs)
  then show ?case using put_ok[of w v] Cons.IH[of "put v w"] by simp
qed simp

lemma emits_puts: "n = length vs \<Longrightarrow> emits (ensured n (fold put vs)) (ok (map u8 vs))"
  using puts_ok by (intro emits_ensured) simp

lemma emits_wthrow [simp, intro]: "emits (wthrow who) (throw who)"
  by (simp add: emits_def wthrow_def)

lemma emits_wskip [simp, intro]: "emits wskip (ok [])"
  by (simp add: emits_def wskip_def)

lemma emits_wbind:
  assumes "emits f r" and "emits g r'"
  shows "emits (wbind f g) (res_bind r (\<lambda>a. res_bind r' (\<lambda>b. ok (a @ b))))"
proof (cases r)
  case (Inl e)
  then show ?thesis using assms(1) by (simp add: emits_def wbind_def)
next
  case (Inr a)
  show ?thesis unfolding emits_def
  proof (intro allI impI)
    fix w
    assume "writer_ok w"
    then obtain w1 where w1: "f w = Some (Inr w1)" "writer_ok w1" "bytes w1 = bytes w @ a"
      using assms(1) Inr emitsD(1) by blast
    then show "case res_bind r (\<lambda>a. res_bind r' (\<lambda>b. ok (a @ b))) of
        Inl e \<Rightarrow> wbind f g w = Some (Inl e)
      | Inr bs \<Rightarrow> \<exists>w'. wbind f g w = Some (Inr w') \<and> writer_ok w' \<and> bytes w' = bytes w @ bs"
      using assms(2) Inr by (cases r') (auto simp: emits_def wbind_def)
  qed
qed

text \<open>The specifications of the number writers.\<close>

definition spec_uint :: "string \<Rightarrow> nat \<Rightarrow> int \<Rightarrow> byte list result" where
  "spec_uint who n v = (if 0 \<le> v \<and> v < 256 ^ n then ok (le_bytes n v) else throw who)"

definition spec_u64 :: "string \<Rightarrow> int \<Rightarrow> byte list result" where
  "spec_u64 who v = (if safe_nat v then ok (le_bytes 8 v) else throw who)"

lemma emits_if: "(c \<Longrightarrow> emits f r) \<Longrightarrow> (\<not> c \<Longrightarrow> emits g r) \<Longrightarrow> emits (if c then f else g) r"
  by simp

lemma emits_U8: "emits (writeU8 v) (spec_uint ''writeU8'' 1 v)"
  using emits_puts[of 1 "[v]"] by (auto simp: writeU8_def spec_uint_def)

lemma emits_U16: "emits (writeU16LE v) (spec_uint ''writeU16LE'' 2 v)"
  using emits_puts[of 2 "[js_and v 0xff, js_and (js_shr v 8) 0xff]"]
  by (auto simp: writeU16LE_def spec_uint_def u8_shr comp_def simp flip: le_bytes_2)

lemma emits_U32: "emits (writeU32LE v) (spec_uint ''writeU32LE'' 4 v)"
  using emits_puts[of 4 "[js_and v 0xff, js_and (js_ushr v 8) 0xff, js_and (js_ushr v 16) 0xff,
    js_and (js_ushr v 24) 0xff]"]
  by (auto simp: writeU32LE_def spec_uint_def u8_ushr comp_def simp flip: le_bytes_4)

lemma shifted_bytes:
  "[u8 (js_and w 0xff), u8 (js_and (js_ushr w 8) 0xff), u8 (js_and (js_ushr w 16) 0xff),
    u8 (js_and (js_ushr w 24) 0xff)] = le_bytes 4 w"
  by (simp add: u8_ushr flip: le_bytes_4)

lemma le_bytes_ushr: "le_bytes 4 (js_ushr v 0) = le_bytes 4 v"
proof -
  have "js_ushr v 0 = v mod 256 ^ 4" by (simp add: js_ushr_def uint_word_of_int)
  then show ?thesis by (simp only: le_bytes_mod)
qed

lemma emits_U64: "emits (writeU64LE v) (spec_u64 ''writeU64LE'' v)"
proof -
  let ?lo = "js_ushr v 0" and ?hi = "js_ushr (v div 0x100000000) 0"
  let ?vs = "[js_and ?lo 0xff, js_and (js_ushr ?lo 8) 0xff, js_and (js_ushr ?lo 16) 0xff,
    js_and (js_ushr ?lo 24) 0xff, js_and ?hi 0xff, js_and (js_ushr ?hi 8) 0xff,
    js_and (js_ushr ?hi 16) 0xff, js_and (js_ushr ?hi 24) 0xff]"
  have "map u8 ?vs = le_bytes 4 ?lo @ le_bytes 4 ?hi"
    by (simp only: list.map shifted_bytes[symmetric] append.simps)
  also have "\<dots> = le_bytes 8 v"
    using le_bytes_add[of 4 4 v] by (simp add: le_bytes_ushr)
  finally have m: "map u8 ?vs = le_bytes 8 v" .
  have "emits (ensured 8 (fold put ?vs)) (ok (le_bytes 8 v))"
    unfolding m[symmetric] by (rule emits_puts) simp
  moreover have "ensured 8 (fold put ?vs) = writeU64LE v" if "safe_nat v"
    using that by (simp add: writeU64LE_def safe_nat_iff Let_def comp_def)
  ultimately have "emits (writeU64LE v) (ok (le_bytes 8 v))" if "safe_nat v" using that by simp
  moreover have "emits (writeU64LE v) (throw ''writeU64LE'')" if "\<not> safe_nat v"
    using that by (simp add: writeU64LE_def safe_nat_iff)
  ultimately show ?thesis by (simp add: spec_u64_def)
qed

definition spec_i32 :: "int \<Rightarrow> byte list result" where
  "spec_i32 v = (if - (2 ^ 31) \<le> v \<and> v < 2 ^ 31 then ok (le_bytes 4 v) else throw ''writeI32LE'')"

lemma emits_I32: "emits (writeI32LE v) (spec_i32 v)"
proof (cases "- (2 ^ 31) \<le> v \<and> v < 2 ^ 31")
  case True
  have "le_bytes 4 (v + 2 ^ 32) = le_bytes 4 v"
    using le_bytes_mod[of 4 v] le_bytes_mod[of 4 "v + 2 ^ 32"] by simp
  then show ?thesis
    using True emits_U32[of "if v < 0 then v + 2 ^ 32 else v"]
    by (auto simp: writeI32LE_def spec_i32_def spec_uint_def split: if_splits)
next
  case False
  then have "v < - 0x80000000 \<or> v > 0x7fffffff" by auto
  then have "writeI32LE v = wthrow ''writeI32LE''" by (simp only: writeI32LE_def if_True)
  then show ?thesis using False by (simp only: spec_i32_def if_False emits_wthrow)
qed

definition spec_varint :: "int \<Rightarrow> byte list result" where
  "spec_varint n = (if safe_nat n then ok (varint_bytes n) else throw ''writeVarint'')"

lemma emits_varint: "emits (writeVarint n) (spec_varint n)"
proof (cases "safe_nat n")
  case True
  have "emits (wbind (writeU8 0xfd) (writeU16LE n)) (ok (u8 0xfd # le_bytes 2 n))" if "n \<le> 0xffff"
    using emits_wbind[OF emits_U8[of "0xfd"] emits_U16[of n]] that True
    by (simp add: spec_uint_def safe_nat_def)
  moreover have "emits (wbind (writeU8 0xfe) (writeU32LE n)) (ok (u8 0xfe # le_bytes 4 n))"
    if "n \<le> 0xffffffff"
    using emits_wbind[OF emits_U8[of "0xfe"] emits_U32[of n]] that True
    by (simp add: spec_uint_def safe_nat_def)
  moreover have "emits (wbind (writeU8 0xff) (writeU64LE n)) (ok (u8 0xff # le_bytes 8 n))"
    using emits_wbind[OF emits_U8[of "0xff"] emits_U64[of n]] True
    by (simp add: spec_uint_def spec_u64_def)
  moreover have "emits (writeU8 n) (ok [u8 n])" if "n < 0xfd"
    using emits_U8[of n] that True by (simp add: spec_uint_def safe_nat_def)
  ultimately show ?thesis
    using True by (simp add: writeVarint_def spec_varint_def varint_bytes_def safe_nat_iff)
next
  case False
  then show ?thesis by (auto simp: writeVarint_def spec_varint_def safe_nat_iff)
qed

lemma emits_raw: "emits (writeRaw data) (ok data)"
  unfolding writeRaw_def by (rule emits_ensured) (auto simp: writer_ok_def bytes_def)

lemma emits_bool: "emits (writeBool v) (ok [u8 (if v then 1 else 0)])"
  using emits_U8[of "if v then 1 else 0"] by (cases v) (simp_all add: writeBool_def spec_uint_def)

definition spec_bytes :: "byte list \<Rightarrow> byte list result" where
  "spec_bytes data = res_bind (spec_varint (int (length data))) (\<lambda>n. ok (n @ data))"

lemma emits_bytes: "emits (writeBytes data) (spec_bytes data)"
  using emits_wbind[OF emits_varint emits_raw] by (simp add: writeBytes_def spec_bytes_def)

lemma emits_utf8: "emits (writeUtf8 s) (spec_bytes (utf8 s))"
  unfolding writeUtf8_def by (rule emits_bytes)

text \<open>A fresh writer holds nothing, and running an operation on it returns its bytes.\<close>

lemma new_writer_ok: "0 < n \<Longrightarrow> writer_ok (new_writer n) \<and> bytes (new_writer n) = []"
  by (simp add: writer_ok_def new_writer_def bytes_def)

section \<open>The reader\<close>

definition reader_U8 :: "byte list \<Rightarrow> (int \<times> byte list) result" where
  "reader_U8 c = (case c of [] \<Rightarrow> throw ''need'' | b # rest \<Rightarrow> ok (uint b, rest))"

definition reader_Bool :: "byte list \<Rightarrow> (bool \<times> byte list) result" where
  "reader_Bool c = res_bind (reader_U8 c) (\<lambda>(b, rest).
     if b = 0 then ok (False, rest) else if b = 1 then ok (True, rest) else throw ''readBool'')"

definition reader_U16LE :: "byte list \<Rightarrow> (int \<times> byte list) result" where
  "reader_U16LE c =
     (case c of a # b # rest \<Rightarrow> ok (js_or (uint a) (js_shl (uint b) 8), rest) | _ \<Rightarrow> throw ''need'')"

definition reader_U32LE :: "byte list \<Rightarrow> (int \<times> byte list) result" where
  "reader_U32LE bs =
     (case bs of
        a # b # c # d # rest \<Rightarrow>
          ok (js_ushr (js_or (js_or (js_or (uint a) (js_shl (uint b) 8)) (js_shl (uint c) 16))
                             (js_shl (uint d) 24)) 0, rest)
      | _ \<Rightarrow> throw ''need'')"

definition reader_U64LE :: "byte list \<Rightarrow> (int \<times> byte list) result" where
  "reader_U64LE c =
     (if length c < 8 then throw ''need''
      else res_bind (reader_U32LE c) (\<lambda>(lo, c).
           res_bind (reader_U32LE c) (\<lambda>(hi, c).
             let v = hi * 0x100000000 + lo
             in if \<not> isSafeInteger v then throw ''readU64LE'' else ok (v, c))))"

definition reader_Varint :: "byte list \<Rightarrow> (int \<times> byte list) result" where
  "reader_Varint c = res_bind (reader_U8 c) (\<lambda>(b, c).
     if b < 0xfd then ok (b, c)
     else if b = 0xfd then reader_U16LE c
     else if b = 0xfe then reader_U32LE c
     else reader_U64LE c)"

definition reader_Raw :: "int \<Rightarrow> byte list \<Rightarrow> (byte list \<times> byte list) result" where
  "reader_Raw n c = take_bytes ''need'' n c"

definition reader_Bytes :: "int \<Rightarrow> byte list \<Rightarrow> (byte list \<times> byte list) result" where
  "reader_Bytes cap c = res_bind (reader_Varint c) (\<lambda>(n, c).
     if n > cap then throw ''readBytes'' else reader_Raw n c)"

definition MAX_RESERVED_TRAILING :: int where
  "MAX_RESERVED_TRAILING = 4096"

text \<open>\<open>TextDecoder\<close> with \<open>fatal: true\<close>; \<^const>\<open>None\<close> is a thrown \<open>TypeError\<close> or a character
  outside the model.\<close>

fun utf8_decode :: "byte list \<Rightarrow> string option" where
  "utf8_decode [] = Some []"
| "utf8_decode (b # bs) =
     (if uint b < 0x80 then map_option ((#) (char_of (uint b))) (utf8_decode bs)
      else case bs of
          [] \<Rightarrow> None
        | c # cs \<Rightarrow>
            if (uint b = 0xC2 \<or> uint b = 0xC3) \<and> 0x80 \<le> uint c \<and> uint c < 0xC0
            then map_option ((#) (char_of ((uint b - 0xC0) * 64 + (uint c - 0x80)))) (utf8_decode cs)
            else None)"

text \<open>A leading byte order mark is dropped.\<close>

definition text_decoder :: "byte list \<Rightarrow> string option" where
  "text_decoder bs = utf8_decode (if take 3 bs = [0xEF, 0xBB, 0xBF] then drop 3 bs else bs)"

definition reader_Utf8 :: "byte list \<Rightarrow> (string \<times> byte list) result" where
  "reader_Utf8 c = res_bind (reader_Bytes MAX_RESERVED_TRAILING c) (\<lambda>(bs, c).
     case text_decoder bs of None \<Rightarrow> throw ''TextDecoder'' | Some s \<Rightarrow> ok (s, c))"

section \<open>Reading back\<close>

lemma bit_uint_byte: "bit (uint (b :: byte)) n \<longleftrightarrow> n < 8 \<and> bit b n"
  by (auto simp: bit_uint_iff dest: bit_imp_le_length)

lemma le_or_2: "uint (a :: byte) + 256 * v = uint a OR push_bit 8 v"
proof -
  have "uint a AND push_bit 8 v = 0"
    by (rule bit_eqI) (auto simp: bit_and_iff bit_push_bit_iff bit_uint_byte)
  then show ?thesis by (simp add: disjunctive_add_eq_or push_bit_eq_mult mult.commute)
qed

lemma byte_high_bit [simp]: "8 \<le> n \<Longrightarrow> \<not> bit (b :: byte) n"
  using bit_imp_le_length[of b n] by auto

lemma word32_ops [simp]:
  "word32 (js_or x y) = word32 x OR word32 y" "word32 (js_shl x k) = push_bit k (word32 x)"
  by (simp_all add: js_or_def js_shl_def)

lemma or_shl_2: "js_or (uint (a :: byte)) (js_shl (uint (b :: byte)) 8) = uint a + 256 * uint b"
  unfolding le_or_2
proof (rule bit_eqI)
  fix n
  show "bit (js_or (uint a) (js_shl (uint b) 8)) n = bit (uint a OR push_bit 8 (uint b)) n"
    by (cases "n < 31") (auto simp: js_or_def bit_simps bit_uint_byte min_def)
qed

lemma or_shl_4:
  "js_ushr (js_or (js_or (js_or (uint (a :: byte)) (js_shl (uint (b :: byte)) 8))
     (js_shl (uint (c :: byte)) 16)) (js_shl (uint (d :: byte)) 24)) 0
   = uint a + 256 * (uint b + 256 * (uint c + 256 * uint d))"
  unfolding le_or_2
proof (rule bit_eqI)
  fix n
  show "bit (js_ushr (js_or (js_or (js_or (uint a) (js_shl (uint b) 8)) (js_shl (uint c) 16))
      (js_shl (uint d) 24)) 0) n
    = bit (uint a OR push_bit 8 (uint b OR push_bit 8 (uint c OR push_bit 8 (uint d)))) n"
  proof (cases "n < 32")
    case True
    then show ?thesis
      by (simp add: js_ushr_def bit_simps bit_uint_byte) (safe; simp)
  next
    case False
    then show ?thesis by (simp add: js_ushr_def bit_simps bit_uint_byte)
  qed
qed

lemma reader_U8_eq: "reader_U8 c = read_le ''need'' 1 c"
  by (cases c) (simp_all add: reader_U8_def read_le_def take_bytes_def)

lemma reader_U16_eq: "reader_U16LE c = read_le ''need'' 2 c"
  by (cases c rule: list.exhaust; cases "tl c")
     (auto simp: reader_U16LE_def read_le_def take_bytes_def or_shl_2 numeral_2_eq_2)

lemma reader_U32_eq: "reader_U32LE bs = read_le ''need'' 4 bs"
proof (cases "length bs < 4")
  case True
  then show ?thesis
    by (auto simp: reader_U32LE_def read_le_def take_bytes_def split: list.splits)
next
  case False
  then obtain a b c d rest where "bs = a # b # c # d # rest"
    by (auto simp: not_less numeral_eq_Suc Suc_le_length_iff)
  moreover have "take 4 (a # b # c # d # rest) = [a, b, c, d]" "drop 4 (a # b # c # d # rest) = rest"
    by (simp_all add: numeral_eq_Suc)
  ultimately show ?thesis
    by (simp add: reader_U32LE_def read_le_def take_bytes_def or_shl_4)
qed

lemma reader_U64_eq:
  "reader_U64LE c = res_bind (read_le ''need'' 8 c) (\<lambda>(v, c).
     if isSafeInteger v then ok (v, c) else throw ''readU64LE'')"
proof (cases "length c < 8")
  case True
  then show ?thesis by (simp add: reader_U64LE_def read_le_def take_bytes_def)
next
  case False
  define x y where "x = take 4 c" and "y = take 4 (drop 4 c)"
  have c: "c = x @ y @ drop 8 c" "length x = 4" "length y = 4"
    using False by (simp_all add: x_def y_def flip: append_assoc take_add)
  have t: "take 8 c = x @ y" by (simp add: x_def y_def flip: take_add)
  have r: "read_le ''need'' 4 (x @ z) = ok (le_value x, z)" "read_le ''need'' 4 (y @ z) = ok (le_value y, z)" for z
    using c by (simp_all add: read_le_def)
  have "reader_U32LE c = ok (le_value x, y @ drop 8 c)"
    using r(1)[of "y @ drop 8 c"] c(1) by (simp add: reader_U32_eq)
  moreover have "reader_U32LE (y @ drop 8 c) = ok (le_value y, drop 8 c)"
    using r(2) by (simp add: reader_U32_eq)
  moreover have "le_value (take 8 c) = le_value y * 0x100000000 + le_value x"
    unfolding t using c(2) by (simp add: le_value_append)
  ultimately show ?thesis
    using False by (simp add: reader_U64LE_def read_le_def take_bytes_def Let_def)
qed

interpretation u8: codec "spec_uint ''writeU8'' 1" reader_U8 "\<lambda>_. True"
  by unfold_locales (auto simp: spec_uint_def reader_U8_def uint_u8 split: if_splits)

interpretation u16: codec "spec_uint ''writeU16LE'' 2" reader_U16LE "\<lambda>_. True"
  by unfold_locales (auto simp: spec_uint_def reader_U16_eq split: if_splits)

interpretation u32: codec "spec_uint ''writeU32LE'' 4" reader_U32LE "\<lambda>_. True"
  by unfold_locales (auto simp: spec_uint_def reader_U32_eq split: if_splits)

interpretation u64: codec "spec_u64 ''writeU64LE''" reader_U64LE "\<lambda>_. True"
  by unfold_locales
     (auto simp: spec_u64_def reader_U64_eq safe_nat_iff isSafeInteger_def MAX_SAFE_INTEGER_def
       split: if_splits)

interpretation flag: codec "\<lambda>v. ok [u8 (if v then 1 else 0)]" reader_Bool "\<lambda>_. True"
  by unfold_locales (auto simp: reader_Bool_def reader_U8_def u8_def split: if_splits)

lemma reader_varint_bytes:
  assumes "safe_nat n"
  shows "reader_Varint (varint_bytes n @ rest) = ok (n, rest)"
proof -
  have n: "0 \<le> n" "n \<le> MAX_SAFE_INTEGER" using assms by (simp_all add: safe_nat_def)
  then have "isSafeInteger n" by (simp add: isSafeInteger_def MAX_SAFE_INTEGER_def)
  then show ?thesis
    using n by (simp add: varint_bytes_def reader_Varint_def reader_U8_def uint_u8 reader_U16_eq
        reader_U32_eq reader_U64_eq MAX_SAFE_INTEGER_def)
qed

interpretation varint: codec spec_varint reader_Varint "\<lambda>_. True"
  by unfold_locales (auto simp: spec_varint_def reader_varint_bytes split: if_splits)

lemma utf8_decode_char: "utf8_decode (utf8_char c @ bs) = map_option ((#) c) (utf8_decode bs)"
proof -
  define n where "n = (of_char c :: int)"
  have "n = int (of_char c)" by (simp add: n_def of_nat_of_char)
  then have n: "0 \<le> n" "n < 256" "char_of n = c"
    using nat_of_char_less_256[of c] by simp_all
  show ?thesis
  proof (cases "n < 0x80")
    case True
    then show ?thesis using n by (simp add: utf8_char_def n_def[symmetric] uint_u8)
  next
    case False
    then have d: "n div 64 = 2 \<or> n div 64 = 3" using n by auto
    have m: "0 \<le> n mod 64" "n mod 64 < 64" by simp_all
    have "n div 64 = 2 \<Longrightarrow> 128 + n mod 64 = n" "n div 64 = 3 \<Longrightarrow> 192 + n mod 64 = n"
      using mult_div_mod_eq[of 64 n] by simp_all
    then show ?thesis
      using False n(3) d m by (auto simp: utf8_char_def n_def[symmetric] uint_u8 Let_def)
  qed
qed

lemma utf8_decode_utf8: "utf8_decode (utf8 s) = Some s"
proof (induction s)
  case (Cons c s)
  then show ?case using utf8_decode_char[of c "utf8 s"] by (simp add: utf8_def)
qed (simp add: utf8_def)

lemma text_decoder_utf8: "text_decoder (utf8 s) = Some s"
proof -
  have "utf8_decode bs = None" if "take 3 bs = [0xEF, 0xBB, 0xBF]" for bs
    using that by (cases bs) (auto split: list.splits)
  then have "take 3 (utf8 s) \<noteq> [0xEF, 0xBB, 0xBF]" using utf8_decode_utf8[of s] by auto
  then show ?thesis by (simp add: text_decoder_def utf8_decode_utf8)
qed

definition readable_text :: "string \<Rightarrow> bool" where
  "readable_text s \<longleftrightarrow> int (length (utf8 s)) \<le> MAX_RESERVED_TRAILING"

interpretation utf8_text: codec "\<lambda>s. spec_bytes (utf8 s)" reader_Utf8 readable_text
proof
  fix s bs rest
  assume "readable_text s" and "spec_bytes (utf8 s) = ok bs"
  then have l: "int (length (utf8 s)) \<le> 4096" "bs = varint_bytes (int (length (utf8 s))) @ utf8 s"
    by (auto simp: readable_text_def MAX_RESERVED_TRAILING_def spec_bytes_def spec_varint_def
        res_bind_eq_Inr split: if_splits)
  have "safe_nat (int (length (utf8 s)))" using l(1) by (simp add: safe_nat_def MAX_SAFE_INTEGER_def)
  then show "reader_Utf8 (bs @ rest) = ok (s, rest)"
    using l(1) reader_varint_bytes
    by (simp add: l(2) reader_Utf8_def reader_Bytes_def reader_Raw_def MAX_RESERVED_TRAILING_def
        text_decoder_utf8)
qed

section \<open>Properties\<close>

lemma grow_cap_result:
  assumes "grow_cap cap required = Some c" and "cap = 0"
  shows "required = 0"
proof -
  have "cap = 0 \<longrightarrow> required = 0"
    by (rule grow_cap.raw_induct[of "\<lambda>cap required y. cap = 0 \<longrightarrow> required = 0", OF _ assms(1)])
       (auto split: if_splits)
  then show ?thesis using assms(2) by simp
qed

text \<open>When the writer's buffer growth returns: \<open>ensure\<close> terminates exactly if the bytes already fit
  or the buffer is not empty (a writer created with capacity 0 loops forever on its first byte), and
  then it keeps what was written and makes room for the new bytes.\<close>
theorem ensure_terminates_iff:
  assumes "woffset w \<le> length (wbuf w)"
  shows "if woffset w + n \<le> length (wbuf w) \<or> wbuf w \<noteq> []
    then \<exists>w'. ensure n w = Some w' \<and> bytes w' = bytes w \<and> woffset w' = woffset w
           \<and> woffset w + n \<le> length (wbuf w')
    else ensure n w = None"
proof (cases "wbuf w = []")
  case True
  then show ?thesis
    using assms grow_cap_result[of 0 n] by (cases "grow_cap 0 n") (auto simp: ensure_def)
next
  case False
  then show ?thesis using ensure_ok[of w n] assms by (auto simp: writer_ok_def)
qed

lemma ensure_terminates_iff_witness:
  "ensure 1 (new_writer 0) = None \<and> (\<exists>w'. ensure 300 (new_writer 256) = Some w')"
  using ensure_terminates_iff[of "new_writer 0" 1] ensure_terminates_iff[of "new_writer 256" 300]
  by (auto simp: new_writer_def)

end
