(* ===== verification/Rule_Codec.thy ===== *)
theory Rule_Codec
  imports Canonical Protocol_Types
begin

text \<open>
  \<open>packages/protocol-types/src/rule-set-codec.ts\<close>: the canonical encoding of a rule set, its decoder
  and its hash, with the domain-separated hashing of \<open>hash.ts\<close>. SHA-256 is the parameter \<open>sha\<close>. A
  \<open>Record<string, string>\<close> is an association list with distinct keys; assigning to the key
  \<open>__proto__\<close> of a fresh object sets no property.
\<close>

section \<open>Domain-separated hashing\<close>

definition encodeTagLE :: "int \<Rightarrow> byte list" where
  "encodeTagLE tag = [u8 (js_and tag 0xff), u8 (js_and (js_shr tag 8) 0xff)]"

definition TAG_RULE_SET :: int where
  "TAG_RULE_SET = 0x0001"

definition bytesToHex :: "byte list \<Rightarrow> string" where
  "bytesToHex b = concat (map (\<lambda>x. hex2 (unat x)) b)"

definition domainSha256 :: "(byte list \<Rightarrow> byte list) \<Rightarrow> int \<Rightarrow> byte list \<Rightarrow> hash256" where
  "domainSha256 sha tag body = bytesToHex (sha (encodeTagLE tag @ body))"

definition domainSha256Sync :: "int \<Rightarrow> byte list \<Rightarrow> (byte list \<Rightarrow> byte list) \<Rightarrow> hash256" where
  "domainSha256Sync tag body hasher = bytesToHex (hasher (encodeTagLE tag @ body))"

lemma bytesToHex_eq: "bytesToHex b = toHex b"
  by (simp add: bytesToHex_def toHex_def)

section \<open>Encoding\<close>

definition wseq :: "write_op list \<Rightarrow> write_op" where
  "wseq ops = foldr wbind ops wskip"

fun GAME_TYPE_CODES :: "game_type \<Rightarrow> int" where
  "GAME_TYPE_CODES In_between = 0x01"

definition GAME_TYPE_FROM_CODE :: "int \<Rightarrow> game_type option" where
  "GAME_TYPE_FROM_CODE code = (if code = 0x01 then Some In_between else None)"

definition encodePenalty :: "penalty_schedule \<Rightarrow> write_op" where
  "encodePenalty p = wseq [writeU64LE (non_reveal p), writeU64LE (bad_reveal p),
     writeU64LE (consecutive_cards p), writeU64LE (equal_cards p)]"

definition encodeSettlement :: "settlement_rules \<Rightarrow> write_op" where
  "encodeSettlement s = wseq [writeI32LE (in_between_win_multiplier s),
     writeI32LE (in_between_loss_multiplier s), writeU64LE (consecutive_cards_penalty s),
     writeU64LE (equal_cards_penalty s)]"

definition encodeRecovery :: "recovery_rules \<Rightarrow> write_op" where
  "encodeRecovery r = wseq [writeBool (refund_stakes_to_funders r),
     writeBool (apply_non_reveal_penalty r), writeBool (apply_bad_reveal_penalty r)]"

definition encodeDefaults :: "(string \<times> string) list \<Rightarrow> write_op" where
  "encodeDefaults defaults =
     (let keys = sort (map fst defaults)
      in wbind (writeVarint (int (length keys)))
           (wseq (map (\<lambda>k. wbind (writeUtf8 k)
              (case map_of defaults k of None \<Rightarrow> wthrow ''encodeDefaults'' | Some v \<Rightarrow> writeUtf8 v)) keys)))"

definition u8_guard :: "int \<Rightarrow> write_op" where
  "u8_guard n = (if n < 0 \<or> n > 255 then wthrow ''encodeRuleSet'' else wskip)"

definition write_rule_set :: "rule_set \<Rightarrow> write_op" where
  "write_rule_set rs = wseq [
     writeU8 1,
     writeU8 (GAME_TYPE_CODES (rule_set.game_type rs)),
     u8_guard (player_count_min rs),
     u8_guard (player_count_max rs),
     writeU8 (player_count_min rs),
     writeU8 (player_count_max rs),
     writeU64LE (stake_amount rs),
     writeU64LE (min_bet rs),
     writeU64LE (max_bet rs),
     writeU32LE (decision_timeout_blocks rs),
     writeU32LE (recovery_timeout_blocks rs),
     writeU32LE (invitation_window_blocks rs),
     encodeDefaults (default_action_by_state rs),
     encodePenalty (rule_set.penalty_schedule rs),
     writeU8 (deck_format rs),
     u8_guard (shuffle_algorithm_version rs),
     writeU8 (shuffle_algorithm_version rs),
     encodeSettlement (rule_set.settlement_rules rs),
     encodeRecovery (rule_set.recovery_rules rs)]"

definition encodeRuleSet :: "rule_set \<Rightarrow> byte list result option" where
  "encodeRuleSet rs =
     (if serialisation_version rs \<noteq> 1 then Some (throw ''encodeRuleSet'')
      else map_option (\<lambda>r. res_bind r (\<lambda>w. ok (bytes w))) (write_rule_set rs (new_writer 256)))"

section \<open>Decoding\<close>

definition decodePenalty :: "byte list \<Rightarrow> (penalty_schedule \<times> byte list) result" where
  "decodePenalty c =
     res_bind (reader_U64LE c) (\<lambda>(a, c). res_bind (reader_U64LE c) (\<lambda>(b, c).
     res_bind (reader_U64LE c) (\<lambda>(d, c). res_bind (reader_U64LE c) (\<lambda>(e, c).
       ok (\<lparr> non_reveal = a, bad_reveal = b, consecutive_cards = d, equal_cards = e \<rparr>, c)))))"

definition decodeSettlement :: "byte list \<Rightarrow> (settlement_rules \<times> byte list) result" where
  "decodeSettlement c =
     res_bind (reader_U32LE c) (\<lambda>(win, c). res_bind (reader_U32LE c) (\<lambda>(loss, c).
     res_bind (reader_U64LE c) (\<lambda>(cp, c). res_bind (reader_U64LE c) (\<lambda>(ep, c).
       ok (\<lparr> in_between_win_multiplier = win, in_between_loss_multiplier = loss,
             consecutive_cards_penalty = cp, equal_cards_penalty = ep \<rparr>, c)))))"

definition decodeRecovery :: "byte list \<Rightarrow> (recovery_rules \<times> byte list) result" where
  "decodeRecovery c =
     res_bind (reader_Bool c) (\<lambda>(a, c). res_bind (reader_Bool c) (\<lambda>(b, c).
     res_bind (reader_Bool c) (\<lambda>(d, c).
       ok (\<lparr> refund_stakes_to_funders = a, apply_non_reveal_penalty = b,
             apply_bad_reveal_penalty = d \<rparr>, c))))"

text \<open>\<open>out[k] = v\<close> on a plain object. The list keeps the order in which keys were first set, where a JavaScript
  object enumerates integer-like keys first, in ascending order; \<open>encodeDefaults\<close>, the only reader of the
  order here, sorts the keys.\<close>

definition set_prop :: "(string \<times> string) list \<Rightarrow> string \<times> string \<Rightarrow> (string \<times> string) list" where
  "set_prop out kv =
     (if fst kv = ''__proto__'' then out
      else if fst kv \<in> fst ` set out
      then map (\<lambda>e. if fst e = fst kv then kv else e) out
      else out @ [kv])"

fun decode_defaults_loop ::
  "nat \<Rightarrow> (string \<times> string) list \<Rightarrow> byte list \<Rightarrow> ((string \<times> string) list \<times> byte list) result" where
  "decode_defaults_loop 0 out c = ok (out, c)"
| "decode_defaults_loop (Suc n) out c =
     res_bind (reader_Utf8 c) (\<lambda>(k, c). res_bind (reader_Utf8 c) (\<lambda>(v, c).
       decode_defaults_loop n (set_prop out (k, v)) c))"

definition decodeDefaults :: "byte list \<Rightarrow> ((string \<times> string) list \<times> byte list) result" where
  "decodeDefaults c = res_bind (reader_Varint c) (\<lambda>(n, c). decode_defaults_loop (nat n) [] c)"

text \<open>The body of the \<open>try\<close> block: an early \<open>return err(...)\<close> is \<open>Rejected\<close>.\<close>

definition read_rule_set :: "byte list \<Rightarrow> rule_set result" where
  "read_rule_set c =
     res_bind (reader_U8 c) (\<lambda>(version, c). if version \<noteq> 1 then err UNSUPPORTED_VERSION else
     res_bind (reader_U8 c) (\<lambda>(code, c).
     case GAME_TYPE_FROM_CODE code of None \<Rightarrow> err INVALID_RULE_SET | Some gt \<Rightarrow>
     res_bind (reader_U8 c) (\<lambda>(pmin, c). res_bind (reader_U8 c) (\<lambda>(pmax, c).
     res_bind (reader_U64LE c) (\<lambda>(stake, c). res_bind (reader_U64LE c) (\<lambda>(minb, c).
     res_bind (reader_U64LE c) (\<lambda>(maxb, c). res_bind (reader_U32LE c) (\<lambda>(dec, c).
     res_bind (reader_U32LE c) (\<lambda>(rec, c). res_bind (reader_U32LE c) (\<lambda>(inv, c).
     res_bind (decodeDefaults c) (\<lambda>(defs, c). res_bind (decodePenalty c) (\<lambda>(pen, c).
     res_bind (reader_U8 c) (\<lambda>(deck, c).
     if deck \<noteq> 52 \<and> deck \<noteq> 54 then err INVALID_RULE_SET else
     res_bind (reader_U8 c) (\<lambda>(shuf, c). res_bind (decodeSettlement c) (\<lambda>(sett, c).
     res_bind (decodeRecovery c) (\<lambda>(reco, c).
       ok \<lparr> game_type = gt, player_count_min = pmin, player_count_max = pmax,
            stake_amount = stake, min_bet = minb, max_bet = maxb,
            decision_timeout_blocks = dec, recovery_timeout_blocks = rec,
            invitation_window_blocks = inv, default_action_by_state = defs,
            penalty_schedule = pen, deck_format = deck, shuffle_algorithm_version = shuf,
            settlement_rules = sett, recovery_rules = reco, serialisation_version = 1 \<rparr>
     ))))))))))))))))"

definition decodeRuleSet :: "byte list \<Rightarrow> rule_set result" where
  "decodeRuleSet bs =
     (case read_rule_set bs of Inl (Thrown _) \<Rightarrow> err SERIALISATION_ERROR | r \<Rightarrow> r)"

definition ruleSetHash :: "(byte list \<Rightarrow> byte list) \<Rightarrow> rule_set \<Rightarrow> rule_set_hash result option" where
  "ruleSetHash sha rs = map_option (\<lambda>r. res_bind r (\<lambda>body.
     asRuleSetHash (domainSha256 sha TAG_RULE_SET body))) (encodeRuleSet rs)"

section \<open>What the encoder writes\<close>

fun spec_seq :: "byte list result list \<Rightarrow> byte list result" where
  "spec_seq [] = ok []"
| "spec_seq (r # rs) = res_bind r (\<lambda>a. res_bind (spec_seq rs) (\<lambda>b. ok (a @ b)))"

lemma emits_wseq: "list_all2 emits ops rs \<Longrightarrow> emits (wseq ops) (spec_seq rs)"
proof (induction rule: list_all2_induct)
  case (Cons f fs r rs)
  then show ?case using emits_wbind[of f r "wseq fs" "spec_seq rs"] by (simp add: wseq_def)
qed (simp add: wseq_def)

abbreviation s8 :: "int \<Rightarrow> byte list result" where "s8 \<equiv> spec_uint ''writeU8'' 1"
abbreviation s32 :: "int \<Rightarrow> byte list result" where "s32 \<equiv> spec_uint ''writeU32LE'' 4"
abbreviation s64 :: "int \<Rightarrow> byte list result" where "s64 \<equiv> spec_u64 ''writeU64LE''"

definition spec_flag :: "bool \<Rightarrow> byte list result" where
  "spec_flag v = ok [u8 (if v then 1 else 0)]"

definition spec_guard :: "int \<Rightarrow> byte list result" where
  "spec_guard n = (if n < 0 \<or> n > 255 then throw ''encodeRuleSet'' else ok [])"

definition spec_penalty :: "penalty_schedule \<Rightarrow> byte list result" where
  "spec_penalty p = spec_seq [s64 (non_reveal p), s64 (bad_reveal p), s64 (consecutive_cards p),
     s64 (equal_cards p)]"

definition spec_settlement :: "settlement_rules \<Rightarrow> byte list result" where
  "spec_settlement s = spec_seq [spec_i32 (in_between_win_multiplier s),
     spec_i32 (in_between_loss_multiplier s), s64 (consecutive_cards_penalty s), s64 (equal_cards_penalty s)]"

definition spec_recovery :: "recovery_rules \<Rightarrow> byte list result" where
  "spec_recovery r = spec_seq [spec_flag (refund_stakes_to_funders r),
     spec_flag (apply_non_reveal_penalty r), spec_flag (apply_bad_reveal_penalty r)]"

definition spec_entry :: "string \<times> string \<Rightarrow> byte list result" where
  "spec_entry e = spec_seq [spec_bytes (utf8 (fst e)), spec_bytes (utf8 (snd e))]"

text \<open>The entries in the order they are written.\<close>

definition sorted_defaults :: "(string \<times> string) list \<Rightarrow> (string \<times> string) list" where
  "sorted_defaults d = map (\<lambda>k. (k, the (map_of d k))) (sort (map fst d))"

definition spec_defaults :: "(string \<times> string) list \<Rightarrow> byte list result" where
  "spec_defaults d = spec_seq (spec_varint (int (length d)) # map spec_entry (sorted_defaults d))"

definition spec_rule_set :: "rule_set \<Rightarrow> byte list result" where
  "spec_rule_set rs = spec_seq [s8 1, s8 (GAME_TYPE_CODES (rule_set.game_type rs)),
     spec_guard (player_count_min rs), spec_guard (player_count_max rs),
     s8 (player_count_min rs), s8 (player_count_max rs), s64 (stake_amount rs), s64 (min_bet rs),
     s64 (max_bet rs), s32 (decision_timeout_blocks rs), s32 (recovery_timeout_blocks rs),
     s32 (invitation_window_blocks rs), spec_defaults (default_action_by_state rs),
     spec_penalty (rule_set.penalty_schedule rs), s8 (deck_format rs),
     spec_guard (shuffle_algorithm_version rs), s8 (shuffle_algorithm_version rs),
     spec_settlement (rule_set.settlement_rules rs), spec_recovery (rule_set.recovery_rules rs)]"

lemma emits_flag: "emits (writeBool v) (spec_flag v)"
  using emits_bool by (simp add: spec_flag_def)

lemma emits_guard: "emits (u8_guard n) (spec_guard n)"
  by (simp add: u8_guard_def spec_guard_def)

lemmas emits_basic = emits_U8 emits_U32 emits_U64 emits_I32 emits_varint emits_utf8 emits_flag emits_guard

lemma emits_penalty: "emits (encodePenalty p) (spec_penalty p)"
  unfolding encodePenalty_def spec_penalty_def by (rule emits_wseq) (simp add: emits_basic)

lemma emits_settlement: "emits (encodeSettlement s) (spec_settlement s)"
  unfolding encodeSettlement_def spec_settlement_def by (rule emits_wseq) (simp add: emits_basic)

lemma emits_recovery: "emits (encodeRecovery r) (spec_recovery r)"
  unfolding encodeRecovery_def spec_recovery_def by (rule emits_wseq) (simp add: emits_basic)

lemma emits_defaults: "emits (encodeDefaults d) (spec_defaults d)"
proof -
  let ?keys = "sort (map fst d)"
  let ?op = "\<lambda>k. wbind (writeUtf8 k)
    (case map_of d k of None \<Rightarrow> wthrow ''encodeDefaults'' | Some v \<Rightarrow> writeUtf8 v)"
  have "emits (?op k) (spec_entry (k, the (map_of d k)))" if "k \<in> set (map fst d)" for k
  proof -
    from that obtain v where v: "map_of d k = Some v" by (metis list.set_map map_of_eq_None_iff not_None_eq)
    have "?op k = wbind (writeUtf8 k) (writeUtf8 v)" using v by simp
    moreover have "emits (wbind (writeUtf8 k) (writeUtf8 v)) (spec_entry (k, v))"
      using emits_wbind[OF emits_utf8[of k] emits_utf8[of v]] by (simp add: spec_entry_def)
    ultimately show ?thesis using v by simp
  qed
  then have "list_all2 emits (map ?op ?keys) (map spec_entry (sorted_defaults d))"
    unfolding sorted_defaults_def list.rel_map map_map comp_def
    by (intro list.rel_refl_strong) (simp only: set_sort)
  then have "emits (wseq (map ?op ?keys)) (spec_seq (map spec_entry (sorted_defaults d)))"
    by (rule emits_wseq)
  from emits_wbind[OF emits_varint this] show ?thesis
    by (simp add: encodeDefaults_def spec_defaults_def Let_def)
qed

lemma emits_rule_set: "emits (write_rule_set rs) (spec_rule_set rs)"
  unfolding write_rule_set_def spec_rule_set_def
  by (rule emits_wseq)
     (simp add: emits_basic emits_penalty emits_settlement emits_recovery emits_defaults del: One_nat_def)

text \<open>The encoder always returns, and returns exactly the specified bytes or failure.\<close>

lemma encodeRuleSet_eq:
  "encodeRuleSet rs = Some (if serialisation_version rs \<noteq> 1 then throw ''encodeRuleSet'' else spec_rule_set rs)"
proof (cases "spec_rule_set rs")
  case (Inl e)
  then show ?thesis
    using emitsD(2)[of "write_rule_set rs" e "new_writer 256"] emits_rule_set[of rs] new_writer_ok[of 256]
    by (simp add: encodeRuleSet_def)
next
  case (Inr bs)
  then obtain w where "write_rule_set rs (new_writer 256) = Some (ok w)" "bytes w = bs"
    using emitsD(1)[of "write_rule_set rs" bs "new_writer 256"] emits_rule_set[of rs] new_writer_ok[of 256]
    by auto
  then show ?thesis using Inr by (simp add: encodeRuleSet_def)
qed

section \<open>Reading back\<close>

lemma spec_ok_iff [codec_defs]:
  "spec_uint who n v = ok bs \<longleftrightarrow> 0 \<le> v \<and> v < 256 ^ n \<and> bs = le_bytes n v"
  "spec_u64 who v = ok bs \<longleftrightarrow> safe_nat v \<and> bs = le_bytes 8 v"
  "spec_i32 v = ok bs \<longleftrightarrow> - (2 ^ 31) \<le> v \<and> v < 2 ^ 31 \<and> bs = le_bytes 4 v"
  "spec_varint v = ok bs \<longleftrightarrow> safe_nat v \<and> bs = varint_bytes v"
  "spec_guard v = ok bs \<longleftrightarrow> 0 \<le> v \<and> v \<le> 255 \<and> bs = []"
  "spec_flag b = ok bs \<longleftrightarrow> bs = [u8 (if b then 1 else 0)]"
  by (auto simp: spec_uint_def spec_u64_def spec_i32_def spec_varint_def spec_guard_def spec_flag_def)

lemma reads [codec_defs]:
  "0 \<le> v \<Longrightarrow> v < 256 \<Longrightarrow> reader_U8 (u8 v # rest) = ok (v, rest)"
  "0 \<le> v \<Longrightarrow> v < 256 ^ 4 \<Longrightarrow> reader_U32LE (le_bytes 4 v @ rest) = ok (v, rest)"
  "safe_nat v \<Longrightarrow> reader_U64LE (le_bytes 8 v @ rest) = ok (v, rest)"
  "safe_nat v \<Longrightarrow> reader_Varint (varint_bytes v @ rest) = ok (v, rest)"
  "reader_Bool (u8 (if b then 1 else 0) # rest) = ok (b, rest)"
  using u64.dec_enc[of v "le_bytes 8 v" rest] reader_varint_bytes[of v rest] flag.dec_enc[of b _ rest]
  by (simp_all add: reader_U8_def uint_u8 reader_U32_eq spec_u64_def)

interpretation penalty: codec spec_penalty decodePenalty "\<lambda>_. True"
  by unfold_locales
     (auto simp: spec_penalty_def decodePenalty_def res_bind_eq_Inr codec_defs)

interpretation settlement: codec spec_settlement decodeSettlement
    "\<lambda>s. 0 \<le> in_between_win_multiplier s \<and> 0 \<le> in_between_loss_multiplier s"
  by unfold_locales
     (auto simp: spec_settlement_def decodeSettlement_def res_bind_eq_Inr codec_defs)

interpretation recovery: codec spec_recovery decodeRecovery "\<lambda>_. True"
  by unfold_locales
     (auto simp: spec_recovery_def decodeRecovery_def res_bind_eq_Inr spec_flag_def reads(5)
       simp del: if_split)

text \<open>One entry of the defaults.\<close>

definition decode_entry :: "byte list \<Rightarrow> ((string \<times> string) \<times> byte list) result" where
  "decode_entry c = res_bind (reader_Utf8 c) (\<lambda>(k, c). res_bind (reader_Utf8 c) (\<lambda>(v, c). ok ((k, v), c)))"

definition readable_entry :: "string \<times> string \<Rightarrow> bool" where
  "readable_entry e \<longleftrightarrow> readable_text (fst e) \<and> readable_text (snd e)"

interpretation entry: codec spec_entry decode_entry readable_entry
proof
  fix e bs rest
  assume "readable_entry e" and "spec_entry e = ok bs"
  then obtain a b where ab: "spec_bytes (utf8 (fst e)) = ok a" "spec_bytes (utf8 (snd e)) = ok b" "bs = a @ b"
    "readable_text (fst e)" "readable_text (snd e)"
    by (auto simp: spec_entry_def res_bind_eq_Inr readable_entry_def)
  then show "decode_entry (bs @ rest) = ok (e, rest)"
    using utf8_text.dec_enc[OF ab(4,1)] utf8_text.dec_enc[OF ab(5,2)] by (simp add: decode_entry_def)
qed

lemma decode_defaults_loop_eq:
  "decode_defaults_loop n out c = res_bind (dec_many decode_entry n c)
     (\<lambda>(es, c). ok (foldl set_prop out es, c))"
proof (induction n arbitrary: out c)
  case (Suc n)
  show ?case
  proof (cases "reader_Utf8 c")
    case (Inl e)
    then show ?thesis by (simp add: decode_entry_def)
  next
    case k: (Inr kc)
    show ?thesis
    proof (cases "reader_Utf8 (snd kc)")
      case (Inl e)
      then show ?thesis using k by (simp add: decode_entry_def case_prod_beta)
    next
      case v: (Inr vc)
      have "decode_entry c = ok ((fst kc, fst vc), snd vc)"
        using k v by (simp add: decode_entry_def case_prod_beta)
      then show ?thesis
        using k v Suc[of "set_prop out (fst kc, fst vc)" "snd vc"]
        by (simp add: case_prod_beta res_bind_assoc)
    qed
  qed
qed simp

lemma foldl_set_prop:
  "distinct (map fst (out @ es)) \<Longrightarrow> ''__proto__'' \<notin> fst ` set es \<Longrightarrow> foldl set_prop out es = out @ es"
proof (induction es arbitrary: out)
  case (Cons e es)
  then have "set_prop out e = out @ [e]" by (auto simp: set_prop_def)
  then show ?case using Cons.IH[of "out @ [e]"] Cons.prems by auto
qed simp

lemma spec_seq_map: "spec_seq (map f xs) = ok bs \<longleftrightarrow> (\<exists>ps. map_res f xs = ok ps \<and> bs = concat ps)"
  by (induction xs arbitrary: bs) (auto simp: res_bind_eq_Inr)

definition good_defaults :: "(string \<times> string) list \<Rightarrow> bool" where
  "good_defaults d \<longleftrightarrow> distinct (map fst d) \<and> ''__proto__'' \<notin> fst ` set d \<and> (\<forall>e \<in> set d. readable_entry e)"

lemma sorted_defaults_facts:
  assumes "good_defaults d"
  shows "length (sorted_defaults d) = length d" "set (sorted_defaults d) = set d"
    "map fst (sorted_defaults d) = sort (map fst d)"
proof -
  have "set (sorted_defaults d) = (\<lambda>e. (fst e, the (map_of d (fst e)))) ` set d"
    by (simp add: sorted_defaults_def image_image)
  also have "\<dots> = (\<lambda>e. e) ` set d"
    using assms by (intro image_cong) (auto simp: good_defaults_def)
  finally show "set (sorted_defaults d) = set d" by simp
qed (simp_all add: sorted_defaults_def comp_def)

interpretation defaults: codec spec_defaults decodeDefaults
    "\<lambda>d. good_defaults d \<and> sorted_defaults d = d"
proof
  fix d bs rest
  assume d: "good_defaults d \<and> sorted_defaults d = d" and e: "spec_defaults d = ok bs"
  then obtain ps where ps: "safe_nat (int (length d))" "map_res spec_entry d = ok ps"
    "bs = varint_bytes (int (length d)) @ concat ps"
    by (auto simp: spec_defaults_def res_bind_eq_Inr spec_seq_map codec_defs)
  have "dec_many decode_entry (length d) (concat ps @ rest) = ok (d, rest)"
    using d ps(2) by (intro entry.dec_many_concat) (simp_all add: good_defaults_def)
  moreover have "foldl set_prop [] d = d"
    using d foldl_set_prop[of "[]" d] by (simp add: good_defaults_def)
  ultimately show "decodeDefaults (bs @ rest) = ok (d, rest)"
    using ps(1) by (simp add: ps(3) decodeDefaults_def reads decode_defaults_loop_eq)
qed

lemma map_of_sorted_defaults: "good_defaults d \<Longrightarrow> map_of (sorted_defaults d) = map_of d"
  using sorted_defaults_facts[of d] by (intro map_of_inject_set[THEN iffD2]) (simp_all add: good_defaults_def)

lemma sorted_defaults_idem: "good_defaults d \<Longrightarrow> sorted_defaults (sorted_defaults d) = sorted_defaults d"
  using sorted_defaults_facts(3)[of d] map_of_sorted_defaults[of d]
  unfolding sorted_defaults_def[of "sorted_defaults d"]
  by (simp add: sorted_sort_id[OF sorted_sort]) (simp add: sorted_defaults_def)

lemma good_sorted_defaults: "good_defaults d \<Longrightarrow> good_defaults (sorted_defaults d)"
  using sorted_defaults_facts[of d] by (simp add: good_defaults_def)

lemma spec_sorted_defaults: "good_defaults d \<Longrightarrow> spec_defaults (sorted_defaults d) = spec_defaults d"
  by (simp add: spec_defaults_def sorted_defaults_idem sorted_defaults_facts(1))

lemma decodeDefaults_spec:
  assumes "good_defaults d" and "spec_defaults d = ok bs"
  shows "decodeDefaults (bs @ rest) = ok (sorted_defaults d, rest)"
  using defaults.dec_enc[of "sorted_defaults d" bs rest] assms
  by (simp add: spec_sorted_defaults sorted_defaults_idem good_sorted_defaults)

definition sorted_rules :: "rule_set \<Rightarrow> rule_set" where
  "sorted_rules rs = rs\<lparr> default_action_by_state := sorted_defaults (default_action_by_state rs) \<rparr>"

text \<open>The rule sets that the two functions are meant for.\<close>

definition encodable :: "rule_set \<Rightarrow> bool" where
  "encodable rs \<longleftrightarrow> serialisation_version rs = 1 \<and>
     0 \<le> player_count_min rs \<and> player_count_min rs \<le> 255 \<and>
     0 \<le> player_count_max rs \<and> player_count_max rs \<le> 255 \<and>
     safe_nat (stake_amount rs) \<and> safe_nat (min_bet rs) \<and> safe_nat (max_bet rs) \<and>
     0 \<le> decision_timeout_blocks rs \<and> decision_timeout_blocks rs < 2 ^ 32 \<and>
     0 \<le> recovery_timeout_blocks rs \<and> recovery_timeout_blocks rs < 2 ^ 32 \<and>
     0 \<le> invitation_window_blocks rs \<and> invitation_window_blocks rs < 2 ^ 32 \<and>
     good_defaults (default_action_by_state rs) \<and>
     safe_nat (int (length (default_action_by_state rs))) \<and>
     (\<forall>x \<in> {non_reveal, bad_reveal, consecutive_cards, equal_cards}. safe_nat (x (rule_set.penalty_schedule rs))) \<and>
     (deck_format rs = 52 \<or> deck_format rs = 54) \<and>
     0 \<le> shuffle_algorithm_version rs \<and> shuffle_algorithm_version rs \<le> 255 \<and>
     (\<forall>x \<in> {in_between_win_multiplier, in_between_loss_multiplier}.
        0 \<le> x (rule_set.settlement_rules rs) \<and> x (rule_set.settlement_rules rs) < 2 ^ 31) \<and>
     (\<forall>x \<in> {consecutive_cards_penalty, equal_cards_penalty}. safe_nat (x (rule_set.settlement_rules rs)))"

lemma spec_bytes_total: "readable_text s \<Longrightarrow> \<exists>bs. spec_bytes (utf8 s) = ok bs"
  by (simp add: spec_bytes_def spec_varint_def readable_text_def MAX_RESERVED_TRAILING_def safe_nat_def
      MAX_SAFE_INTEGER_def)

lemma spec_defaults_total:
  assumes "good_defaults d" and "safe_nat (int (length d))"
  shows "\<exists>bs. spec_defaults d = ok bs"
proof -
  have "\<exists>b. spec_entry e = ok b" if "e \<in> set (sorted_defaults d)" for e
  proof -
    have "readable_text (fst e)" "readable_text (snd e)"
      using that assms(1) sorted_defaults_facts(2)[of d] by (auto simp: good_defaults_def readable_entry_def)
    then obtain a b where "spec_bytes (utf8 (fst e)) = ok a" "spec_bytes (utf8 (snd e)) = ok b"
      using spec_bytes_total by blast
    then show ?thesis by (simp add: spec_entry_def)
  qed
  then have "\<exists>ps. map_res spec_entry (sorted_defaults d) = ok ps" unfolding map_res_ok_iff by (intro ballI)
  then obtain ps where "map_res spec_entry (sorted_defaults d) = ok ps" by (elim exE)
  then have "spec_seq (map spec_entry (sorted_defaults d)) = ok (concat ps)" by (simp add: spec_seq_map)
  then show ?thesis using assms(2) by (simp add: spec_defaults_def spec_varint_def)
qed

definition succeeds :: "byte list result \<Rightarrow> bool" where
  "succeeds r \<longleftrightarrow> (\<exists>bs. r = ok bs)"

lemma succeeds_seq: "list_all succeeds rs \<Longrightarrow> succeeds (spec_seq rs)"
  by (induction rs) (auto simp: succeeds_def)

lemma succeeds_basic:
  "succeeds (spec_uint who n v) \<longleftrightarrow> 0 \<le> v \<and> v < 256 ^ n" "succeeds (spec_u64 who v) \<longleftrightarrow> safe_nat v"
  "succeeds (spec_i32 v) \<longleftrightarrow> - (2 ^ 31) \<le> v \<and> v < 2 ^ 31" "succeeds (spec_guard v) \<longleftrightarrow> 0 \<le> v \<and> v \<le> 255"
  "succeeds (spec_flag b)"
  by (auto simp: succeeds_def spec_ok_iff)

lemma spec_rule_set_total: "encodable rs \<Longrightarrow> \<exists>bs. spec_rule_set rs = ok bs"
proof -
  assume e: "encodable rs"
  have d: "succeeds (spec_defaults (default_action_by_state rs))"
    using e spec_defaults_total by (simp add: encodable_def succeeds_def)
  have p: "succeeds (spec_penalty (rule_set.penalty_schedule rs))"
    unfolding spec_penalty_def by (rule succeeds_seq) (use e in \<open>simp add: succeeds_basic encodable_def\<close>)
  have s: "succeeds (spec_settlement (rule_set.settlement_rules rs))"
    unfolding spec_settlement_def by (rule succeeds_seq) (use e in \<open>simp add: succeeds_basic encodable_def\<close>)
  have r: "succeeds (spec_recovery (rule_set.recovery_rules rs))"
    unfolding spec_recovery_def by (rule succeeds_seq) (simp add: succeeds_basic)
  have "deck_format rs = 52 \<or> deck_format rs = 54" using e by (simp add: encodable_def)
  then have f: "0 \<le> deck_format rs" "deck_format rs < 256" by auto
  have g: "GAME_TYPE_CODES (rule_set.game_type rs) = 1" by (cases "rule_set.game_type rs") simp
  have "succeeds (spec_rule_set rs)"
    unfolding spec_rule_set_def
    by (rule succeeds_seq) (use e d p s r f g in \<open>simp add: succeeds_basic encodable_def\<close>)
  then show ?thesis by (simp add: succeeds_def)
qed

lemma read_rule_set_spec:
  assumes "encodable rs" and "spec_rule_set rs = ok bs"
  shows "read_rule_set bs = ok (sorted_rules rs)"
proof -
  obtain d p s r where parts: "spec_defaults (default_action_by_state rs) = ok d"
    "spec_penalty (rule_set.penalty_schedule rs) = ok p"
    "spec_settlement (rule_set.settlement_rules rs) = ok s"
    "spec_recovery (rule_set.recovery_rules rs) = ok r"
    and bs: "bs = u8 1 # u8 1 # u8 (player_count_min rs) # u8 (player_count_max rs) #
      le_bytes 8 (stake_amount rs) @ le_bytes 8 (min_bet rs) @ le_bytes 8 (max_bet rs) @
      le_bytes 4 (decision_timeout_blocks rs) @ le_bytes 4 (recovery_timeout_blocks rs) @
      le_bytes 4 (invitation_window_blocks rs) @ d @ p @ u8 (deck_format rs) #
      u8 (shuffle_algorithm_version rs) # s @ r"
    using assms(2) by (cases "rule_set.game_type rs")
      (auto simp: spec_rule_set_def res_bind_eq_Inr spec_ok_iff)
  have r: "decodeRecovery r = ok (rule_set.recovery_rules rs, [])"
    using recovery.dec_enc[OF _ parts(4), of "[]"] by simp
  have s: "decodeSettlement (s @ r) = ok (rule_set.settlement_rules rs, r)"
    using settlement.dec_enc[OF _ parts(3)] assms(1) by (simp add: encodable_def)
  have g: "rule_set.game_type rs = In_between" by (cases "rule_set.game_type rs") simp
  show ?thesis
    using assms(1) decodeDefaults_spec[OF _ parts(1)] penalty.dec_enc[OF _ parts(2)] r s g
    by (auto simp: bs read_rule_set_def encodable_def reads GAME_TYPE_FROM_CODE_def sorted_rules_def)
qed

section \<open>Properties\<close>

text \<open>C17. The canonical rule-set encoding round trips: for every rule set in range the encoder returns
  (its growing buffer never loops) and decoding its bytes gives the rule set back, its defaults in
  canonical key order.\<close>
theorem rule_set_round_trip:
  assumes "encodable rs"
  shows "\<exists>bs. encodeRuleSet rs = Some (ok bs) \<and> decodeRuleSet bs = ok (sorted_rules rs)"
proof -
  obtain bs where "spec_rule_set rs = ok bs" using spec_rule_set_total[OF assms] by blast
  then show ?thesis
    using read_rule_set_spec[OF assms] assms
    by (simp add: encodeRuleSet_eq decodeRuleSet_def encodable_def)
qed

text \<open>The rule set of the deck simulator, with its defaults out of order.\<close>

definition demo_rule_set :: rule_set where
  "demo_rule_set = \<lparr>
     game_type = In_between, player_count_min = 2, player_count_max = 8, stake_amount = 100000,
     min_bet = 1000, max_bet = 50000, decision_timeout_blocks = 6, recovery_timeout_blocks = 144,
     invitation_window_blocks = 12,
     default_action_by_state = [(''S8'', ''Pass''), (''S7'', ''Pass'')],
     penalty_schedule = \<lparr> non_reveal = 1, bad_reveal = 2, consecutive_cards = 3, equal_cards = 4 \<rparr>,
     deck_format = 52, shuffle_algorithm_version = 1,
     settlement_rules = \<lparr> in_between_win_multiplier = 1, in_between_loss_multiplier = 1,
       consecutive_cards_penalty = 50, equal_cards_penalty = 100 \<rparr>,
     recovery_rules = \<lparr> refund_stakes_to_funders = True, apply_non_reveal_penalty = False,
       apply_bad_reveal_penalty = True \<rparr>,
     serialisation_version = 1 \<rparr>"

lemma demo_encodable: "encodable demo_rule_set" "encodable (sorted_rules demo_rule_set)"
  by (simp_all add: encodable_def demo_rule_set_def sorted_rules_def sorted_defaults_def
      safe_nat_def MAX_SAFE_INTEGER_def good_defaults_def readable_entry_def readable_text_def
      utf8_def utf8_char_def MAX_RESERVED_TRAILING_def Let_def)

lemma rule_set_round_trip_witness:
  "\<exists>bs. encodeRuleSet demo_rule_set = Some (ok bs)
     \<and> decodeRuleSet bs = ok (sorted_rules demo_rule_set)"
  by (rule rule_set_round_trip[OF demo_encodable(1)])

text \<open>The encoding is canonical: two rule sets in range have the same bytes exactly when they differ
  at most in the order in which their defaults were inserted.\<close>
theorem rule_set_encoding_canonical:
  assumes "encodable rs" and "encodable rs'"
  shows "encodeRuleSet rs = encodeRuleSet rs' \<longleftrightarrow> sorted_rules rs = sorted_rules rs'"
proof
  assume "sorted_rules rs = sorted_rules rs'"
  moreover have "spec_rule_set (sorted_rules r) = spec_rule_set r" if "encodable r" for r
    using that by (simp add: spec_rule_set_def sorted_rules_def spec_sorted_defaults encodable_def)
  ultimately have "spec_rule_set rs = spec_rule_set rs'" using assms by metis
  then show "encodeRuleSet rs = encodeRuleSet rs'"
    using assms by (simp add: encodeRuleSet_eq encodable_def)
next
  assume "encodeRuleSet rs = encodeRuleSet rs'"
  then have "spec_rule_set rs = spec_rule_set rs'"
    using assms by (simp add: encodeRuleSet_eq encodable_def)
  then show "sorted_rules rs = sorted_rules rs'"
    using read_rule_set_spec[OF assms(1)] read_rule_set_spec[OF assms(2)]
      spec_rule_set_total[OF assms(1)] by auto
qed

lemma rule_set_encoding_canonical_witness:
  "encodeRuleSet demo_rule_set = encodeRuleSet (sorted_rules demo_rule_set)"
proof -
  have "good_defaults (default_action_by_state demo_rule_set)"
    using demo_encodable(1) by (simp add: encodable_def)
  then have "sorted_rules demo_rule_set = sorted_rules (sorted_rules demo_rule_set)"
    by (simp add: sorted_rules_def sorted_defaults_idem)
  then show ?thesis using rule_set_encoding_canonical[OF demo_encodable] by blast
qed

end
