(* ===== verification/Script.thy ===== *)
theory Script
  imports Bytes
begin

text \<open>
  \<open>packages/script-templates/src\<close>: the opcodes (\<open>opcodes.ts\<close>), the script writer with its minimal
  pushes and script numbers (\<open>writer.ts\<close>) and the locktime specifications (\<open>locktime.ts\<close>). The
  reference parser of this theory reads the push table of the comment of \<open>pushData\<close>; the templates
  follow in \<open>Templates\<close>.
\<close>

section \<open>Opcodes\<close>

definition OP_0 :: int where "OP_0 = 0x00"
definition OP_FALSE :: int where "OP_FALSE = 0x00"
definition OP_1NEGATE :: int where "OP_1NEGATE = 0x4f"
definition OP_RESERVED :: int where "OP_RESERVED = 0x50"
definition OP_1 :: int where "OP_1 = 0x51"
definition OP_TRUE :: int where "OP_TRUE = 0x51"
definition OP_2 :: int where "OP_2 = 0x52"
definition OP_3 :: int where "OP_3 = 0x53"
definition OP_4 :: int where "OP_4 = 0x54"
definition OP_5 :: int where "OP_5 = 0x55"
definition OP_6 :: int where "OP_6 = 0x56"
definition OP_7 :: int where "OP_7 = 0x57"
definition OP_8 :: int where "OP_8 = 0x58"
definition OP_9 :: int where "OP_9 = 0x59"
definition OP_10 :: int where "OP_10 = 0x5a"
definition OP_11 :: int where "OP_11 = 0x5b"
definition OP_12 :: int where "OP_12 = 0x5c"
definition OP_13 :: int where "OP_13 = 0x5d"
definition OP_14 :: int where "OP_14 = 0x5e"
definition OP_15 :: int where "OP_15 = 0x5f"
definition OP_16 :: int where "OP_16 = 0x60"
definition OP_NOP :: int where "OP_NOP = 0x61"
definition OP_VER :: int where "OP_VER = 0x62"
definition OP_IF :: int where "OP_IF = 0x63"
definition OP_NOTIF :: int where "OP_NOTIF = 0x64"
definition OP_ELSE :: int where "OP_ELSE = 0x67"
definition OP_ENDIF :: int where "OP_ENDIF = 0x68"
definition OP_VERIFY :: int where "OP_VERIFY = 0x69"
definition OP_RETURN :: int where "OP_RETURN = 0x6a"
definition OP_TOALTSTACK :: int where "OP_TOALTSTACK = 0x6b"
definition OP_FROMALTSTACK :: int where "OP_FROMALTSTACK = 0x6c"
definition OP_DROP :: int where "OP_DROP = 0x75"
definition OP_DUP :: int where "OP_DUP = 0x76"
definition OP_NIP :: int where "OP_NIP = 0x77"
definition OP_OVER :: int where "OP_OVER = 0x78"
definition OP_EQUAL :: int where "OP_EQUAL = 0x87"
definition OP_EQUALVERIFY :: int where "OP_EQUALVERIFY = 0x88"
definition OP_ADD :: int where "OP_ADD = 0x93"
definition OP_SUB :: int where "OP_SUB = 0x94"
definition OP_RIPEMD160 :: int where "OP_RIPEMD160 = 0xa6"
definition OP_SHA1 :: int where "OP_SHA1 = 0xa7"
definition OP_SHA256 :: int where "OP_SHA256 = 0xa8"
definition OP_HASH160 :: int where "OP_HASH160 = 0xa9"
definition OP_HASH256 :: int where "OP_HASH256 = 0xaa"
definition OP_CODESEPARATOR :: int where "OP_CODESEPARATOR = 0xab"
definition OP_CHECKSIG :: int where "OP_CHECKSIG = 0xac"
definition OP_CHECKSIGVERIFY :: int where "OP_CHECKSIGVERIFY = 0xad"
definition OP_CHECKMULTISIG :: int where "OP_CHECKMULTISIG = 0xae"
definition OP_CHECKMULTISIGVERIFY :: int where "OP_CHECKMULTISIGVERIFY = 0xaf"

lemmas opcodes = OP_0_def OP_FALSE_def OP_1NEGATE_def OP_RESERVED_def OP_1_def OP_TRUE_def
  OP_2_def OP_3_def OP_4_def OP_5_def OP_6_def OP_7_def
  OP_8_def OP_9_def OP_10_def OP_11_def OP_12_def OP_13_def
  OP_14_def OP_15_def OP_16_def OP_NOP_def OP_VER_def OP_IF_def
  OP_NOTIF_def OP_ELSE_def OP_ENDIF_def OP_VERIFY_def OP_RETURN_def OP_TOALTSTACK_def
  OP_FROMALTSTACK_def OP_DROP_def OP_DUP_def OP_NIP_def OP_OVER_def OP_EQUAL_def
  OP_EQUALVERIFY_def OP_ADD_def OP_SUB_def OP_RIPEMD160_def OP_SHA1_def OP_SHA256_def
  OP_HASH160_def OP_HASH256_def OP_CODESEPARATOR_def OP_CHECKSIG_def OP_CHECKSIGVERIFY_def OP_CHECKMULTISIG_def
  OP_CHECKMULTISIGVERIFY_def

definition opNumber :: "int \<Rightarrow> int result" where
  "opNumber n =
     (if n = 0 then ok OP_0
      else if n < 1 \<or> n > 16 then throw ''opNumber''
      else ok (OP_1 + (n - 1)))"

section \<open>Script numbers\<close>

lemma js_ushr_8: "js_ushr v 8 = v mod 2 ^ 32 div 256"
  by (simp add: js_ushr_def drop_bit_eq_div uint_div uint_word_of_int)

text \<open>\<open>while (v > 0) { out.push(v & 0xff); v >>>= 8; }\<close>\<close>

function num_loop :: "int \<Rightarrow> int list" where
  "num_loop v = (if v > 0 then js_and v 0xff # num_loop (js_ushr v 8) else [])"
  by auto

termination
proof (relation "measure nat")
  fix v :: int assume v: "0 < v"
  have "v mod 2 ^ 32 \<le> v" using v by (simp add: zmod_le_nonneg_dividend)
  then have "v mod 2 ^ 32 div 256 \<le> v div 256" by (rule zdiv_mono1) simp
  also have "v div 256 < v" using v by (simp add: int_div_less_self)
  finally have "v mod 2 ^ 32 div 256 < v" .
  then show "(js_ushr v 8, v) \<in> measure nat" using v by (simp add: js_ushr_8)
qed simp

definition encodeScriptNum :: "int \<Rightarrow> byte list result" where
  "encodeScriptNum n =
     (if n = 0 then ok []
      else let out = num_loop \<bar>n\<bar>
        in if out = [] then throw ''encodeScriptNum''
           else let l = last out
             in ok (map u8 (if js_and l 0x80 \<noteq> 0 then out @ [if n < 0 then 0x80 else 0x00]
                            else if n < 0 then butlast out @ [js_or l 0x80]
                            else out)))"

section \<open>The writer\<close>

text \<open>The buffer is the \<open>number[]\<close> of the source; a method appends to it or throws.\<close>

type_synonym script_op = "int list \<Rightarrow> int list result"

definition script_bytes :: "int list \<Rightarrow> byte list" where
  "script_bytes buf = map u8 buf"

definition script_size :: "int list \<Rightarrow> nat" where
  "script_size buf = length buf"

definition op :: "int \<Rightarrow> script_op" where
  "op n buf = (if n < 0 \<or> n > 0xff then throw ''ScriptWriter.op'' else ok (buf @ [n]))"

definition pushData :: "byte list \<Rightarrow> script_op" where
  "pushData data buf =
     (let n = int (length data) in
      if n = 0 then ok (buf @ [OP_0])
      else if n = 1 then
        (let b = uint (hd data) in
         if b \<ge> 1 \<and> b \<le> 16 then ok (buf @ [OP_1 + b - 1])
         else if b = 0x81 then ok (buf @ [OP_1NEGATE])
         else ok (buf @ [1, b]))
      else if n \<le> 75 then ok (buf @ n # map uint data)
      else if n \<le> 255 then ok (buf @ 0x4c # n # map uint data)
      else if n \<le> 65535 then ok (buf @ 0x4d # js_and n 0xff # js_and (js_shr n 8) 0xff # map uint data)
      else ok (buf @ 0x4e # js_and n 0xff # js_and (js_shr n 8) 0xff # js_and (js_shr n 16) 0xff
                # js_and (js_shr n 24) 0xff # map uint data))"

definition pushNumber :: "int \<Rightarrow> script_op" where
  "pushNumber n buf =
     (if n \<ge> 0 \<and> n \<le> 16 then res_bind (opNumber n) (\<lambda>b. ok (buf @ [b]))
      else res_bind (encodeScriptNum n) (\<lambda>data. pushData data buf))"

definition script_hexToBytes :: "string \<Rightarrow> byte list result" where
  "script_hexToBytes hex = (if length hex mod 2 \<noteq> 0 then throw ''hexToBytes'' else parse_pairs hex)"

definition pushPubkey :: "string \<Rightarrow> script_op" where
  "pushPubkey hex buf =
     (if \<not> compressed_pubkey_hex hex then throw ''pushPubkey''
      else res_bind (script_hexToBytes hex) (\<lambda>data. pushData data buf))"

definition pushHash32 :: "string \<Rightarrow> script_op" where
  "pushHash32 hex buf =
     (if \<not> hex_string 64 hex then throw ''pushHash32''
      else res_bind (script_hexToBytes hex) (\<lambda>data. pushData data buf))"

text \<open>A test in the middle of a builder, and the calls of a builder one after the other on a new
  writer.\<close>

definition script_guard :: "bool \<Rightarrow> string \<Rightarrow> script_op" where
  "script_guard fails who buf = (if fails then throw who else ok buf)"

fun script_calls :: "script_op list \<Rightarrow> script_op" where
  "script_calls [] buf = ok buf"
| "script_calls (f # fs) buf = res_bind (f buf) (script_calls fs)"

definition script_run :: "script_op list \<Rightarrow> byte list result" where
  "script_run fs = res_bind (script_calls fs []) (\<lambda>buf. ok (script_bytes buf))"

section \<open>Locktimes\<close>

datatype lock_time_spec =
    Immediate
  | Absolute_Height int "int option"
  | Relative_Blocks int

definition immediate :: lock_time_spec where
  "immediate = Immediate"

text \<open>Callers that leave the second argument out pass its default, 0.\<close>

definition absoluteHeight :: "int \<Rightarrow> int \<Rightarrow> lock_time_spec" where
  "absoluteHeight h inputSequence = Absolute_Height h (Some inputSequence)"

definition relativeBlocks :: "int \<Rightarrow> lock_time_spec result" where
  "relativeBlocks n = (if n < 1 then throw ''relativeBlocks'' else ok (Relative_Blocks n))"

section \<open>Reading scripts\<close>

datatype script_item = Op int | Push "byte list"

definition parse_item :: "byte list \<Rightarrow> (script_item \<times> byte list) result" where
  "parse_item bs =
     (case bs of
        [] \<Rightarrow> throw ''parse_item''
      | h # rest \<Rightarrow>
          (let n = uint h in
           if 1 \<le> n \<and> n \<le> 75 then res_bind (take_bytes ''push'' n rest) (\<lambda>(d, r). ok (Push d, r))
           else if n = 0x4c then res_bind (read_le ''push'' 1 rest) (\<lambda>(m, r).
             res_bind (take_bytes ''push'' m r) (\<lambda>(d, r). ok (Push d, r)))
           else if n = 0x4d then res_bind (read_le ''push'' 2 rest) (\<lambda>(m, r).
             res_bind (take_bytes ''push'' m r) (\<lambda>(d, r). ok (Push d, r)))
           else if n = 0x4e then res_bind (read_le ''push'' 4 rest) (\<lambda>(m, r).
             res_bind (take_bytes ''push'' m r) (\<lambda>(d, r). ok (Push d, r)))
           else ok (Op n, rest)))"

text \<open>The fuel is the length of the script: every item takes at least one byte.\<close>

fun parse_items :: "nat \<Rightarrow> byte list \<Rightarrow> script_item list result" where
  "parse_items _ [] = ok []"
| "parse_items 0 (b # bs) = throw ''parse_items''"
| "parse_items (Suc n) (b # bs) =
     res_bind (parse_item (b # bs)) (\<lambda>(i, rest). res_bind (parse_items n rest) (\<lambda>is. ok (i # is)))"

definition parse_script :: "byte list \<Rightarrow> script_item list result" where
  "parse_script bs = parse_items (length bs) bs"

text \<open>What a well-behaved script number decodes to: little-endian magnitude, the top bit the sign.\<close>

definition script_num_value :: "byte list \<Rightarrow> int" where
  "script_num_value bs =
     (if bs = [] then 0
      else let l = uint (last bs); m = le_value (butlast bs); p = 256 ^ (length bs - 1)
        in if l \<ge> 0x80 then - (m + (l - 0x80) * p) else m + l * p)"

declare num_loop.simps [simp del]

lemma js_and_ff: "js_and v 0xff = v mod 256"
proof -
  have "js_and v 0xff = take_bit 8 v"
    by (rule bit_eqI)
       (auto simp: js_and_def bit_sint_iff bit_and_iff bit_word_of_int_iff bit_ff bit_take_bit_iff)
  then show ?thesis by (simp add: take_bit_eq_mod)
qed

lemma num_loop_value: "0 \<le> v \<Longrightarrow> le_value (map u8 (num_loop v)) = v mod 2 ^ 32 \<and> (\<forall>x \<in> set (num_loop v). 0 \<le> x \<and> x < 256)"
proof (induction v rule: num_loop.induct)
  case (1 v)
  show ?case
  proof (cases "v > 0")
    case True
    let ?w = "js_ushr v 8"
    have w: "?w = v mod 2 ^ 32 div 256" by (rule js_ushr_8)
    then have "0 \<le> ?w" by simp
    note IH = "1.IH"[OF True this]
    have "?w mod 2 ^ 32 = ?w" unfolding w by (intro mod_pos_pos_trivial) (simp_all add: pos_imp_zdiv_nonneg_iff)
    moreover have "v mod 256 + 256 * ?w = v mod 2 ^ 32"
    proof -
      have "v mod 256 = v mod 2 ^ 32 mod 256" by (simp add: mod_mod_cancel)
      then show ?thesis unfolding w by (simp only: mod_mult_div_eq)
    qed
    ultimately show ?thesis using IH True by (subst (1 2) num_loop.simps) (simp add: js_and_ff uint_u8)
  next
    case False
    then show ?thesis using "1.prems" by (subst (1 2) num_loop.simps) simp
  qed
qed

lemma top_bit_checked:
  "list_all (\<lambda>l. (js_and l 0x80 \<noteq> 0) = (l \<ge> 128) \<and> (l < 128 \<longrightarrow> js_or l 0x80 = l + 128)) [0..255]"
  by code_simp

lemma top_bit:
  assumes "0 \<le> l" and "l < 256"
  shows "(js_and l 0x80 \<noteq> 0) = (l \<ge> 128) \<and> (l < 128 \<longrightarrow> js_or l 0x80 = l + 128)"
  using top_bit_checked assms by (simp only: list_all_iff set_upto) force

text \<open>\<open>encodeScriptNum\<close> keeps the low 32 bits of the magnitude and the sign: script numbers round trip
  up to \<open>2 ^ 32 - 1\<close> in absolute value, and larger ones are silently cut.\<close>

lemma script_number_value:
  "\<exists>bs. encodeScriptNum n = ok bs \<and> script_num_value bs = sgn n * (\<bar>n\<bar> mod 2 ^ 32)"
proof (cases "n = 0")
  case False
  define out where "out = num_loop \<bar>n\<bar>"
  have v: "le_value (map u8 out) = \<bar>n\<bar> mod 2 ^ 32" "\<forall>x \<in> set out. 0 \<le> x \<and> x < 256"
    using num_loop_value[of "\<bar>n\<bar>"] by (simp_all add: out_def)
  have ne: "out \<noteq> []" using False by (subst out_def, subst num_loop.simps) simp
  define l where "l = last out"
  have l: "0 \<le> l" "l < 256" using v(2) ne by (simp_all add: l_def)
  have o: "out = butlast out @ [l]" using ne by (simp add: l_def)
  have m: "le_value (map u8 (butlast out)) + l * 256 ^ length (butlast out) = \<bar>n\<bar> mod 2 ^ 32"
    using v(1) l by (subst (asm) o) (simp add: le_value_append uint_u8 mult.commute)
  have len: "length out - 1 = length (butlast out)" by simp
  have enc: "encodeScriptNum n = ok (map u8 (if js_and l 0x80 \<noteq> 0 then out @ [if n < 0 then 0x80 else 0x00]
      else if n < 0 then butlast out @ [js_or l 0x80] else out))"
    using False ne by (simp add: encodeScriptNum_def out_def[symmetric] l_def[symmetric] Let_def)
  consider "l \<ge> 128" | "l < 128" "n < 0" | "l < 128" "n > 0" using False by linarith
  then show ?thesis
  proof cases
    case 1
    then have "encodeScriptNum n = ok (map u8 (out @ [if n < 0 then 0x80 else 0]))"
      using top_bit[OF l] by (simp add: enc)
    moreover have "script_num_value (map u8 (out @ [if n < 0 then 0x80 else 0])) = sgn n * (\<bar>n\<bar> mod 2 ^ 32)"
      using v(1) False by (simp add: script_num_value_def uint_u8 Let_def map_butlast[symmetric])
    ultimately show ?thesis by blast
  next
    case 2
    then have "encodeScriptNum n = ok (map u8 (butlast out @ [l + 128]))"
      using top_bit[OF l] by (simp add: enc)
    moreover have "script_num_value (map u8 (butlast out @ [l + 128])) = sgn n * (\<bar>n\<bar> mod 2 ^ 32)"
      using m 2 l by (simp add: script_num_value_def uint_u8 Let_def)
    ultimately show ?thesis by blast
  next
    case 3
    then have "encodeScriptNum n = ok (map u8 (butlast out @ [l]))"
      using top_bit[OF l] o by (simp add: enc)
    moreover have "script_num_value (map u8 (butlast out @ [l])) = sgn n * (\<bar>n\<bar> mod 2 ^ 32)"
      using m 3 l by (simp add: script_num_value_def uint_u8 Let_def)
    ultimately show ?thesis by blast
  qed
qed (simp add: encodeScriptNum_def script_num_value_def)

section \<open>What the writer writes\<close>

text \<open>\<open>segments xs is\<close>: the bytes \<open>xs\<close> are the encodings of the items \<open>is\<close>, one after the other.\<close>

definition segment :: "int list \<Rightarrow> script_item \<Rightarrow> bool" where
  "segment c i \<longleftrightarrow> c \<noteq> [] \<and> (\<forall>rest. parse_item (map u8 c @ rest) = ok (i, rest))"

definition segments :: "int list \<Rightarrow> script_item list \<Rightarrow> bool" where
  "segments xs is \<longleftrightarrow> (\<exists>cs. xs = concat cs \<and> list_all2 segment cs is)"

lemma segments_Nil [simp]: "segments [] []"
  unfolding segments_def by (rule exI[of _ "[]"]) simp

lemma segments_single: "segment c i \<Longrightarrow> segments c [i]"
  unfolding segments_def by (rule exI[of _ "[c]"]) simp

lemma segments_append: "segments xs is \<Longrightarrow> segments ys js \<Longrightarrow> segments (xs @ ys) (is @ js)"
  unfolding segments_def by (metis concat_append list_all2_appendI)

lemma parse_items_segments:
  "list_all2 segment cs is \<Longrightarrow> length (concat cs) \<le> n \<Longrightarrow> parse_items n (map u8 (concat cs)) = ok is"
proof (induction arbitrary: n rule: list_all2_induct)
  case (Cons c cs i "is")
  then have c: "c \<noteq> []" "parse_item (map u8 c @ map u8 (concat cs)) = ok (i, map u8 (concat cs))"
    by (simp_all add: segment_def)
  then obtain x xs where x: "c = x # xs" by (cases c) auto
  then obtain m where n: "n = Suc m" using Cons.prems by (cases n) auto
  have "length (concat cs) \<le> m" using Cons.prems x n by simp
  then have "parse_items m (map u8 (concat cs)) = ok is" by (rule Cons.IH)
  then show ?case using c(2) by (simp add: x n)
qed simp

lemma parse_script_segments: "segments xs is \<Longrightarrow> parse_script (script_bytes xs) = ok is"
  unfolding segments_def parse_script_def script_bytes_def using parse_items_segments by fastforce

definition writes :: "script_op \<Rightarrow> script_item list result \<Rightarrow> bool" where
  "writes f r \<longleftrightarrow> (case r of Inl e \<Rightarrow> \<forall>buf. f buf = Inl e
     | Inr is \<Rightarrow> \<exists>xs. segments xs is \<and> (\<forall>buf. f buf = ok (buf @ xs)))"

fun items_seq :: "script_item list result list \<Rightarrow> script_item list result" where
  "items_seq [] = ok []"
| "items_seq (r # rs) = res_bind r (\<lambda>a. res_bind (items_seq rs) (\<lambda>b. ok (a @ b)))"

lemma writes_calls: "list_all2 writes fs rs \<Longrightarrow> writes (script_calls fs) (items_seq rs)"
proof (induction rule: list_all2_induct)
  case Nil
  show ?case unfolding writes_def by (auto intro: exI[of _ "[]"])
next
  case (Cons f fs r rs)
  show ?case
  proof (cases r)
    case (Inl e)
    then show ?thesis using Cons.hyps(1) by (simp add: writes_def)
  next
    case (Inr is1)
    then obtain xs where xs: "segments xs is1" "\<forall>buf. f buf = ok (buf @ xs)"
      using Cons.hyps(1) by (auto simp: writes_def)
    show ?thesis
    proof (cases "items_seq rs")
      case (Inl e)
      then show ?thesis using Cons.IH xs Inr by (simp add: writes_def)
    next
      case (Inr is2)
      then obtain ys where ys: "segments ys is2" "\<forall>buf. script_calls fs buf = ok (buf @ ys)"
        using Cons.IH by (auto simp: writes_def)
      then have "segments (xs @ ys) (is1 @ is2)" using xs segments_append by blast
      then show ?thesis using xs ys Inr \<open>r = Inr is1\<close> by (auto simp: writes_def)
    qed
  qed
qed

lemma script_run_items:
  assumes "list_all2 writes fs rs"
  shows "case items_seq rs of Inl e \<Rightarrow> script_run fs = Inl e
    | Inr is \<Rightarrow> \<exists>bs. script_run fs = ok bs \<and> parse_script bs = ok is"
  using writes_calls[OF assms]
  by (auto simp: writes_def script_run_def parse_script_segments split: sum.splits)

text \<open>The single calls.\<close>

lemma segment_op: "0x4f \<le> n \<and> n \<le> 0xff \<or> n = 0 \<Longrightarrow> segment [n] (Op n)"
  by (auto simp: segment_def parse_item_def uint_u8)

lemma writes_op: "0x4f \<le> n \<and> n \<le> 0xff \<Longrightarrow> writes (op n) (ok [Op n])"
  using segments_single[OF segment_op[of n]] by (auto simp: writes_def op_def)

lemma writes_guard: "writes (script_guard b who) (if b then throw who else ok [])"
  by (auto simp: writes_def script_guard_def intro: exI[of _ "[]"])

definition number_item :: "int \<Rightarrow> script_item" where
  "number_item n = Op (if n = 0 then 0 else 0x50 + n)"

lemma writes_number: "0 \<le> n \<Longrightarrow> n \<le> 16 \<Longrightarrow> writes (pushNumber n) (ok [number_item n])"
proof -
  assume n: "0 \<le> n" "n \<le> 16"
  have "segment [if n = 0 then 0 else 0x50 + n] (number_item n)"
    unfolding number_item_def by (rule segment_op) (use n in auto)
  moreover have "pushNumber n buf = ok (buf @ [if n = 0 then 0 else 0x50 + n])" for buf
    using n by (simp add: pushNumber_def opNumber_def OP_0_def OP_1_def)
  ultimately show ?thesis unfolding writes_def using segments_single by auto
qed

text \<open>The push of a byte string, in each of the source's forms.\<close>

definition pushed_item :: "byte list \<Rightarrow> script_item" where
  "pushed_item data =
     (if data = [] then Op 0
      else if length data = 1 \<and> 1 \<le> uint (hd data) \<and> uint (hd data) \<le> 16 then Op (0x50 + uint (hd data))
      else if data = [0x81] then Op 0x4f
      else Push data)"

lemma u8_id [simp]: "map (u8 \<circ> uint) (data :: byte list) = data"
  by (simp add: o_def)

lemma pushed_item_long: "2 \<le> length data \<Longrightarrow> pushed_item data = Push data"
  by (auto simp: pushed_item_def)

lemma segment_push:
  assumes "\<And>rest. parse_item (map u8 pre @ data @ rest) = ok (Push data, rest)" and "pre \<noteq> []"
  shows "segment (pre @ map uint data) (Push data)"
  using assms by (simp add: segment_def)

text \<open>The pushes that need no length: nothing, and a single byte.\<close>

lemma short_push:
  assumes "length data \<le> 1"
  shows "\<exists>xs. segment xs (pushed_item data) \<and> (\<forall>buf. pushData data buf = ok (buf @ xs))"
proof (cases data)
  case Nil
  then show ?thesis using segment_op[of 0] by (auto simp: pushed_item_def pushData_def OP_0_def)
next
  case (Cons b bs)
  then have b: "data = [b]" using assms by simp
  have "segment [1, uint b] (Push [b])" by (simp add: segment_def parse_item_def uint_u8 take_bytes_def)
  moreover have "segment [0x50 + uint b] (Op (0x50 + uint b))" if "uint b \<le> 16"
    by (rule segment_op) (use that in auto)
  moreover have "b = 0x81 \<longleftrightarrow> uint b = 0x81" by (simp add: word_uint_eq_iff)
  ultimately show ?thesis
    using segment_op[of "0x4f"] b by (auto simp: pushed_item_def pushData_def Let_def OP_1_def OP_1NEGATE_def)
qed

lemma writes_push:
  assumes "int (length data) < 2 ^ 32"
  shows "writes (pushData data) (ok [pushed_item data])"
proof -
  define n where "n = int (length data)"
  have n: "0 \<le> n" "n < 2 ^ 32" using assms by (simp_all add: n_def)
  have len: "le_bytes 2 n = [u8 (js_and n 0xff), u8 (js_and (js_shr n 8) 0xff)]"
    "le_bytes 4 n = [u8 (js_and n 0xff), u8 (js_and (js_shr n 8) 0xff), u8 (js_and (js_shr n 16) 0xff),
       u8 (js_and (js_shr n 24) 0xff)]"
    by (simp_all add: u8_shr numeral_eq_Suc zdiv_zmult2_eq[symmetric])
  have take: "take_bytes ''push'' n (data @ rest) = ok (data, rest)" for rest by (simp add: n_def)
  consider "n \<le> 1" | "2 \<le> n" "n \<le> 75" | "76 \<le> n" "n \<le> 255" | "256 \<le> n" "n \<le> 65535" | "65536 \<le> n"
    using n by linarith
  then have "\<exists>xs. segment xs (pushed_item data) \<and> (\<forall>buf. pushData data buf = ok (buf @ xs))"
  proof cases
    case 1
    then show ?thesis by (intro short_push) (simp add: n_def)
  next
    case 2
    have "segment ([n] @ map uint data) (Push data)"
      using 2 take by (intro segment_push) (auto simp: parse_item_def uint_u8)
    then show ?thesis using 2 by (auto simp: pushed_item_def pushData_def Let_def n_def intro!: exI[of _ "n # map uint data"])
  next
    case 3
    have "le_bytes 1 n = [u8 n]" by simp
    then have "segment ([0x4c, n] @ map uint data) (Push data)"
      using 3 take read_le_append[of 1 1 n "''push''" "data @ rest" for rest]
      by (intro segment_push) (auto simp: parse_item_def uint_u8)
    then show ?thesis using 3 by (auto simp: pushed_item_def pushData_def Let_def n_def intro!: exI[of _ "0x4c # n # map uint data"])
  next
    case 4
    have "segment ([0x4d, js_and n 0xff, js_and (js_shr n 8) 0xff] @ map uint data) (Push data)"
      using 4 take read_le_append[of 2 2 n "''push''" "data @ rest" for rest, unfolded len]
      by (intro segment_push) (auto simp: parse_item_def uint_u8)
    then show ?thesis using 4 by (auto simp: pushed_item_def pushData_def Let_def n_def
          intro!: exI[of _ "0x4d # js_and n 0xff # js_and (js_shr n 8) 0xff # map uint data"])
  next
    case 5
    have "segment ([0x4e, js_and n 0xff, js_and (js_shr n 8) 0xff, js_and (js_shr n 16) 0xff,
        js_and (js_shr n 24) 0xff] @ map uint data) (Push data)"
      using n 5 take read_le_append[of 4 4 n "''push''" "data @ rest" for rest, unfolded len]
      by (intro segment_push) (auto simp: parse_item_def uint_u8)
    then show ?thesis using 5 by (auto simp: pushed_item_def pushData_def Let_def n_def
          intro!: exI[of _ "0x4e # js_and n 0xff # js_and (js_shr n 8) 0xff # js_and (js_shr n 16) 0xff
            # js_and (js_shr n 24) 0xff # map uint data"])
  qed
  then show ?thesis unfolding writes_def using segments_single by auto
qed

lemma hex_string_bytes:
  assumes "hex_string (2 * n) h"
  obtains bs where "h = toHex bs" and "length bs = n" and "script_hexToBytes h = ok bs"
proof -
  obtain bs where bs: "h = toHex bs" "2 * length bs = length h"
    using lower_hex_toHex[of h] assms by (auto simp: hex_string_def)
  then show thesis
    using assms by (intro that) (auto simp: hex_string_def script_hexToBytes_def parse_pairs_toHex)
qed

definition hex_bytes :: "string \<Rightarrow> byte list" where
  "hex_bytes h = (case script_hexToBytes h of Inr bs \<Rightarrow> bs | Inl _ \<Rightarrow> [])"

lemma compressed_hex:
  assumes "compressed_pubkey_hex h"
  shows "hex_string 66 h"
proof -
  have d: "hex_string 64 (drop 2 h)" and t: "take 2 h = ''02'' \<or> take 2 h = ''03''"
    using assms by (auto simp: compressed_pubkey_hex_def)
  have t2: "length (take 2 h) = 2 \<and> list_all is_lower_hex (take 2 h)"
    using t by (elim disjE) (simp_all add: is_lower_hex_def)
  have "h = take 2 h @ drop 2 h" by simp
  then have "length h = length (take 2 h) + length (drop 2 h)"
    "list_all is_lower_hex h = (list_all is_lower_hex (take 2 h) \<and> list_all is_lower_hex (drop 2 h))"
    by (metis length_append, metis list_all_append)
  then show ?thesis using d t2 by (simp only: hex_string_def) simp
qed

lemma writes_pubkey:
  "writes (pushPubkey h) (if compressed_pubkey_hex h then ok [Push (hex_bytes h)] else throw ''pushPubkey'')"
proof (cases "compressed_pubkey_hex h")
  case True
  then have "hex_string (2 * 33) h" using compressed_hex by simp
  then obtain bs where bs: "length bs = 33" "script_hexToBytes h = ok bs" by (rule hex_string_bytes)
  then have "writes (pushData bs) (ok [Push bs])" using writes_push[of bs] by (simp add: pushed_item_long)
  then show ?thesis using True bs by (simp add: writes_def pushPubkey_def hex_bytes_def)
qed (simp add: writes_def pushPubkey_def)

lemma writes_hash32:
  "writes (pushHash32 h) (if hex_string 64 h then ok [Push (hex_bytes h)] else throw ''pushHash32'')"
proof (cases "hex_string 64 h")
  case True
  then have "hex_string (2 * 32) h" by simp
  then obtain bs where bs: "length bs = 32" "script_hexToBytes h = ok bs" by (rule hex_string_bytes)
  then have "writes (pushData bs) (ok [Push bs])" using writes_push[of bs] by (simp add: pushed_item_long)
  then show ?thesis using True bs by (simp add: writes_def pushHash32_def hex_bytes_def)
qed (simp add: writes_def pushHash32_def)

end
