(* ===== verification/Templates.thy ===== *)
theory Templates
  imports Script
begin

text \<open>
  The locking-script builders of \<open>packages/script-templates/src\<close>, one definition per template, each
  as the sequence of writer calls the source makes and the table of pre-signed branches with their
  locktimes. The \<open>BranchSpec\<close> interface that every file repeats is \<open>branch_spec\<close>.
\<close>

record branch_spec =
  branch_name :: string
  branch_locktime :: lock_time_spec

record built_template =
  locking_script :: "byte list"
  branches :: "branch_spec list"

definition branch :: "string \<Rightarrow> lock_time_spec \<Rightarrow> branch_spec" where
  "branch n l = \<lparr> branch_name = n, branch_locktime = l \<rparr>"

text \<open>\<open>pushNumber(n); for (pk of pks) pushPubkey(pk); pushNumber(n); op(OP_CHECKMULTISIG)\<close>.\<close>

definition multisig :: "string list \<Rightarrow> script_op list" where
  "multisig pks = [pushNumber (int (length pks))] @ map pushPubkey pks
     @ [pushNumber (int (length pks)), op OP_CHECKMULTISIG]"

section \<open>The templates\<close>

record table_root_params =
  trp_seated_pubkeys :: "string list"
  trp_recovery_height :: int

definition buildTableRoot :: "table_root_params \<Rightarrow> built_template result" where
  "buildTableRoot p =
     (if trp_seated_pubkeys p = [] then throw ''buildTableRoot''
      else if length (trp_seated_pubkeys p) > 16 then throw ''buildTableRoot''
      else res_bind (script_run (multisig (trp_seated_pubkeys p))) (\<lambda>s.
        ok \<lparr> locking_script = s,
             branches = [branch ''cooperative'' immediate,
                         branch ''recovery'' (absoluteHeight (trp_recovery_height p) 0)] \<rparr>))"

definition buildTableRootLockingScript :: "table_root_params \<Rightarrow> byte list result" where
  "buildTableRootLockingScript p = res_bind (buildTableRoot p) (\<lambda>b. ok (locking_script b))"

record stake_lock_params =
  slp_player_pubkey :: string
  slp_operator_pubkey :: string
  slp_expected_settlement_hash :: string
  slp_recovery_height :: int

definition buildStakeLock :: "stake_lock_params \<Rightarrow> built_template result" where
  "buildStakeLock p =
     res_bind (script_run [
       op OP_IF,
       pushNumber 2, pushPubkey (slp_player_pubkey p), pushPubkey (slp_operator_pubkey p),
       pushNumber 2, op OP_CHECKMULTISIG,
       op OP_ELSE,
       op OP_IF,
       op OP_HASH256, pushHash32 (slp_expected_settlement_hash p), op OP_EQUALVERIFY,
       pushPubkey (slp_player_pubkey p), op OP_CHECKSIG,
       op OP_ELSE,
       pushPubkey (slp_player_pubkey p), op OP_CHECKSIG,
       op OP_ENDIF,
       op OP_ENDIF]) (\<lambda>s.
     ok \<lparr> locking_script = s,
          branches = [branch ''cooperative'' immediate, branch ''winner_claim'' immediate,
                      branch ''refund'' (absoluteHeight (slp_recovery_height p) 0)] \<rparr>)"

definition buildStakeLockScript :: "stake_lock_params \<Rightarrow> byte list result" where
  "buildStakeLockScript p = res_bind (buildStakeLock p) (\<lambda>b. ok (locking_script b))"

record pot_lock_params =
  plp_seated_pubkeys :: "string list"
  plp_winner_proof_hash :: string
  plp_winner_pubkey :: string
  plp_refund_pubkey :: string
  plp_recovery_height :: int

definition buildPotLock :: "pot_lock_params \<Rightarrow> built_template result" where
  "buildPotLock p =
     (if plp_seated_pubkeys p = [] then throw ''buildPotLock''
      else if length (plp_seated_pubkeys p) > 16 then throw ''buildPotLock''
      else res_bind (script_run (
        [op OP_IF] @ multisig (plp_seated_pubkeys p)
        @ [op OP_ELSE,
           op OP_IF,
           op OP_SHA256, pushHash32 (plp_winner_proof_hash p), op OP_EQUALVERIFY,
           pushPubkey (plp_winner_pubkey p), op OP_CHECKSIG,
           op OP_ELSE,
           pushPubkey (plp_refund_pubkey p), op OP_CHECKSIG,
           op OP_ENDIF,
           op OP_ENDIF])) (\<lambda>s.
        ok \<lparr> locking_script = s,
             branches = [branch ''cooperative'' immediate, branch ''winner_claim'' immediate,
                         branch ''refund'' (absoluteHeight (plp_recovery_height p) 0)] \<rparr>))"

definition buildPotLockScript :: "pot_lock_params \<Rightarrow> byte list result" where
  "buildPotLockScript p = res_bind (buildPotLock p) (\<lambda>b. ok (locking_script b))"

record entropy_commit_params =
  ecp_commitment_hash :: string
  ecp_player_pubkey :: string
  ecp_other_pubkeys :: "string list"
  ecp_decision_timeout_blocks :: int
  ecp_recovery_height :: int

definition buildEntropyCommit :: "entropy_commit_params \<Rightarrow> built_template result" where
  "buildEntropyCommit p =
     res_bind (script_run (
       [op OP_IF,
        op OP_SHA256, pushHash32 (ecp_commitment_hash p), op OP_EQUALVERIFY,
        pushPubkey (ecp_player_pubkey p), op OP_CHECKSIG,
        op OP_ELSE,
        op OP_IF]
       @ (if ecp_other_pubkeys p = [] then [op OP_RETURN]
          else script_guard (length (ecp_other_pubkeys p) > 16) ''buildEntropyCommit''
               # multisig (ecp_other_pubkeys p))
       @ [op OP_ELSE,
          pushPubkey (ecp_player_pubkey p), op OP_CHECKSIG,
          op OP_ENDIF,
          op OP_ENDIF])) (\<lambda>s.
     res_bind (relativeBlocks (ecp_decision_timeout_blocks p)) (\<lambda>rel.
     ok \<lparr> locking_script = s,
          branches = [branch ''reveal'' immediate, branch ''cooperative_fallback'' rel,
                      branch ''refund'' (absoluteHeight (ecp_recovery_height p) 0)] \<rparr>))"

definition buildEntropyCommitScript :: "entropy_commit_params \<Rightarrow> byte list result" where
  "buildEntropyCommitScript p = res_bind (buildEntropyCommit p) (\<lambda>b. ok (locking_script b))"

record card_custody_params =
  ccp_face_commitment :: string
  ccp_holder_pubkey :: string
  ccp_original_funder_pubkey :: string
  ccp_recovery_height :: int

definition buildCardCustody :: "card_custody_params \<Rightarrow> built_template result" where
  "buildCardCustody p =
     res_bind (script_run [
       op OP_IF,
       op OP_HASH256, pushHash32 (ccp_face_commitment p), op OP_EQUALVERIFY,
       pushPubkey (ccp_holder_pubkey p), op OP_CHECKSIG,
       op OP_ELSE,
       op OP_IF,
       pushPubkey (ccp_holder_pubkey p), op OP_CHECKSIG,
       op OP_ELSE,
       pushPubkey (ccp_original_funder_pubkey p), op OP_CHECKSIG,
       op OP_ENDIF,
       op OP_ENDIF]) (\<lambda>s.
     ok \<lparr> locking_script = s,
          branches = [branch ''reveal'' immediate, branch ''fold_surrender'' immediate,
                      branch ''recovery_refund'' (absoluteHeight (ccp_recovery_height p) 0)] \<rparr>)"

definition buildCardCustodyScript :: "card_custody_params \<Rightarrow> byte list result" where
  "buildCardCustodyScript p = res_bind (buildCardCustody p) (\<lambda>b. ok (locking_script b))"

record round_state_params =
  rsp_successor_template_hash :: string
  rsp_timeout_template_hash :: string
  rsp_acting_player_pubkey :: string
  rsp_seated_pubkeys :: "string list"
  rsp_decision_timeout_blocks :: int
  rsp_recovery_height :: int

definition buildRoundState :: "round_state_params \<Rightarrow> built_template result" where
  "buildRoundState p =
     (if rsp_seated_pubkeys p = [] then throw ''buildRoundState''
      else if length (rsp_seated_pubkeys p) > 16 then throw ''buildRoundState''
      else res_bind (script_run (
        [op OP_IF,
         op OP_HASH256, pushHash32 (rsp_successor_template_hash p), op OP_EQUALVERIFY,
         pushPubkey (rsp_acting_player_pubkey p), op OP_CHECKSIG,
         op OP_ELSE,
         op OP_IF,
         op OP_HASH256, pushHash32 (rsp_timeout_template_hash p), op OP_EQUALVERIFY]
        @ multisig (rsp_seated_pubkeys p)
        @ [op OP_ELSE]
        @ multisig (rsp_seated_pubkeys p)
        @ [op OP_ENDIF,
           op OP_ENDIF])) (\<lambda>s.
      res_bind (relativeBlocks (rsp_decision_timeout_blocks p)) (\<lambda>rel.
        ok \<lparr> locking_script = s,
             branches = [branch ''action'' immediate, branch ''timeout'' rel,
                         branch ''recovery'' (absoluteHeight (rsp_recovery_height p) 0)] \<rparr>)))"

definition buildRoundStateScript :: "round_state_params \<Rightarrow> byte list result" where
  "buildRoundStateScript p = res_bind (buildRoundState p) (\<lambda>b. ok (locking_script b))"

record settle_claim_params =
  scp_settlement_commitment :: string
  scp_winner_pubkey :: string

definition buildSettleClaimScript :: "settle_claim_params \<Rightarrow> byte list result" where
  "buildSettleClaimScript p = script_run [
     op OP_HASH256, pushHash32 (scp_settlement_commitment p), op OP_EQUALVERIFY,
     pushPubkey (scp_winner_pubkey p), op OP_CHECKSIG]"

record fold_surrender_params =
  fsp_original_funder_pubkey :: string
  fsp_recovery_height :: int

definition buildFoldSurrender :: "fold_surrender_params \<Rightarrow> built_template result" where
  "buildFoldSurrender p =
     res_bind (script_run [pushPubkey (fsp_original_funder_pubkey p), op OP_CHECKSIG]) (\<lambda>s.
     ok \<lparr> locking_script = s,
          branches = [branch ''recovery_refund'' (absoluteHeight (fsp_recovery_height p) 0)] \<rparr>)"

definition buildFoldSurrenderScript :: "fold_surrender_params \<Rightarrow> byte list result" where
  "buildFoldSurrenderScript p = res_bind (buildFoldSurrender p) (\<lambda>b. ok (locking_script b))"

record reveal_proof_params =
  rpp_card_commitment :: string
  rpp_signer_pubkey :: string

definition buildRevealProofScript :: "reveal_proof_params \<Rightarrow> byte list result" where
  "buildRevealProofScript p = script_run [
     op OP_HASH256, pushHash32 (rpp_card_commitment p), op OP_EQUALVERIFY,
     pushPubkey (rpp_signer_pubkey p), op OP_CHECKSIG]"

record timeout_branch_params =
  tbp_decision_timeout_blocks :: int
  tbp_timeout_template_hash :: string
  tbp_authoriser_pubkeys :: "string list"

record built_branch =
  bb_locking_script :: "byte list"
  bb_locktime :: lock_time_spec

definition buildTimeoutBranch :: "timeout_branch_params \<Rightarrow> built_branch result" where
  "buildTimeoutBranch p =
     (if tbp_authoriser_pubkeys p = [] then throw ''buildTimeoutBranch''
      else if length (tbp_authoriser_pubkeys p) > 16 then throw ''buildTimeoutBranch''
      else res_bind (script_run (
        [op OP_HASH256, pushHash32 (tbp_timeout_template_hash p), op OP_EQUALVERIFY]
        @ multisig (tbp_authoriser_pubkeys p))) (\<lambda>s.
      res_bind (relativeBlocks (tbp_decision_timeout_blocks p)) (\<lambda>rel.
        ok \<lparr> bb_locking_script = s, bb_locktime = rel \<rparr>)))"

definition buildTimeoutBranchScript :: "timeout_branch_params \<Rightarrow> byte list result" where
  "buildTimeoutBranchScript p = res_bind (buildTimeoutBranch p) (\<lambda>b. ok (bb_locking_script b))"

record recovery_branch_params =
  rbp_recovery_height :: int
  rbp_signer_pubkey :: string

definition buildRecoveryBranchTemplate :: "recovery_branch_params \<Rightarrow> built_branch result" where
  "buildRecoveryBranchTemplate p =
     res_bind (script_run [pushPubkey (rbp_signer_pubkey p), op OP_CHECKSIG]) (\<lambda>s.
       ok \<lparr> bb_locking_script = s, bb_locktime = absoluteHeight (rbp_recovery_height p) 0 \<rparr>)"

definition buildRecoveryBranch :: "recovery_branch_params \<Rightarrow> byte list result" where
  "buildRecoveryBranch p = res_bind (buildRecoveryBranchTemplate p) (\<lambda>b. ok (bb_locking_script b))"

section \<open>What the templates say\<close>

text \<open>All the templates, with the script each one builds.\<close>

datatype template =
    Table_Root table_root_params
  | Stake_Lock stake_lock_params
  | Pot_Lock pot_lock_params
  | Entropy_Commit entropy_commit_params
  | Card_Custody card_custody_params
  | Round_State round_state_params
  | Settle_Claim settle_claim_params
  | Fold_Surrender fold_surrender_params
  | Reveal_Proof reveal_proof_params
  | Timeout_Branch timeout_branch_params
  | Recovery_Branch recovery_branch_params

fun build_script :: "template \<Rightarrow> byte list result" where
  "build_script (Table_Root p) = buildTableRootLockingScript p"
| "build_script (Stake_Lock p) = buildStakeLockScript p"
| "build_script (Pot_Lock p) = buildPotLockScript p"
| "build_script (Entropy_Commit p) = buildEntropyCommitScript p"
| "build_script (Card_Custody p) = buildCardCustodyScript p"
| "build_script (Round_State p) = buildRoundStateScript p"
| "build_script (Settle_Claim p) = buildSettleClaimScript p"
| "build_script (Fold_Surrender p) = buildFoldSurrenderScript p"
| "build_script (Reveal_Proof p) = buildRevealProofScript p"
| "build_script (Timeout_Branch p) = buildTimeoutBranchScript p"
| "build_script (Recovery_Branch p) = buildRecoveryBranch p"

text \<open>The intended contents, item by item: an n-of-n multisig, a hash lock with a signature, a bare
  signature, and a two-way branch.\<close>

definition all_of :: "string list \<Rightarrow> script_item list" where
  "all_of pks = [number_item (int (length pks))] @ map (\<lambda>k. Push (hex_bytes k)) pks
     @ [number_item (int (length pks)), Op 0xae]"

definition signed_by :: "string \<Rightarrow> script_item list" where
  "signed_by k = [Push (hex_bytes k), Op 0xac]"

definition preimage_of :: "int \<Rightarrow> string \<Rightarrow> script_item list" where
  "preimage_of hash_op h = [Op hash_op, Push (hex_bytes h), Op 0x88]"

definition either :: "script_item list \<Rightarrow> script_item list \<Rightarrow> script_item list" where
  "either a b = [Op 0x63] @ a @ [Op 0x67] @ b @ [Op 0x68]"

fun template_items :: "template \<Rightarrow> script_item list" where
  "template_items (Table_Root p) = all_of (trp_seated_pubkeys p)"
| "template_items (Stake_Lock p) =
     either (all_of [slp_player_pubkey p, slp_operator_pubkey p])
       (either (preimage_of 0xaa (slp_expected_settlement_hash p) @ signed_by (slp_player_pubkey p))
         (signed_by (slp_player_pubkey p)))"
| "template_items (Pot_Lock p) =
     either (all_of (plp_seated_pubkeys p))
       (either (preimage_of 0xa8 (plp_winner_proof_hash p) @ signed_by (plp_winner_pubkey p))
         (signed_by (plp_refund_pubkey p)))"
| "template_items (Entropy_Commit p) =
     either (preimage_of 0xa8 (ecp_commitment_hash p) @ signed_by (ecp_player_pubkey p))
       (either (if ecp_other_pubkeys p = [] then [Op 0x6a] else all_of (ecp_other_pubkeys p))
         (signed_by (ecp_player_pubkey p)))"
| "template_items (Card_Custody p) =
     either (preimage_of 0xaa (ccp_face_commitment p) @ signed_by (ccp_holder_pubkey p))
       (either (signed_by (ccp_holder_pubkey p)) (signed_by (ccp_original_funder_pubkey p)))"
| "template_items (Round_State p) =
     either (preimage_of 0xaa (rsp_successor_template_hash p) @ signed_by (rsp_acting_player_pubkey p))
       (either (preimage_of 0xaa (rsp_timeout_template_hash p) @ all_of (rsp_seated_pubkeys p))
         (all_of (rsp_seated_pubkeys p)))"
| "template_items (Settle_Claim p) =
     preimage_of 0xaa (scp_settlement_commitment p) @ signed_by (scp_winner_pubkey p)"
| "template_items (Fold_Surrender p) = signed_by (fsp_original_funder_pubkey p)"
| "template_items (Reveal_Proof p) =
     preimage_of 0xaa (rpp_card_commitment p) @ signed_by (rpp_signer_pubkey p)"
| "template_items (Timeout_Branch p) =
     preimage_of 0xaa (tbp_timeout_template_hash p) @ all_of (tbp_authoriser_pubkeys p)"
| "template_items (Recovery_Branch p) = signed_by (rbp_signer_pubkey p)"

definition quorum_ok :: "string list \<Rightarrow> bool" where
  "quorum_ok pks \<longleftrightarrow> pks \<noteq> [] \<and> length pks \<le> 16 \<and> list_all compressed_pubkey_hex pks"

fun template_ok :: "template \<Rightarrow> bool" where
  "template_ok (Table_Root p) = quorum_ok (trp_seated_pubkeys p)"
| "template_ok (Stake_Lock p) = (compressed_pubkey_hex (slp_player_pubkey p) \<and>
     compressed_pubkey_hex (slp_operator_pubkey p) \<and> hex_string 64 (slp_expected_settlement_hash p))"
| "template_ok (Pot_Lock p) = (quorum_ok (plp_seated_pubkeys p) \<and> hex_string 64 (plp_winner_proof_hash p) \<and>
     compressed_pubkey_hex (plp_winner_pubkey p) \<and> compressed_pubkey_hex (plp_refund_pubkey p))"
| "template_ok (Entropy_Commit p) = (hex_string 64 (ecp_commitment_hash p) \<and>
     compressed_pubkey_hex (ecp_player_pubkey p) \<and> length (ecp_other_pubkeys p) \<le> 16 \<and>
     list_all compressed_pubkey_hex (ecp_other_pubkeys p) \<and> ecp_decision_timeout_blocks p \<ge> 1)"
| "template_ok (Card_Custody p) = (hex_string 64 (ccp_face_commitment p) \<and>
     compressed_pubkey_hex (ccp_holder_pubkey p) \<and> compressed_pubkey_hex (ccp_original_funder_pubkey p))"
| "template_ok (Round_State p) = (quorum_ok (rsp_seated_pubkeys p) \<and>
     hex_string 64 (rsp_successor_template_hash p) \<and> hex_string 64 (rsp_timeout_template_hash p) \<and>
     compressed_pubkey_hex (rsp_acting_player_pubkey p) \<and> rsp_decision_timeout_blocks p \<ge> 1)"
| "template_ok (Settle_Claim p) = (hex_string 64 (scp_settlement_commitment p) \<and>
     compressed_pubkey_hex (scp_winner_pubkey p))"
| "template_ok (Fold_Surrender p) = compressed_pubkey_hex (fsp_original_funder_pubkey p)"
| "template_ok (Reveal_Proof p) = (hex_string 64 (rpp_card_commitment p) \<and>
     compressed_pubkey_hex (rpp_signer_pubkey p))"
| "template_ok (Timeout_Branch p) = (quorum_ok (tbp_authoriser_pubkeys p) \<and>
     hex_string 64 (tbp_timeout_template_hash p) \<and> tbp_decision_timeout_blocks p \<ge> 1)"
| "template_ok (Recovery_Branch p) = compressed_pubkey_hex (rbp_signer_pubkey p)"

text \<open>Every \<open>OP_IF\<close> is closed, and neither \<open>OP_CHECKLOCKTIMEVERIFY\<close> nor \<open>OP_CHECKSEQUENCEVERIFY\<close>
  occurs.\<close>

fun if_depth :: "nat \<Rightarrow> script_item list \<Rightarrow> nat option" where
  "if_depth d [] = Some d"
| "if_depth d (i # is) =
     (if i = Op 0x63 \<or> i = Op 0x64 then if_depth (Suc d) is
      else if i = Op 0x68 then (case d of 0 \<Rightarrow> None | Suc k \<Rightarrow> if_depth k is)
      else if_depth d is)"

definition no_timelock :: "script_item \<Rightarrow> bool" where
  "no_timelock i \<longleftrightarrow> i \<noteq> Op 0xb1 \<and> i \<noteq> Op 0xb2"

section \<open>Lemmas\<close>

lemma items_seq_all_ok:
  "case items_seq rs of Inl e \<Rightarrow> \<not> list_all (\<lambda>r. \<not> isl r) rs
     | Inr is \<Rightarrow> list_all (\<lambda>r. \<not> isl r) rs \<and> is = concat (map projr rs)"
proof (induction rs)
  case (Cons r rs)
  then show ?case by (cases r; cases "items_seq rs") auto
qed simp

lemma script_run_spec:
  assumes "list_all2 writes fs rs"
  shows "case script_run fs of Inl e \<Rightarrow> \<not> list_all (\<lambda>r. \<not> isl r) rs
    | Inr bs \<Rightarrow> list_all (\<lambda>r. \<not> isl r) rs \<and> parse_script bs = ok (concat (map projr rs))"
  using script_run_items[OF assms] items_seq_all_ok[of rs] by (auto split: sum.splits)

definition key_res :: "string \<Rightarrow> script_item list result" where
  "key_res h = (if compressed_pubkey_hex h then ok [Push (hex_bytes h)] else throw ''pushPubkey'')"

definition hash_res :: "string \<Rightarrow> script_item list result" where
  "hash_res h = (if hex_string 64 h then ok [Push (hex_bytes h)] else throw ''pushHash32'')"

definition multisig_res :: "string list \<Rightarrow> script_item list result list" where
  "multisig_res pks = [ok [number_item (int (length pks))]] @ map key_res pks
     @ [ok [number_item (int (length pks))], ok [Op 0xae]]"

lemma writes_calls_single [simp]:
  "writes (pushPubkey h) (key_res h)" "writes (pushHash32 h) (hash_res h)"
  "writes (op OP_IF) (ok [Op 0x63])" "writes (op OP_ELSE) (ok [Op 0x67])" "writes (op OP_ENDIF) (ok [Op 0x68])"
  "writes (op OP_HASH256) (ok [Op 0xaa])" "writes (op OP_SHA256) (ok [Op 0xa8])"
  "writes (op OP_EQUALVERIFY) (ok [Op 0x88])" "writes (op OP_CHECKSIG) (ok [Op 0xac])"
  "writes (op OP_CHECKMULTISIG) (ok [Op 0xae])" "writes (op OP_RETURN) (ok [Op 0x6a])"
  "writes (pushNumber 2) (ok [number_item 2])"
  using writes_pubkey writes_hash32 writes_number
  by (simp_all add: key_res_def hash_res_def opcodes writes_op)

lemma writes_multisig: "length pks \<le> 16 \<Longrightarrow> list_all2 writes (multisig pks) (multisig_res pks)"
  unfolding multisig_def multisig_res_def
  by (intro list_all2_appendI list.rel_intros)
     (auto intro: writes_number simp: list_all2_map1 list_all2_map2 list_all2_same)

lemma res_ok_simps [simp]:
  "isl (key_res h) = (\<not> compressed_pubkey_hex h)" "isl (hash_res h) = (\<not> hex_string 64 h)"
  "compressed_pubkey_hex h \<Longrightarrow> projr (key_res h) = [Push (hex_bytes h)]"
  "hex_string 64 h \<Longrightarrow> projr (hash_res h) = [Push (hex_bytes h)]"
  by (simp_all add: key_res_def hash_res_def)

lemma multisig_res_ok: "list_all (\<lambda>r. \<not> isl r) (multisig_res pks) = list_all compressed_pubkey_hex pks"
  by (simp add: multisig_res_def list_all_iff)

lemma multisig_res_items:
  "list_all compressed_pubkey_hex pks \<Longrightarrow> concat (map projr (multisig_res pks)) = all_of pks"
proof -
  assume "list_all compressed_pubkey_hex pks"
  then have "concat (map (\<lambda>x. projr (key_res x)) pks) = map (\<lambda>k. Push (hex_bytes k)) pks"
    by (induction pks) simp_all
  then show ?thesis by (simp add: multisig_res_def all_of_def o_def)
qed

lemma if_depth_append: "if_depth d (is @ js) = (case if_depth d is of None \<Rightarrow> None | Some k \<Rightarrow> if_depth k js)"
  by (induction d "is" rule: if_depth.induct) (auto split: nat.splits)

lemma if_depth_blocks [simp]:
  "if_depth d (signed_by k) = Some d" "h \<notin> {0x63, 0x64, 0x68} \<Longrightarrow> if_depth d (preimage_of h x) = Some d"
  "length pks \<le> 16 \<Longrightarrow> if_depth d (all_of pks) = Some d"
proof -
  show "if_depth d (signed_by k) = Some d" by (simp add: signed_by_def)
  show "h \<notin> {0x63, 0x64, 0x68} \<Longrightarrow> if_depth d (preimage_of h x) = Some d" by (simp add: preimage_of_def)
  assume l: "length pks \<le> 16"
  have p: "if_depth d (map (\<lambda>k. Push (hex_bytes k)) pks) = Some d" for d by (induction pks) simp_all
  show "if_depth d (all_of pks) = Some d"
    using l p by (simp add: all_of_def number_item_def if_depth_append)
qed

lemma if_depth_either [simp]:
  "if_depth (Suc d) a = Some (Suc d) \<Longrightarrow> if_depth (Suc d) b = Some (Suc d) \<Longrightarrow> if_depth d (either a b) = Some d"
  by (simp add: either_def if_depth_append)

lemma no_timelock_blocks [simp]:
  "list_all no_timelock (signed_by k)" "h \<notin> {0xb1, 0xb2} \<Longrightarrow> list_all no_timelock (preimage_of h x)"
  "length pks \<le> 16 \<Longrightarrow> list_all no_timelock (all_of pks)"
  "list_all no_timelock (either a b) = (list_all no_timelock a \<and> list_all no_timelock b)"
  by (auto simp: signed_by_def preimage_of_def all_of_def either_def no_timelock_def number_item_def list_all_iff)

definition says :: "byte list result \<Rightarrow> bool \<Rightarrow> script_item list \<Rightarrow> bool" where
  "says r c is \<longleftrightarrow> (case r of Inl e \<Rightarrow> \<not> c | Inr bs \<Rightarrow> c \<and> parse_script bs = ok is)"

lemma says_run:
  assumes "list_all2 writes fs rs" and "c = list_all (\<lambda>r. \<not> isl r) rs"
    and "c \<Longrightarrow> concat (map projr rs) = is"
  shows "says (script_run fs) c is"
  using script_run_spec[OF assms(1)] assms(2,3) by (auto simp: says_def split: sum.splits)

lemma says_wrapped:
  "says r c is \<Longrightarrow> (\<And>s. g (f s) = s) \<Longrightarrow> says (res_bind (res_bind r (\<lambda>s. ok (f s))) (\<lambda>b. ok (g b))) c is"
  by (cases r) (simp_all add: says_def)

lemma says_relative:
  "says r c is \<Longrightarrow> (\<And>s rel. g (f s rel) = s) \<Longrightarrow>
     says (res_bind (res_bind r (\<lambda>s. res_bind (relativeBlocks n) (\<lambda>rel. ok (f s rel)))) (\<lambda>b. ok (g b))) (c \<and> n \<ge> 1) is"
  by (cases r) (auto simp: says_def relativeBlocks_def)

lemma says_unless:
  "says (if b then throw who else r) c is" if "b \<Longrightarrow> \<not> c" "\<not> b \<Longrightarrow> says r c is"
  using that by (auto simp: says_def)

lemma res_bind_if: "res_bind (if b then throw who else r) f = (if b then throw who else res_bind r f)"
  by simp

lemmas writes_list = list_all2_appendI writes_multisig list.rel_intros writes_calls_single writes_guard

text \<open>One lemma per template.\<close>

lemma says_table_root:
  assumes Table_Root: "t = Table_Root p"
  shows "says (build_script t) (template_ok t) (template_items t)"
proof -
  have "says (script_run (multisig (trp_seated_pubkeys p))) (quorum_ok (trp_seated_pubkeys p)) (all_of (trp_seated_pubkeys p))"
    if "trp_seated_pubkeys p \<noteq> []" "length (trp_seated_pubkeys p) \<le> 16"
    by (rule says_run[OF writes_multisig]) (use that in \<open>simp_all add: quorum_ok_def multisig_res_ok multisig_res_items\<close>)
  then show ?thesis unfolding Table_Root build_script.simps buildTableRootLockingScript_def buildTableRoot_def
      res_bind_if template_ok.simps template_items.simps
    by (intro says_unless says_wrapped) (auto simp: quorum_ok_def)
qed

lemma says_stake_lock:
  assumes Stake_Lock: "t = Stake_Lock p"
  shows "says (build_script t) (template_ok t) (template_items t)"
  unfolding Stake_Lock build_script.simps buildStakeLockScript_def buildStakeLock_def
      template_ok.simps template_items.simps
  by (rule says_wrapped, rule says_run, (rule writes_list)+)
       (auto simp: either_def preimage_of_def signed_by_def all_of_def)

lemma says_pot_lock:
  assumes Pot_Lock: "t = Pot_Lock p"
  shows "says (build_script t) (template_ok t) (template_items t)"
proof -
  let ?k = "plp_seated_pubkeys p"
  have "says (script_run ([op OP_IF] @ multisig ?k @ [op OP_ELSE, op OP_IF, op OP_SHA256,
      pushHash32 (plp_winner_proof_hash p), op OP_EQUALVERIFY, pushPubkey (plp_winner_pubkey p), op OP_CHECKSIG,
      op OP_ELSE, pushPubkey (plp_refund_pubkey p), op OP_CHECKSIG, op OP_ENDIF, op OP_ENDIF]))
      (template_ok t) (template_items t)" if l: "?k \<noteq> []" "length ?k \<le> 16"
    by (rule says_run, (rule writes_list l)+)
       (use l in \<open>auto simp: Pot_Lock quorum_ok_def multisig_res_ok multisig_res_items either_def preimage_of_def signed_by_def\<close>)
  then show ?thesis unfolding Pot_Lock build_script.simps buildPotLockScript_def buildPotLock_def res_bind_if
    by (intro says_unless says_wrapped) (auto simp: quorum_ok_def)
qed

lemma says_entropy_commit:
  assumes Entropy_Commit: "t = Entropy_Commit p"
  shows "says (build_script t) (template_ok t) (template_items t)"
proof -
  let ?k = "ecp_other_pubkeys p"
  let ?pre = "[op OP_IF, op OP_SHA256, pushHash32 (ecp_commitment_hash p), op OP_EQUALVERIFY,
        pushPubkey (ecp_player_pubkey p), op OP_CHECKSIG, op OP_ELSE, op OP_IF]"
  let ?post = "[op OP_ELSE, pushPubkey (ecp_player_pubkey p), op OP_CHECKSIG, op OP_ENDIF, op OP_ENDIF]"
  let ?mid = "if ?k = [] then [op OP_RETURN]
          else script_guard (length ?k > 16) ''buildEntropyCommit'' # multisig ?k"
  let ?c = "hex_string 64 (ecp_commitment_hash p) \<and> compressed_pubkey_hex (ecp_player_pubkey p)
      \<and> length ?k \<le> 16 \<and> list_all compressed_pubkey_hex ?k"
  have "says (script_run (?pre @ ?mid @ ?post)) ?c (template_items t)"
  proof (cases "?k = []")
    case True
    show ?thesis unfolding True if_P[OF refl]
      by (rule says_run, (rule writes_list)+)
         (auto simp: True Entropy_Commit either_def preimage_of_def signed_by_def)
  next
    case False
    show ?thesis
    proof (cases "length ?k \<le> 16")
      case True
      show ?thesis unfolding if_not_P[OF False]
        by (rule says_run, (rule writes_list True)+)
           (use False True in \<open>auto simp: Entropy_Commit multisig_res_ok multisig_res_items either_def
              preimage_of_def signed_by_def\<close>)
    next
      case long: False
      have "script_calls (?pre @ ?mid @ ?post) [] = Inl e \<Longrightarrow> says (script_run (?pre @ ?mid @ ?post)) ?c (template_items t)" for e
        using long by (simp add: script_run_def says_def)
      moreover have "\<exists>e. script_calls (?pre @ ?mid @ ?post) [] = Inl e"
        using False long
        by (simp add: script_guard_def op_def opcodes pushHash32_def pushPubkey_def res_bind_def split: sum.splits)
      ultimately show ?thesis by blast
    qed
  qed
  note body = this[unfolded Entropy_Commit]
  have eq: "template_ok t = (?c \<and> ecp_decision_timeout_blocks p \<ge> 1)" by (auto simp: Entropy_Commit)
  show ?thesis unfolding eq
    unfolding Entropy_Commit build_script.simps buildEntropyCommitScript_def buildEntropyCommit_def
    by (rule says_relative, rule body) simp
qed

lemma says_card_custody:
  assumes Card_Custody: "t = Card_Custody p"
  shows "says (build_script t) (template_ok t) (template_items t)"
  unfolding Card_Custody build_script.simps buildCardCustodyScript_def buildCardCustody_def
      template_ok.simps template_items.simps
  by (rule says_wrapped, rule says_run, (rule writes_list)+)
       (auto simp: either_def preimage_of_def signed_by_def)

lemma says_round_state:
  assumes Round_State: "t = Round_State p"
  shows "says (build_script t) (template_ok t) (template_items t)"
proof -
  let ?k = "rsp_seated_pubkeys p"
  let ?c = "quorum_ok ?k \<and> hex_string 64 (rsp_successor_template_hash p) \<and> hex_string 64 (rsp_timeout_template_hash p) \<and>
     compressed_pubkey_hex (rsp_acting_player_pubkey p)"
  have "says (script_run ([op OP_IF, op OP_HASH256, pushHash32 (rsp_successor_template_hash p), op OP_EQUALVERIFY,
         pushPubkey (rsp_acting_player_pubkey p), op OP_CHECKSIG, op OP_ELSE, op OP_IF, op OP_HASH256,
         pushHash32 (rsp_timeout_template_hash p), op OP_EQUALVERIFY] @ multisig ?k @ [op OP_ELSE] @ multisig ?k
        @ [op OP_ENDIF, op OP_ENDIF])) ?c (template_items t)" if l: "?k \<noteq> []" "length ?k \<le> 16"
    by (rule says_run, (rule writes_list l)+)
       (use l in \<open>auto simp: Round_State quorum_ok_def multisig_res_ok multisig_res_items either_def preimage_of_def signed_by_def\<close>)
  note body = this[unfolded Round_State]
  have eq: "template_ok t = (?c \<and> rsp_decision_timeout_blocks p \<ge> 1)" by (auto simp: Round_State)
  show ?thesis unfolding eq
    unfolding Round_State build_script.simps buildRoundStateScript_def buildRoundState_def res_bind_if
    by (rule says_unless, simp add: quorum_ok_def, rule says_unless, simp add: quorum_ok_def,
        rule says_relative, rule body) simp_all
qed

lemma says_settle_claim:
  assumes Settle_Claim: "t = Settle_Claim p"
  shows "says (build_script t) (template_ok t) (template_items t)"
  unfolding Settle_Claim build_script.simps buildSettleClaimScript_def
      template_ok.simps template_items.simps
  by (rule says_run, (rule writes_list)+) (auto simp: preimage_of_def signed_by_def)

lemma says_fold_surrender:
  assumes Fold_Surrender: "t = Fold_Surrender p"
  shows "says (build_script t) (template_ok t) (template_items t)"
  unfolding Fold_Surrender build_script.simps buildFoldSurrenderScript_def buildFoldSurrender_def
      template_ok.simps template_items.simps
  by (rule says_wrapped, rule says_run, (rule writes_list)+) (auto simp: signed_by_def)

lemma says_reveal_proof:
  assumes Reveal_Proof: "t = Reveal_Proof p"
  shows "says (build_script t) (template_ok t) (template_items t)"
  unfolding Reveal_Proof build_script.simps buildRevealProofScript_def
      template_ok.simps template_items.simps
  by (rule says_run, (rule writes_list)+) (auto simp: preimage_of_def signed_by_def)

lemma says_timeout_branch:
  assumes Timeout_Branch: "t = Timeout_Branch p"
  shows "says (build_script t) (template_ok t) (template_items t)"
proof -
  let ?k = "tbp_authoriser_pubkeys p"
  have "says (script_run ([op OP_HASH256, pushHash32 (tbp_timeout_template_hash p), op OP_EQUALVERIFY] @ multisig ?k))
      (quorum_ok ?k \<and> hex_string 64 (tbp_timeout_template_hash p)) (template_items t)"
    if l: "?k \<noteq> []" "length ?k \<le> 16"
    by (rule says_run, (rule writes_list l)+)
       (use l in \<open>auto simp: Timeout_Branch quorum_ok_def multisig_res_ok multisig_res_items preimage_of_def\<close>)
  note body = this[unfolded Timeout_Branch]
  have eq: "template_ok t = ((quorum_ok ?k \<and> hex_string 64 (tbp_timeout_template_hash p))
      \<and> tbp_decision_timeout_blocks p \<ge> 1)" by (auto simp: Timeout_Branch)
  show ?thesis unfolding eq
    unfolding Timeout_Branch build_script.simps buildTimeoutBranchScript_def buildTimeoutBranch_def res_bind_if
    by (rule says_unless, simp add: quorum_ok_def, rule says_unless, simp add: quorum_ok_def,
        rule says_relative, rule body) simp_all
qed

lemma says_recovery_branch:
  assumes Recovery_Branch: "t = Recovery_Branch p"
  shows "says (build_script t) (template_ok t) (template_items t)"
  unfolding Recovery_Branch build_script.simps buildRecoveryBranch_def buildRecoveryBranchTemplate_def
      template_ok.simps template_items.simps
  by (rule says_wrapped, rule says_run, (rule writes_list)+) (auto simp: signed_by_def)

lemmas says_templates =
  says_table_root says_stake_lock says_pot_lock says_entropy_commit says_card_custody
  says_round_state says_settle_claim says_fold_surrender says_reveal_proof
  says_timeout_branch says_recovery_branch

lemma template_says: "says (build_script t) (template_ok t) (template_items t)"
  by (cases t) (erule says_templates)+

section \<open>Properties\<close>

text \<open>C27. Every template says what it is meant to say: a builder succeeds exactly on well-formed
  parameters (compressed keys, 32-byte hashes, 1 to 16 signers, a positive relative timeout), the bytes
  it returns read back as the intended script (the alternatives of hash locks, single signatures and
  n-of-n multisignatures, in order), every \<open>OP_IF\<close> is closed, and no in-script timelock opcode
  occurs.\<close>
theorem templates_say_what_they_mean:
  "case build_script t of
     Inl e \<Rightarrow> \<not> template_ok t
   | Inr bs \<Rightarrow> template_ok t \<and> parse_script bs = ok (template_items t)
       \<and> if_depth 0 (template_items t) = Some 0 \<and> list_all no_timelock (template_items t)"
proof -
  have "if_depth 0 (template_items t) = Some 0 \<and> list_all no_timelock (template_items t)" if "template_ok t"
    using that by (cases t) (auto simp: quorum_ok_def if_depth_append no_timelock_def)
  then show ?thesis using template_says[of t] by (auto simp: says_def split: sum.splits)
qed

end
