(* ===== verification/Fallback.thy ===== *)
theory Fallback
  imports Templates Transactions Scenario
begin

text \<open>
  \<open>packages/state-engine/src/fallback.ts\<close>, \<open>fallback-build.ts\<close> and \<open>tx-orchestrator.ts\<close>: the
  cooperative, timeout and recovery branches of a state, their locking scripts, and the unsigned
  transactions that carry them. The free-form \<open>note\<close> of a branch is left out.
\<close>

section \<open>Enumeration\<close>

datatype fallback_kind = Cooperative | Timeout_Kind | Recovery_Kind

datatype fb_lock_time = Fb_Immediate | Fb_Relative_Blocks int | Fb_Absolute_Height block_height

record fallback_branch =
  fb_kind :: fallback_kind
  fb_source :: state_class
  fb_action :: action_type
  fb_lock :: fb_lock_time

fun cooperativeFor :: "state_class \<Rightarrow> action_type option" where
  "cooperativeFor S1_SEAT_OPEN = Some Join"
| "cooperativeFor S2_TABLE_LOCKED = Some EntropyCommit"
| "cooperativeFor S3_ENTROPY_COMMIT_WINDOW = Some EntropyCommit"
| "cooperativeFor S4_ENTROPY_REVEAL_WINDOW = Some EntropyReveal"
| "cooperativeFor S5_DECK_COMMITTED = Some CardReveal"
| "cooperativeFor S6_CARD_REVEAL_FIRST = Some CardReveal"
| "cooperativeFor S9_CARD_REVEAL_THIRD = Some CardReveal"
| "cooperativeFor S7_CARD_REVEAL_SECOND = Some BetAction"
| "cooperativeFor S8_BET_DECISION = Some BetAction"
| "cooperativeFor S10_SETTLED_ROUND = Some Settle"
| "cooperativeFor S11_ROTATE_TURN = Some RotateTurn"
| "cooperativeFor S12_TABLE_CLOSE = Some TableClose"
| "cooperativeFor _ = None"

fun timeoutDefaultFor :: "state_class \<Rightarrow> action_type option" where
  "timeoutDefaultFor S3_ENTROPY_COMMIT_WINDOW = Some Timeout"
| "timeoutDefaultFor S4_ENTROPY_REVEAL_WINDOW = Some Timeout"
| "timeoutDefaultFor S7_CARD_REVEAL_SECOND = Some Timeout"
| "timeoutDefaultFor S8_BET_DECISION = Some Timeout"
| "timeoutDefaultFor S9_CARD_REVEAL_THIRD = Some Timeout"
| "timeoutDefaultFor _ = None"

definition enumerateFallbackGraph :: "round_state \<Rightarrow> rule_set \<Rightarrow> fallback_branch list" where
  "enumerateFallbackGraph s rs =
     (case cooperativeFor (state_class s) of
        None \<Rightarrow> []
      | Some a \<Rightarrow> [\<lparr> fb_kind = Cooperative, fb_source = state_class s, fb_action = a, fb_lock = Fb_Immediate \<rparr>])
     @ (case timeoutDefaultFor (state_class s) of
          None \<Rightarrow> []
        | Some a \<Rightarrow> [\<lparr> fb_kind = Timeout_Kind, fb_source = state_class s, fb_action = a,
                       fb_lock = Fb_Relative_Blocks (decision_timeout_blocks rs) \<rparr>])
     @ (case recovery_deadline_block_height s of
          None \<Rightarrow> []
        | Some h \<Rightarrow> [\<lparr> fb_kind = Recovery_Kind, fb_source = state_class s, fb_action = Recovery,
                       fb_lock = Fb_Absolute_Height h \<rparr>])"

section \<open>Materialisation\<close>

record build_context =
  ctx_decision_timeout_blocks :: int
  ctx_recovery_height :: block_height
  ctx_timeout_authorisers :: "pubkey33 list"
  ctx_timeout_template_hash :: hash256
  ctx_recovery_signer :: pubkey33

record built_fallback_branch =
  bf_branch :: fallback_branch
  bf_locking_script :: "byte list option"
  bf_locktime :: "lock_time_spec option"

definition materialise_branch :: "build_context \<Rightarrow> fallback_branch \<Rightarrow> built_fallback_branch result" where
  "materialise_branch ctx b =
     (case fb_kind b of
        Timeout_Kind \<Rightarrow>
          res_bind (buildTimeoutBranch \<lparr> tbp_decision_timeout_blocks = ctx_decision_timeout_blocks ctx,
              tbp_timeout_template_hash = ctx_timeout_template_hash ctx,
              tbp_authoriser_pubkeys = ctx_timeout_authorisers ctx \<rparr>) (\<lambda>built.
            ok \<lparr> bf_branch = b, bf_locking_script = Some (bb_locking_script built),
                 bf_locktime = Some (bb_locktime built) \<rparr>)
      | Recovery_Kind \<Rightarrow>
          res_bind (buildRecoveryBranchTemplate \<lparr> rbp_recovery_height = ctx_recovery_height ctx,
              rbp_signer_pubkey = ctx_recovery_signer ctx \<rparr>) (\<lambda>built.
            ok \<lparr> bf_branch = b, bf_locking_script = Some (bb_locking_script built),
                 bf_locktime = Some (bb_locktime built) \<rparr>)
      | Cooperative \<Rightarrow> ok \<lparr> bf_branch = b, bf_locking_script = None, bf_locktime = None \<rparr>)"

definition materialiseFallbackGraph ::
  "fallback_branch list \<Rightarrow> build_context \<Rightarrow> built_fallback_branch list result" where
  "materialiseFallbackGraph bs ctx = map_res (materialise_branch ctx) bs"

section \<open>Transactions\<close>

record prev_outpoint =
  po_prevTxid :: "byte list"
  po_prevVout :: int
  po_prevValue :: int

record successor_output =
  so_value :: int
  so_lockingScript :: "byte list"

definition TX_VERSION :: int where "TX_VERSION = 2"
definition SEQUENCE_FINAL :: int where "SEQUENCE_FINAL = 0xffffffff"

definition nSequenceForBlocks :: "int \<Rightarrow> int result" where
  "nSequenceForBlocks blocks =
     (if blocks < 0 \<or> blocks > 0xffff then throw ''nSequenceForBlocks'' else ok (js_and blocks 0x0000ffff))"

definition buildCooperativeTx :: "prev_outpoint \<Rightarrow> successor_output \<Rightarrow> bsv_transaction" where
  "buildCooperativeTx prev succ =
     \<lparr> version = TX_VERSION,
       inputs = [\<lparr> prevTxid = po_prevTxid prev, prevVout = po_prevVout prev, unlockingScript = [],
                   sequence = SEQUENCE_FINAL \<rparr>],
       outputs = [\<lparr> tx_value = so_value succ, lockingScript = so_lockingScript succ \<rparr>],
       lockTime = 0 \<rparr>"

definition buildTimeoutTx ::
  "built_fallback_branch \<Rightarrow> prev_outpoint \<Rightarrow> successor_output \<Rightarrow> bsv_transaction result" where
  "buildTimeoutTx b prev succ =
     (if fb_kind (bf_branch b) \<noteq> Timeout_Kind then throw ''buildTimeoutTx''
      else case bf_locktime b of
        Some (Relative_Blocks blocks) \<Rightarrow>
          res_bind (nSequenceForBlocks blocks) (\<lambda>sq.
            ok \<lparr> version = TX_VERSION,
                 inputs = [\<lparr> prevTxid = po_prevTxid prev, prevVout = po_prevVout prev,
                             unlockingScript = [], sequence = sq \<rparr>],
                 outputs = [\<lparr> tx_value = so_value succ, lockingScript = so_lockingScript succ \<rparr>],
                 lockTime = 0 \<rparr>)
      | _ \<Rightarrow> throw ''buildTimeoutTx'')"

definition buildRecoveryTx ::
  "built_fallback_branch \<Rightarrow> prev_outpoint \<Rightarrow> successor_output \<Rightarrow> bsv_transaction result" where
  "buildRecoveryTx b prev succ =
     (if fb_kind (bf_branch b) \<noteq> Recovery_Kind then throw ''buildRecoveryTx''
      else case bf_locktime b of
        Some (Absolute_Height height _) \<Rightarrow>
          if height \<ge> 500000000 then throw ''buildRecoveryTx''
          else ok \<lparr> version = TX_VERSION,
                    inputs = [\<lparr> prevTxid = po_prevTxid prev, prevVout = po_prevVout prev,
                                unlockingScript = [], sequence = SEQUENCE_FINAL - 1 \<rparr>],
                    outputs = [\<lparr> tx_value = so_value succ, lockingScript = so_lockingScript succ \<rparr>],
                    lockTime = height \<rparr>
      | _ \<Rightarrow> throw ''buildRecoveryTx'')"

section \<open>Lemmas\<close>

lemma js_and_ffff: "js_and v 0xffff = v mod 65536"
proof -
  have m: "(0xffff :: int) = mask 16" by (simp add: mask_eq_exp_minus_1)
  have "js_and v 0xffff = take_bit 16 v"
    by (rule bit_eqI)
       (auto simp: js_and_def bit_sint_iff bit_and_iff bit_word_of_int_iff m bit_mask_iff bit_take_bit_iff)
  then show ?thesis by (simp add: take_bit_eq_mod)
qed

lemma nSequence_eq: "nSequenceForBlocks n = (if 0 \<le> n \<and> n \<le> 0xffff then ok n else throw ''nSequenceForBlocks'')"
  by (simp add: nSequenceForBlocks_def js_and_ffff)

text \<open>A context that fits the state and the rules.\<close>

definition context_ok :: "rule_set \<Rightarrow> round_state \<Rightarrow> build_context \<Rightarrow> bool" where
  "context_ok rs s ctx \<longleftrightarrow>
     ctx_decision_timeout_blocks ctx = decision_timeout_blocks rs
     \<and> 1 \<le> decision_timeout_blocks rs \<and> decision_timeout_blocks rs \<le> 0xffff
     \<and> recovery_deadline_block_height s = Some (ctx_recovery_height ctx)
     \<and> 0 \<le> ctx_recovery_height ctx \<and> ctx_recovery_height ctx < 500000000
     \<and> quorum_ok (ctx_timeout_authorisers ctx) \<and> hex_string 64 (ctx_timeout_template_hash ctx)
     \<and> compressed_pubkey_hex (ctx_recovery_signer ctx)"

definition branch_tx ::
  "built_fallback_branch \<Rightarrow> prev_outpoint \<Rightarrow> successor_output \<Rightarrow> bsv_transaction result" where
  "branch_tx b prev succ =
     (case fb_kind (bf_branch b) of
        Cooperative \<Rightarrow> ok (buildCooperativeTx prev succ)
      | Timeout_Kind \<Rightarrow> buildTimeoutTx b prev succ
      | Recovery_Kind \<Rightarrow> buildRecoveryTx b prev succ)"

text \<open>What the timing of a branch asks of its transaction: the sequence of its input and its locktime.\<close>

fun timing :: "fb_lock_time \<Rightarrow> int \<times> int" where
  "timing Fb_Immediate = (0xffffffff, 0)"
| "timing (Fb_Relative_Blocks n) = (n, 0)"
| "timing (Fb_Absolute_Height h) = (0xfffffffe, h)"

lemma built_timeout:
  assumes "quorum_ok (tbp_authoriser_pubkeys p)" and "hex_string 64 (tbp_timeout_template_hash p)"
    and "1 \<le> tbp_decision_timeout_blocks p"
  shows "\<exists>bs. buildTimeoutBranch p = ok \<lparr> bb_locking_script = bs,
    bb_locktime = Relative_Blocks (tbp_decision_timeout_blocks p) \<rparr>"
proof -
  have "template_ok (Timeout_Branch p)" using assms by simp
  then have "\<not> isl (buildTimeoutBranchScript p)"
    using template_says[of "Timeout_Branch p"] by (auto simp: says_def split: sum.splits)
  then show ?thesis
    using assms by (auto simp: buildTimeoutBranchScript_def buildTimeoutBranch_def relativeBlocks_def
        res_bind_def split: sum.splits if_splits)
qed

lemma built_recovery:
  assumes "compressed_pubkey_hex (rbp_signer_pubkey p)"
  shows "\<exists>bs. buildRecoveryBranchTemplate p = ok \<lparr> bb_locking_script = bs,
    bb_locktime = Absolute_Height (rbp_recovery_height p) (Some 0) \<rparr>"
proof -
  have "\<not> isl (buildRecoveryBranch p)"
    using template_says[of "Recovery_Branch p"] assms by (auto simp: says_def split: sum.splits)
  then show ?thesis
    by (auto simp: buildRecoveryBranch_def buildRecoveryBranchTemplate_def absoluteHeight_def
        res_bind_def split: sum.splits)
qed

text \<open>A built branch keeps its branch, and its transaction has the branch's timing.\<close>

definition branch_built :: "fallback_branch \<Rightarrow> built_fallback_branch \<Rightarrow> bool" where
  "branch_built f b \<longleftrightarrow> bf_branch b = f \<and>
     (\<forall>prev succ. \<exists>sq lt. timing (fb_lock f) = (sq, lt) \<and>
        branch_tx b prev succ = ok \<lparr> version = 2,
          inputs = [\<lparr> prevTxid = po_prevTxid prev, prevVout = po_prevVout prev, unlockingScript = [], sequence = sq \<rparr>],
          outputs = [\<lparr> tx_value = so_value succ, lockingScript = so_lockingScript succ \<rparr>], lockTime = lt \<rparr>)"

lemma materialise_branch_ok:
  assumes "context_ok rs s ctx" and "f \<in> set (enumerateFallbackGraph s rs)"
  shows "\<exists>b. materialise_branch ctx f = ok b \<and> branch_built f b"
proof -
  obtain bs where t: "buildTimeoutBranch \<lparr> tbp_decision_timeout_blocks = ctx_decision_timeout_blocks ctx,
      tbp_timeout_template_hash = ctx_timeout_template_hash ctx,
      tbp_authoriser_pubkeys = ctx_timeout_authorisers ctx \<rparr>
      = ok \<lparr> bb_locking_script = bs, bb_locktime = Relative_Blocks (ctx_decision_timeout_blocks ctx) \<rparr>"
    using built_timeout[of "\<lparr> tbp_decision_timeout_blocks = ctx_decision_timeout_blocks ctx,
      tbp_timeout_template_hash = ctx_timeout_template_hash ctx,
      tbp_authoriser_pubkeys = ctx_timeout_authorisers ctx \<rparr>"] assms(1) by (auto simp: context_ok_def)
  obtain cs where r: "buildRecoveryBranchTemplate \<lparr> rbp_recovery_height = ctx_recovery_height ctx,
      rbp_signer_pubkey = ctx_recovery_signer ctx \<rparr>
      = ok \<lparr> bb_locking_script = cs, bb_locktime = Absolute_Height (ctx_recovery_height ctx) (Some 0) \<rparr>"
    using built_recovery[of "\<lparr> rbp_recovery_height = ctx_recovery_height ctx,
      rbp_signer_pubkey = ctx_recovery_signer ctx \<rparr>"] assms(1) by (auto simp: context_ok_def)
  have d: "ctx_decision_timeout_blocks ctx = decision_timeout_blocks rs" using assms(1) by (simp add: context_ok_def)
  show ?thesis
    using assms by (auto simp: enumerateFallbackGraph_def materialise_branch_def d t[unfolded d] r branch_built_def branch_tx_def
        buildCooperativeTx_def buildTimeoutTx_def buildRecoveryTx_def nSequence_eq context_ok_def
        TX_VERSION_def SEQUENCE_FINAL_def split: option.splits)
qed

lemma built_wire:
  assumes "branch_built f b" and "fb_lock f = Fb_Immediate \<or> fb_lock f = Fb_Relative_Blocks n \<and> 0 \<le> n \<and> n < 2 ^ 32
      \<or> fb_lock f = Fb_Absolute_Height n \<and> 0 \<le> n \<and> n < 2 ^ 32"
    and "length (po_prevTxid prev) = 32" and "u32_range (po_prevVout prev)"
    and "0 \<le> so_value succ" and "so_value succ < 2 ^ 64" and "int (length (so_lockingScript succ)) < 2 ^ 64"
  shows "\<exists>tx. branch_tx b prev succ = ok tx \<and> wire_tx tx \<and> (map sequence (inputs tx), lockTime tx)
    = ([fst (timing (fb_lock f))], snd (timing (fb_lock f)))"
  using assms unfolding branch_built_def
  by (auto simp: wire_tx_def wire_input_def wire_output_def u32_range_def dest!: spec[of _ prev] spec[of _ succ])

section \<open>What the engine accepts\<close>

text \<open>An action of the game of a state, with nothing else filled in.\<close>

definition probe :: "round_state \<Rightarrow> seat option \<Rightarrow> action_payload \<Rightarrow> signed_action" where
  "probe s st p = \<lparr> act_game_id = round_state.game_id s, act_round_number = 0, referenced_state_hash = state_hash s,
     action_nonce = '''', act_seat = st, authorising_signature = '''', successor_state_commitment = '''', payload = p \<rparr>"

lemma probe_simps [simp]:
  "act_game_id (probe s st p) = round_state.game_id s" "act_seat (probe s st p) = st" "payload (probe s st p) = p"
  by (simp_all add: probe_def)

text \<open>Whether some action of a type is accepted at some height.\<close>

definition accepts :: "rule_set \<Rightarrow> round_state \<Rightarrow> action_type \<Rightarrow> bool" where
  "accepts rs s ty \<longleftrightarrow> (\<exists>a h t. act_type a = ty \<and> applyAction s a rs h = ok t)"

lemma accepts_iff: "accepts rs s ty \<longleftrightarrow> (\<exists>a h t. act_type a = ty \<and> estep rs h s a t)"
  by (simp add: accepts_def applyAction_iff_estep)

lemma acceptsI: "estep rs h s a t \<Longrightarrow> act_type a = ty \<Longrightarrow> accepts rs s ty"
  by (auto simp: accepts_iff)

text \<open>When the settlement does not throw or refuse: somebody acts, three cards are out, and pot and stakes
  stay in range.\<close>

definition settlement_covered :: "rule_set \<Rightarrow> round_state \<Rightarrow> bool" where
  "settlement_covered rs s \<longleftrightarrow>
     (case acting_player_seat s of
        None \<Rightarrow> False
      | Some acting \<Rightarrow>
          (case classifyInBetweenRound (visible_cards s) of
             Inl _ \<Rightarrow> False
           | Inr (oc, _) \<Rightarrow>
               (case computeValueTransfer oc (pot_value s) (settlement_rules rs) of
                  (pd, qd) \<Rightarrow> safe_nat (pot_value s + qd) \<and>
                    list_all (\<lambda>p. seat p \<noteq> acting \<or> safe_nat (stake_at_risk p + pd)) (players s))))"

text \<open>When the cooperative action of a state is open, said over the state: a free seat, a player who still
  has to commit or reveal, a bet the limits admit, a settlement that is covered, a next round that can be
  counted.\<close>

definition cooperative_open :: "rule_set \<Rightarrow> round_state \<Rightarrow> bool" where
  "cooperative_open rs s \<longleftrightarrow>
     (case state_class s of
        S1_SEAT_OPEN \<Rightarrow> int (length (players s)) < player_count_max rs \<and> int (length (players s)) \<le> MAX_SAFE_INTEGER
      | S3_ENTROPY_COMMIT_WINDOW \<Rightarrow> list_ex (\<lambda>p. \<not> entropy_committed p) (players s)
      | S4_ENTROPY_REVEAL_WINDOW \<Rightarrow> list_ex (\<lambda>p. \<not> entropy_revealed p) (players s)
      | S8_BET_DECISION \<Rightarrow> max (min_bet rs) (- pot_value s) \<le> min (max_bet rs) (MAX_SAFE_INTEGER - pot_value s)
      | S10_SETTLED_ROUND \<Rightarrow> settlement_covered rs s
      | S11_ROTATE_TURN \<Rightarrow> next_seat (sort (map seat (players s))) (acting_player_seat s) = sort (map seat (players s)) ! 0
          \<or> safe_nat (round_number s + 1)
      | _ \<Rightarrow> True)"

text \<open>The actions the engine takes in a class beside the branches of the graph.\<close>

fun not_enumerated :: "state_class \<Rightarrow> action_type list" where
  "not_enumerated S1_SEAT_OPEN = [TableLock]"
| "not_enumerated S5_DECK_COMMITTED = [DealConcealed]"
| "not_enumerated S8_BET_DECISION = [Pass, Fold]"
| "not_enumerated _ = []"

lemma safe_range: "safe_nat n \<longleftrightarrow> n \<in> {0..MAX_SAFE_INTEGER}"
  by (auto simp: safe_nat_def)

lemma free_seat:
  assumes "distinct (map seat ps)" and "\<forall>p \<in> set ps. safe_nat (seat p)"
  shows "(\<exists>n. safe_nat n \<and> n \<notin> seat ` set ps) \<longleftrightarrow> int (length ps) \<le> MAX_SAFE_INTEGER"
proof -
  have sub: "seat ` set ps \<subseteq> {0..MAX_SAFE_INTEGER}" using assms(2) safe_range by auto
  have len: "length ps = card (seat ` set ps)" using distinct_card[OF assms(1)] by simp
  have m: "card {0..MAX_SAFE_INTEGER} = nat (MAX_SAFE_INTEGER + 1)" "0 \<le> MAX_SAFE_INTEGER"
    by (simp_all add: MAX_SAFE_INTEGER_def)
  have "(\<exists>n. safe_nat n \<and> n \<notin> seat ` set ps) \<longleftrightarrow> seat ` set ps \<subset> {0..MAX_SAFE_INTEGER}"
    using sub unfolding safe_range by blast
  also have "\<dots> \<longleftrightarrow> card (seat ` set ps) < card {0..MAX_SAFE_INTEGER}"
    using sub psubset_card_mono[of "{0..MAX_SAFE_INTEGER}" "seat ` set ps"] by fastforce
  also have "\<dots> \<longleftrightarrow> int (length ps) \<le> MAX_SAFE_INTEGER" unfolding len m(1) using m(2) by linarith
  finally show ?thesis .
qed

lemma own_index:
  assumes "distinct (map seat ps)" and "p \<in> set ps"
  shows "\<exists>i. find_index (\<lambda>q. seat q = seat p) ps = Some i \<and> ps ! i = p"
  using assms by (induction ps) force+

lemma join_open:
  assumes "seats_ok s" and "state_class s = S1_SEAT_OPEN"
  shows "accepts rs s Join \<longleftrightarrow>
    int (length (players s)) < player_count_max rs \<and> int (length (players s)) \<le> MAX_SAFE_INTEGER"
proof -
  have "accepts rs s Join \<longleftrightarrow> int (length (players s)) < player_count_max rs \<and>
      (\<exists>n. safe_nat n \<and> n \<notin> seat ` set (players s))"
  proof
    assume "accepts rs s Join"
    then show "int (length (players s)) < player_count_max rs \<and> (\<exists>n. safe_nat n \<and> n \<notin> seat ` set (players s))"
      by (auto simp: accepts_iff elim!: estep_E)
  next
    assume "int (length (players s)) < player_count_max rs \<and> (\<exists>n. safe_nat n \<and> n \<notin> seat ` set (players s))"
    then obtain n where n: "int (length (players s)) < player_count_max rs" "safe_nat n" "n \<notin> seat ` set (players s)"
      by blast
    have "\<exists>t. estep rs 0 s (probe s (Some n) (Join_Payload '''' (stake_amount rs))) t"
      by (rule exI, rule estep.join) (use n assms(2) in \<open>simp_all add: join_seat_def\<close>)
    then show "accepts rs s Join" by (auto intro: acceptsI)
  qed
  then show ?thesis using free_seat[of "players s"] assms(1) by (simp add: seats_ok_def)
qed

lemma commit_open:
  assumes "seats_ok s" and "state_class s = S3_ENTROPY_COMMIT_WINDOW"
  shows "accepts rs s EntropyCommit \<longleftrightarrow> list_ex (\<lambda>p. \<not> entropy_committed p) (players s)"
proof
  assume "accepts rs s EntropyCommit"
  then show "list_ex (\<lambda>p. \<not> entropy_committed p) (players s)"
    by (auto simp: accepts_iff list_ex_iff elim!: estep_E dest!: find_index_in_set)
next
  assume "list_ex (\<lambda>p. \<not> entropy_committed p) (players s)"
  then obtain p where m: "p \<in> set (players s)" "\<not> entropy_committed p" by (auto simp: list_ex_iff)
  then obtain i where "find_index (\<lambda>q. seat q = seat p) (players s) = Some i" "players s ! i = p"
    using own_index[of "players s" p] assms(1) by (auto simp: seats_ok_def)
  note p = this m
  have "\<exists>t. estep rs 0 s (probe s (Some (seat p)) (EntropyCommit_Payload '''')) t"
    by (rule exI, rule estep.commit[where i = i]) (use p assms(2) in simp_all)
  then show "accepts rs s EntropyCommit" by (auto intro: acceptsI)
qed

lemma reveal_open:
  assumes "seats_ok s" and "entropy_ok s" and "state_class s = S4_ENTROPY_REVEAL_WINDOW"
  shows "accepts rs s EntropyReveal \<longleftrightarrow> list_ex (\<lambda>p. \<not> entropy_revealed p) (players s)"
proof
  assume "accepts rs s EntropyReveal"
  then show "list_ex (\<lambda>p. \<not> entropy_revealed p) (players s)"
    by (auto simp: accepts_iff list_ex_iff elim!: estep_E dest!: find_index_in_set)
next
  assume "list_ex (\<lambda>p. \<not> entropy_revealed p) (players s)"
  then obtain p where m: "p \<in> set (players s)" "\<not> entropy_revealed p" "entropy_committed p"
    using assms(2,3) by (auto simp: list_ex_iff entropy_ok_def)
  then obtain i where "find_index (\<lambda>q. seat q = seat p) (players s) = Some i" "players s ! i = p"
    using own_index[of "players s" p] assms(1) by (auto simp: seats_ok_def)
  note p = this m
  have "\<exists>t. estep rs 0 s (probe s (Some (seat p)) (EntropyReveal_Payload '''')) t"
    by (rule exI, rule estep.reveal[where i = i]) (use p assms(3) in simp_all)
  then show "accepts rs s EntropyReveal" by (auto intro: acceptsI)
qed

lemma card_open:
  assumes "reveal_class (state_class s) = Some c"
  shows "accepts rs s CardReveal"
proof -
  have "\<exists>t. estep rs 0 s (probe s None (CardReveal_Payload undefined)) t"
    by (rule exI, rule estep.card) (use assms in simp_all)
  then show ?thesis by (auto intro: acceptsI)
qed

lemma bet_open:
  assumes "state_class s = S8_BET_DECISION"
  shows "accepts rs s BetAction \<longleftrightarrow>
    max (min_bet rs) (- pot_value s) \<le> min (max_bet rs) (MAX_SAFE_INTEGER - pot_value s)"
proof
  assume "accepts rs s BetAction"
  then show "max (min_bet rs) (- pot_value s) \<le> min (max_bet rs) (MAX_SAFE_INTEGER - pot_value s)"
    by (auto simp: accepts_iff safe_nat_def elim!: estep_E)
next
  let ?b = "max (min_bet rs) (- pot_value s)"
  assume b: "?b \<le> min (max_bet rs) (MAX_SAFE_INTEGER - pot_value s)"
  have "\<exists>t. estep rs 0 s (probe s None (Bet_Payload ?b)) t"
    by (rule exI, rule estep.bet[where b = "?b"]) (use b assms in \<open>auto simp: safe_nat_def max_def split: if_splits\<close>)
  then show "accepts rs s BetAction" by (auto intro: acceptsI)
qed

lemma settle_open:
  assumes "state_class s = S10_SETTLED_ROUND"
  shows "accepts rs s Settle \<longleftrightarrow> settlement_covered rs s"
proof
  assume "accepts rs s Settle"
  then show "settlement_covered rs s"
    by (auto simp: accepts_iff settlement_covered_def list_all_iff elim!: estep_E)
next
  assume "settlement_covered rs s"
  then obtain acting oc tr pd qd where "acting_player_seat s = Some acting"
      "classifyInBetweenRound (visible_cards s) = ok (oc, tr)"
      "computeValueTransfer oc (pot_value s) (settlement_rules rs) = (pd, qd)" "safe_nat (pot_value s + qd)"
      "\<forall>p \<in> set (players s). seat p = acting \<longrightarrow> safe_nat (stake_at_risk p + pd)"
    by (auto simp: settlement_covered_def list_all_iff split: option.splits sum.splits prod.splits)
  then have "\<exists>t. estep rs 0 s (probe s None Settle_Payload) t"
    by (intro exI, rule_tac estep.settle) (use assms in simp_all)
  then show "accepts rs s Settle" by (auto intro: acceptsI)
qed

lemma rotate_open:
  assumes "state_class s = S11_ROTATE_TURN" and "players s \<noteq> []" and "acting_player_seat s \<noteq> None"
  shows "accepts rs s RotateTurn \<longleftrightarrow>
    next_seat (sort (map seat (players s))) (acting_player_seat s) = sort (map seat (players s)) ! 0
      \<or> safe_nat (round_number s + 1)"
    (is "_ \<longleftrightarrow> ?wrap \<or> ?next")
proof
  assume "accepts rs s RotateTurn"
  then show "?wrap \<or> ?next" by (auto simp: accepts_iff elim!: estep_E)
next
  have ne: "sort (map seat (players s)) \<noteq> []" using assms(2) by (metis map_is_Nil_conv set_empty set_sort)
  assume w: "?wrap \<or> ?next"
  have "\<exists>t. estep rs 0 s (probe s None RotateTurn_Payload) t"
  proof (cases ?wrap)
    case True
    then show ?thesis by (intro exI, rule_tac estep.wrap[OF _ _ _ refl]) (use assms ne in simp_all)
  next
    case False
    with w have ?next by blast
    then show ?thesis
      by (intro exI, rule_tac estep.rotate[OF _ _ _ refl _ refl]) (use False assms ne in simp_all)
  qed
  then show "accepts rs s RotateTurn" by (auto intro: acceptsI)
qed

lemma close_open:
  assumes "state_class s = S12_TABLE_CLOSE"
  shows "accepts rs s TableClose"
proof -
  have "\<exists>t. estep rs 0 s (probe s None TableClose_Payload) t"
    by (rule exI, rule estep.table_close) (use assms in simp_all)
  then show ?thesis by (auto intro: acceptsI)
qed

lemma cooperative_accepted:
  assumes r: "reachable rs s" and c: "cooperativeFor (state_class s) = Some ty"
  shows "accepts rs s ty \<longleftrightarrow> cooperative_open rs s"
proof -
  note inv = reachable_seats_ok[OF r] reachable_entropy_ok[OF r] reachable_class_ok[OF r] reachable_actor_ok[OF r]
  have "players s \<noteq> [] \<and> acting_player_seat s \<noteq> None" if "state_class s = S11_ROTATE_TURN"
    using inv that by (auto simp: entropy_ok_def actor_ok_def decided_def)
  then show ?thesis
    using c inv(3) join_open[OF inv(1)] commit_open[OF inv(1)] reveal_open[OF inv(1,2)] bet_open settle_open
      rotate_open close_open card_open[of s]
    by (cases "state_class s") (auto simp: cooperative_open_def class_ok_def)
qed

lemma no_timeout:
  assumes "reachable rs s" shows "\<not> accepts rs s Timeout"
proof
  assume "accepts rs s Timeout"
  then obtain a h t where "act_type a = Timeout" and e: "estep rs h s a t" by (auto simp: accepts_iff)
  from e this(1) show False by (cases rule: estep.cases) (use no_decision_deadline[OF assms] in simp_all)
qed

lemma recovery_accepted:
  assumes dl: "recovery_deadline_block_height s = Some dl"
  shows "(\<exists>a t. act_type a = Recovery \<and> applyAction s a rs h = ok t) \<longleftrightarrow> dl \<le> h"
proof
  assume "\<exists>a t. act_type a = Recovery \<and> applyAction s a rs h = ok t"
  then obtain a t where "act_type a = Recovery" and e: "estep rs h s a t" by (auto simp: applyAction_iff_estep)
  from e this(1) show "dl \<le> h" by (cases rule: estep.cases) (use dl in simp_all)
next
  assume "dl \<le> h"
  then have "\<exists>t. estep rs h s (probe s None (Recovery_Payload '''')) t"
    by (intro exI, rule_tac estep.recovery) (use dl in simp_all)
  then obtain t where "applyAction s (probe s None (Recovery_Payload '''')) rs h = ok t"
    by (auto simp: applyAction_iff_estep)
  moreover have "act_type (probe s None (Recovery_Payload '''')) = Recovery" by simp
  ultimately show "\<exists>a t. act_type a = Recovery \<and> applyAction s a rs h = ok t" by blast
qed

lemma reachable_recovery_height:
  assumes "reachable rs s" obtains dl where "recovery_deadline_block_height s = Some dl"
  using assms
proof (induction arbitrary: thesis rule: reachable_invariant)
  case (start gid rsh dl)
  then show ?case by (simp add: initialState_def)
next
  case (step s a h s')
  then show ?case using frame_estep[OF step.hyps(2)] by auto
qed

lemma accepted_is_listed:
  assumes "class_ok s" and "recovery_deadline_block_height s = Some dl" and "estep rs h s a t"
  shows "act_type a \<in> fb_action ` set (enumerateFallbackGraph s rs) \<union> set (not_enumerated (state_class s))"
  using assms(3)
proof (cases rule: estep.cases)
  case (card r c)
  then show ?thesis by (auto simp: enumerateFallbackGraph_def dest: reveal_class_cases)
next
  case (surrender st deck i pk ps)
  then show ?thesis using assms(1) by (auto simp: class_ok_def)
qed (use assms(2) in \<open>simp_all add: enumerateFallbackGraph_def\<close>)

section \<open>Properties\<close>

text \<open>C28. The pre-signed graph can be built, and its timing is carried by the transactions: with a context
  that fits the state (its timeout and recovery values, 1 to 16 authorisers, well-formed keys and
  hashes), every enumerated branch is materialised, in order, and its unsigned transaction, for any
  previous output and successor in their wire ranges, is a wire transaction whose input sequence and
  locktime are exactly the branch's timing: final and 0 for the cooperative branch, the relative delay
  for the timeout, one below final with the recovery height for the recovery.\<close>
theorem fallback_graph_is_timed:
  assumes "context_ok rs s ctx"
    and "length (po_prevTxid prev) = 32 \<and> u32_range (po_prevVout prev)"
    and "0 \<le> so_value succ \<and> so_value succ < 2 ^ 64 \<and> int (length (so_lockingScript succ)) < 2 ^ 64"
  shows "\<exists>bs. materialiseFallbackGraph (enumerateFallbackGraph s rs) ctx = ok bs
    \<and> map bf_branch bs = enumerateFallbackGraph s rs
    \<and> list_all (\<lambda>b. \<exists>tx. branch_tx b prev succ = ok tx \<and> wire_tx tx
        \<and> map sequence (inputs tx) = [fst (timing (fb_lock (bf_branch b)))]
        \<and> lockTime tx = snd (timing (fb_lock (bf_branch b)))) bs"
proof -
  let ?fs = "enumerateFallbackGraph s rs"
  obtain g where g: "\<forall>f \<in> set ?fs. materialise_branch ctx f = ok (g f) \<and> branch_built f (g f)"
    using materialise_branch_ok[OF assms(1)] by metis
  then have m: "materialiseFallbackGraph ?fs ctx = ok (map g ?fs)"
    unfolding materialiseFallbackGraph_def by (intro map_res_total) simp
  have b: "map bf_branch (map g ?fs) = ?fs"
    using g by (auto simp: branch_built_def intro: map_idI)
  have "\<exists>tx. branch_tx (g f) prev succ = ok tx \<and> wire_tx tx
        \<and> map sequence (inputs tx) = [fst (timing (fb_lock (bf_branch (g f))))]
        \<and> lockTime tx = snd (timing (fb_lock (bf_branch (g f))))" if f: "f \<in> set ?fs" for f
  proof -
    have bf: "branch_built f (g f)" "bf_branch (g f) = f" using g f by (auto simp: branch_built_def)
    have "\<exists>n. fb_lock f = Fb_Immediate \<or> fb_lock f = Fb_Relative_Blocks n \<and> 0 \<le> n \<and> n < 2 ^ 32
      \<or> fb_lock f = Fb_Absolute_Height n \<and> 0 \<le> n \<and> n < 2 ^ 32"
      using f assms(1) by (auto simp: enumerateFallbackGraph_def context_ok_def split: option.splits)
    then obtain n where n: "fb_lock f = Fb_Immediate \<or> fb_lock f = Fb_Relative_Blocks n \<and> 0 \<le> n \<and> n < 2 ^ 32
      \<or> fb_lock f = Fb_Absolute_Height n \<and> 0 \<le> n \<and> n < 2 ^ 32" by blast
    show ?thesis using built_wire[OF bf(1) n, of prev succ] assms(2,3) unfolding bf(2) by auto
  qed
  then show ?thesis using m b by (auto simp: list_all_iff)
qed

definition demo_context :: build_context where
  "demo_context = \<lparr> ctx_decision_timeout_blocks = 6, ctx_recovery_height = 500,
     ctx_timeout_authorisers = [''02'' @ toHex (replicate 32 1), ''03'' @ toHex (replicate 32 2)],
     ctx_timeout_template_hash = toHex (replicate 32 3), ctx_recovery_signer = ''02'' @ toHex (replicate 32 1) \<rparr>"

lemma fallback_graph_is_timed_witness:
  "\<exists>bs. materialiseFallbackGraph (enumerateFallbackGraph (demo_at 10) demo_rules) demo_context = ok bs
    \<and> map (fb_kind \<circ> bf_branch) bs = [Cooperative, Timeout_Kind, Recovery_Kind]"
proof -
  have st: "state_class (demo_at 10) = S8_BET_DECISION" "recovery_deadline_block_height (demo_at 10) = Some 500"
    by code_simp+
  have "quorum_ok (ctx_timeout_authorisers demo_context)" "hex_string 64 (ctx_timeout_template_hash demo_context)"
    "compressed_pubkey_hex (ctx_recovery_signer demo_context)" by code_simp+
  then have c: "context_ok demo_rules (demo_at 10) demo_context"
    by (simp add: context_ok_def st) (simp add: demo_context_def demo_rules_def)
  obtain bs where "materialiseFallbackGraph (enumerateFallbackGraph (demo_at 10) demo_rules) demo_context = ok bs"
    "map bf_branch bs = enumerateFallbackGraph (demo_at 10) demo_rules"
    using fallback_graph_is_timed[OF c, of "\<lparr> po_prevTxid = replicate 32 0, po_prevVout = 0, po_prevValue = 5 \<rparr>"
        "\<lparr> so_value = 5, so_lockingScript = [] \<rparr>"] by (auto simp: u32_range_def)
  moreover from this(2) have "map fb_kind (map bf_branch bs) = [Cooperative, Timeout_Kind, Recovery_Kind]"
    by (simp add: enumerateFallbackGraph_def st)
  ultimately show ?thesis by auto
qed

text \<open>C29. The graph against the engine, in every reachable state: the cooperative branch names an action the
  engine accepts exactly when it is open in that state (a free seat, a player still to commit or reveal, a
  bet the limits and the pot admit, a covered settlement, a round that can be counted); no action of the
  type of a timeout branch is ever accepted, at any height, so every pre-signed timeout leads to a
  transition the engine does not have; there is a recovery branch, and an action of its type is accepted
  at a height exactly if the branch's locktime has passed. And the graph is complete up to the table lock,
  the concealed deal, the pass and the fold: nothing else that the engine accepts is missing from it.\<close>
theorem fallback_graph_against_engine:
  assumes "reachable rs s"
  shows "list_all (\<lambda>f. case fb_kind f of
        Cooperative \<Rightarrow> (\<exists>a h t. act_type a = fb_action f \<and> applyAction s a rs h = ok t) \<longleftrightarrow> cooperative_open rs s
      | Timeout_Kind \<Rightarrow> \<not> (\<exists>a h t. act_type a = fb_action f \<and> applyAction s a rs h = ok t)
      | Recovery_Kind \<Rightarrow> (\<exists>dl. fb_lock f = Fb_Absolute_Height dl
          \<and> (\<forall>h. (\<exists>a t. act_type a = fb_action f \<and> applyAction s a rs h = ok t) \<longleftrightarrow> dl \<le> h)))
      (enumerateFallbackGraph s rs)
    \<and> list_ex (\<lambda>f. fb_kind f = Recovery_Kind) (enumerateFallbackGraph s rs)
    \<and> (\<forall>a h t. applyAction s a rs h = ok t \<longrightarrow>
         act_type a \<in> fb_action ` set (enumerateFallbackGraph s rs) \<union> set (not_enumerated (state_class s)))"
proof -
  obtain dl where dl: "recovery_deadline_block_height s = Some dl"
    using reachable_recovery_height[OF assms] .
  have timeout: "timeoutDefaultFor c = Some ty \<Longrightarrow> ty = Timeout" for c ty by (cases c) auto
  have listed: "f \<in> set (enumerateFallbackGraph s rs) \<Longrightarrow>
      (fb_kind f = Cooperative \<and> cooperativeFor (state_class s) = Some (fb_action f))
      \<or> (fb_kind f = Timeout_Kind \<and> fb_action f = Timeout)
      \<or> (fb_kind f = Recovery_Kind \<and> fb_action f = Recovery \<and> fb_lock f = Fb_Absolute_Height dl)" for f
    using dl timeout by (auto simp: enumerateFallbackGraph_def split: option.splits)
  have "list_all (\<lambda>f. case fb_kind f of
        Cooperative \<Rightarrow> accepts rs s (fb_action f) \<longleftrightarrow> cooperative_open rs s
      | Timeout_Kind \<Rightarrow> \<not> accepts rs s (fb_action f)
      | Recovery_Kind \<Rightarrow> (\<exists>dl. fb_lock f = Fb_Absolute_Height dl
          \<and> (\<forall>h. (\<exists>a t. act_type a = fb_action f \<and> applyAction s a rs h = ok t) \<longleftrightarrow> dl \<le> h)))
      (enumerateFallbackGraph s rs)"
    unfolding list_all_iff using cooperative_accepted[OF assms] no_timeout[OF assms] recovery_accepted[OF dl]
    by (auto dest!: listed)
  moreover have "list_ex (\<lambda>f. fb_kind f = Recovery_Kind) (enumerateFallbackGraph s rs)"
    by (simp add: enumerateFallbackGraph_def dl)
  ultimately show ?thesis
    using accepted_is_listed[OF reachable_class_ok[OF assms] dl]
    unfolding accepts_def applyAction_iff_estep by blast
qed

lemma fallback_graph_against_engine_witness:
  "(\<exists>a h t. act_type a = BetAction \<and> applyAction (demo_at 10) a demo_rules h = ok t)
    \<and> \<not> (\<exists>a h t. act_type a = Timeout \<and> applyAction (demo_at 10) a demo_rules h = ok t)"
proof -
  have st: "state_class (demo_at 10) = S8_BET_DECISION" "pot_value (demo_at 10) = 0"
    by code_simp+
  then have "cooperative_open demo_rules (demo_at 10)"
    by (simp add: cooperative_open_def demo_rules_def MAX_SAFE_INTEGER_def)
  then show ?thesis
    using conjunct1[OF fallback_graph_against_engine[OF demo_reachable[of 10]]]
    by (simp add: enumerateFallbackGraph_def st)
qed

end
