(* ===== verification/Entropy.thy ===== *)
theory Entropy
  imports Canonical
begin

text \<open>
  \<open>packages/crypto-cards/src/encode.ts\<close>, \<open>hash.ts\<close> and \<open>entropy.ts\<close>: the primitive encoders of
  commitments, domain-separated hashing, and the commit-reveal exchange of the players' entropy.
  SHA-256 is the parameter \<open>sha\<close>; what is used of it is that its digests have 32 bytes, and where a
  property needs binding, that the strings hashed there do not collide.
\<close>

section \<open>Encoders\<close>

definition encodeU8 :: "int \<Rightarrow> byte list result" where
  "encodeU8 n = (if n < 0 \<or> n > 0xff then throw ''encodeU8'' else ok [u8 n])"

definition encodeU16LE :: "int \<Rightarrow> byte list result" where
  "encodeU16LE n =
     (if n < 0 \<or> n > 0xffff then throw ''encodeU16LE''
      else ok [u8 (js_and n 0xff), u8 (js_and (js_ushr n 8) 0xff)])"

definition encodeU32LE :: "int \<Rightarrow> byte list result" where
  "encodeU32LE n =
     (if n < 0 \<or> n > 0xffffffff then throw ''encodeU32LE''
      else ok [u8 (js_and n 0xff), u8 (js_and (js_ushr n 8) 0xff),
               u8 (js_and (js_ushr n 16) 0xff), u8 (js_and (js_ushr n 24) 0xff)])"

definition encodeBytes32 :: "byte list \<Rightarrow> byte list result" where
  "encodeBytes32 b = (if length b \<noteq> 32 then throw ''encodeBytes32'' else ok b)"

definition encodeVarint :: "int \<Rightarrow> byte list result" where
  "encodeVarint n =
     (if \<not> isSafeInteger n \<or> n < 0 then throw ''encodeVarint''
      else if n < 0xfd then ok [u8 n]
      else if n \<le> 0xffff then ok [u8 0xfd, u8 (js_and n 0xff), u8 (js_and (js_ushr n 8) 0xff)]
      else if n \<le> 0xffffffff then ok (u8 0xfe # le_bytes 4 n)
      else let high = n div 0x100000000; low = js_ushr n 0
        in ok (u8 0xff # le_bytes 4 low @ le_bytes 4 high))"

text \<open>The same bytes as every other varint encoder of the repository.\<close>

lemma encodeVarint_eq: "encodeVarint n = (if safe_nat n then ok (varint_bytes n) else throw ''encodeVarint'')"
proof -
  have "le_bytes 4 (js_ushr n 0) @ le_bytes 4 (n div 0x100000000) = le_bytes 8 n"
    using le_bytes_add[of 4 4 n] by (simp add: le_bytes_ushr)
  then show ?thesis
    by (simp add: encodeVarint_def safe_nat_iff varint_bytes_def Let_def u8_ushr flip: le_bytes_2)
qed

lemma encodeU32LE_eq:
  "encodeU32LE n = (if 0 \<le> n \<and> n \<le> 0xffffffff then ok (le_bytes 4 n) else throw ''encodeU32LE'')"
  by (auto simp: encodeU32LE_def u8_ushr simp flip: le_bytes_4)

section \<open>Domain-separated hashing\<close>

definition TAG_ENTROPY_COMMITMENT :: int where "TAG_ENTROPY_COMMITMENT = 0x0005"
definition TAG_ENTROPY_REVEAL :: int where "TAG_ENTROPY_REVEAL = 0x0006"
definition TAG_DECK_COMMITMENT :: int where "TAG_DECK_COMMITMENT = 0x0007"
definition TAG_CARD :: int where "TAG_CARD = 0x0008"
definition TAG_REVEAL_PROOF :: int where "TAG_REVEAL_PROOF = 0x000c"

lemmas tags = TAG_ENTROPY_COMMITMENT_def TAG_ENTROPY_REVEAL_def TAG_DECK_COMMITMENT_def
  TAG_CARD_def TAG_REVEAL_PROOF_def

definition domainHash :: "(byte list \<Rightarrow> byte list) \<Rightarrow> int \<Rightarrow> byte list list \<Rightarrow> byte list result" where
  "domainHash sha typeTag parts = res_bind (encodeU16LE typeTag) (\<lambda>tag. ok (sha (tag @ concat parts)))"

section \<open>Entropy commitments\<close>

definition commitEntropy ::
  "(byte list \<Rightarrow> byte list) \<Rightarrow> byte list \<Rightarrow> byte list \<Rightarrow> byte list \<Rightarrow> byte list result" where
  "commitEntropy sha entropy playerId gameId =
     res_bind (encodeBytes32 entropy) (\<lambda>e. res_bind (encodeBytes32 playerId) (\<lambda>p.
     res_bind (encodeBytes32 gameId) (\<lambda>g. domainHash sha TAG_ENTROPY_COMMITMENT [e, p, g])))"

text \<open>\<open>diff |= a[i] ^ b[i]\<close> over all positions.\<close>

definition constantTimeEquals :: "byte list \<Rightarrow> byte list \<Rightarrow> bool" where
  "constantTimeEquals a b =
     (if length a \<noteq> length b then False
      else foldl (\<lambda>diff (x, y). diff OR (x XOR y)) 0 (zip a b) = 0)"

definition verifyEntropyReveal ::
  "(byte list \<Rightarrow> byte list) \<Rightarrow> byte list \<Rightarrow> byte list \<Rightarrow> byte list \<Rightarrow> byte list \<Rightarrow> bool result" where
  "verifyEntropyReveal sha commitment entropy playerId gameId =
     res_bind (commitEntropy sha entropy playerId gameId) (\<lambda>recomputed.
       ok (constantTimeEquals recomputed commitment))"

definition combineEntropy :: "(byte list \<Rightarrow> byte list) \<Rightarrow> byte list list \<Rightarrow> byte list result" where
  "combineEntropy sha entropies =
     (if entropies = [] then throw ''combineEntropy''
      else res_bind (encodeVarint (int (length entropies))) (\<lambda>n.
           res_bind (map_res encodeBytes32 entropies) (\<lambda>es.
             domainHash sha TAG_DECK_COMMITMENT (n # es))))"

definition commitEntropyHex ::
  "(byte list \<Rightarrow> byte list) \<Rightarrow> byte list \<Rightarrow> byte list \<Rightarrow> byte list \<Rightarrow> string result" where
  "commitEntropyHex sha entropy playerId gameId =
     res_bind (commitEntropy sha entropy playerId gameId) (\<lambda>h. ok (toHex h))"

section \<open>Lemmas\<close>

lemma or_fold_zero:
  "foldl (\<lambda>diff (x, y). diff OR (x XOR y)) d zs = (0 :: byte) \<longleftrightarrow> d = 0 \<and> (\<forall>(x, y) \<in> set zs. x = y)"
proof (induction zs arbitrary: d)
  case (Cons z zs)
  obtain x y where z: "z = (x, y)" by force
  have "x XOR y = 0 \<longleftrightarrow> x = y"
  proof
    assume "x XOR y = 0"
    then have "(x XOR y) XOR y = y" by simp
    then show "x = y" by (simp add: xor.assoc)
  qed simp
  moreover have "d OR (x XOR y) = 0 \<longleftrightarrow> d = 0 \<and> x XOR y = 0" by (simp add: or_eq_0_iff)
  ultimately show ?case using Cons.IH[of "d OR (x XOR y)"] by (simp add: z)
qed simp

lemma constantTimeEquals_iff: "constantTimeEquals a b \<longleftrightarrow> a = b"
  by (simp add: constantTimeEquals_def or_fold_zero list_eq_iff_zip_eq)

lemma map_res_bytes32: "map_res encodeBytes32 es = (if \<forall>e \<in> set es. length e = 32 then ok es else throw ''encodeBytes32'')"
  by (induction es) (auto simp: encodeBytes32_def)

definition tag_bytes :: "int \<Rightarrow> byte list" where
  "tag_bytes t = le_bytes 2 t"

lemma domainHash_eq: "0 \<le> t \<Longrightarrow> t \<le> 0xffff \<Longrightarrow> domainHash sha t parts = ok (sha (tag_bytes t @ concat parts))"
  by (simp add: domainHash_def encodeU16LE_def tag_bytes_def u8_ushr flip: le_bytes_2)

text \<open>The string hashed by \<open>commitEntropy\<close>.\<close>

definition entropy_preimage :: "byte list \<Rightarrow> byte list \<Rightarrow> byte list \<Rightarrow> byte list" where
  "entropy_preimage e p g = tag_bytes TAG_ENTROPY_COMMITMENT @ e @ p @ g"

lemma commitEntropy_eq:
  "commitEntropy sha e p g =
     (if length e = 32 \<and> length p = 32 \<and> length g = 32 then ok (sha (entropy_preimage e p g))
      else throw ''encodeBytes32'')"
  by (simp add: commitEntropy_def encodeBytes32_def domainHash_eq tags entropy_preimage_def)

definition combined_preimage :: "byte list list \<Rightarrow> byte list" where
  "combined_preimage es = tag_bytes TAG_DECK_COMMITMENT @ varint_bytes (int (length es)) @ concat es"

lemma combineEntropy_ok_iff:
  "combineEntropy sha es = ok c \<longleftrightarrow>
     es \<noteq> [] \<and> (\<forall>e \<in> set es. length e = 32) \<and> safe_nat (int (length es)) \<and> c = sha (combined_preimage es)"
proof -
  have d: "domainHash sha TAG_DECK_COMMITMENT (varint_bytes (int (length es)) # es) = ok (sha (combined_preimage es))"
    using domainHash_eq[of TAG_DECK_COMMITMENT] by (simp add: tags combined_preimage_def)
  show ?thesis
    by (cases "safe_nat (int (length es))"; cases "\<forall>e \<in> set es. length e = 32")
       (simp_all add: combineEntropy_def encodeVarint_eq map_res_bytes32 d eq_commute[of c])
qed

lemma combined_preimage_inj:
  assumes "\<forall>e \<in> set es. length e = 32" and "\<forall>e \<in> set fs. length e = 32"
    and "combined_preimage es = combined_preimage fs"
    and "safe_nat (int (length es))" and "safe_nat (int (length fs))"
  shows "es = fs"
proof -
  have "varint_bytes (int (length es)) @ concat es = varint_bytes (int (length fs)) @ concat fs"
    using assms(3) by (simp add: combined_preimage_def)
  note eq = this
  have "concat es = concat fs"
    using reader_varint_bytes[OF assms(4), of "concat es", unfolded eq]
      reader_varint_bytes[OF assms(5), of "concat fs"] by simp
  then show ?thesis
    using concat_blocks[of 32 es "\<lambda>x. x" fs] assms(1,2) by simp
qed

section \<open>Properties\<close>

text \<open>Entropy commitments are correct and binding: a player's own entropy always opens the
  commitment made from it, and two openings of one commitment that are both accepted reveal the same
  entropy for the same player and game, unless SHA-256 collides on the two strings hashed.\<close>
theorem entropy_commitment_binding:
  assumes "commitEntropy sha e p g = ok c"
  shows "verifyEntropyReveal sha c e p g = ok True
    \<and> (\<forall>e' p' g'. verifyEntropyReveal sha c e' p' g' = ok True \<longrightarrow>
        inj_on sha {entropy_preimage e p g, entropy_preimage e' p' g'} \<longrightarrow> e' = e \<and> p' = p \<and> g' = g)"
proof (intro conjI allI impI)
  show "verifyEntropyReveal sha c e p g = ok True"
    by (simp add: verifyEntropyReveal_def assms constantTimeEquals_iff)
next
  fix e' p' g'
  assume v: "verifyEntropyReveal sha c e' p' g' = ok True"
    and inj: "inj_on sha {entropy_preimage e p g, entropy_preimage e' p' g'}"
  from v assms have l: "length e = 32" "length p = 32" "length e' = 32" "length p' = 32"
    and s: "sha (entropy_preimage e p g) = sha (entropy_preimage e' p' g')"
    by (auto simp: verifyEntropyReveal_def commitEntropy_eq constantTimeEquals_iff split: if_splits)
  from inj_onD[OF inj s] have "entropy_preimage e p g = entropy_preimage e' p' g'" by blast
  then have "e @ p @ g = e' @ p' @ g'" by (simp add: entropy_preimage_def)
  then show "e' = e" "p' = p" "g' = g" using l by (simp_all add: append_eq_append_conv)
qed

lemma entropy_commitment_binding_witness:
  "verifyEntropyReveal (\<lambda>x. take 32 (drop 2 x)) (replicate 32 1) (replicate 32 1) (replicate 32 2)
     (replicate 32 3) = ok True"
proof -
  have "commitEntropy (\<lambda>x. take 32 (drop 2 x)) (replicate 32 1) (replicate 32 2) (replicate 32 3)
    = ok (replicate 32 1)"
    by (simp add: commitEntropy_eq entropy_preimage_def tag_bytes_def)
  from entropy_commitment_binding[OF this] show ?thesis by (elim conjE)
qed

text \<open>Combining entropy is binding on the whole list: the combined entropy exists exactly for a
  non-empty list of 32-byte values (of representable length), and two lists with the same combined
  entropy are equal, in content, length and order, unless SHA-256 collides on the two strings hashed.\<close>
theorem combined_entropy_binding:
  assumes "combineEntropy sha es = ok c" and "combineEntropy sha fs = ok c"
    and "inj_on sha {combined_preimage es, combined_preimage fs}"
  shows "es = fs \<and> es \<noteq> [] \<and> list_all (\<lambda>e. length e = 32) es"
proof -
  from assms(1,2) have c: "sha (combined_preimage es) = sha (combined_preimage fs)"
    and l: "\<forall>e \<in> set es. length e = 32" "\<forall>e \<in> set fs. length e = 32" "es \<noteq> []"
      "safe_nat (int (length es))" "safe_nat (int (length fs))"
    unfolding combineEntropy_ok_iff by simp_all
  from inj_onD[OF assms(3) c] have "combined_preimage es = combined_preimage fs" by blast
  from combined_preimage_inj[OF l(1,2) this l(4,5)] show ?thesis using l by (simp add: list_all_iff)
qed

lemma combined_entropy_binding_witness:
  "list_all (\<lambda>e. length e = 32) [replicate 32 1, replicate 32 (2 :: byte)]"
proof -
  let ?es = "[replicate 32 1, replicate 32 2]"
  have "combineEntropy (\<lambda>x. take 32 (drop 3 x)) ?es = ok (replicate 32 1)"
    unfolding combineEntropy_ok_iff
    by (simp add: combined_preimage_def tag_bytes_def varint_bytes_def safe_nat_def MAX_SAFE_INTEGER_def)
  from combined_entropy_binding[OF this this] show ?thesis by simp
qed

end
