(* ===== verification/Shuffle.thy ===== *)
theory Shuffle
  imports Entropy
begin

unbundle bit_operations_syntax

text \<open>
  \<open>packages/crypto-cards/src/shuffle.ts\<close>: the SHA-256 counter-mode byte stream, the rejection
  sampling of \<open>drawUniform\<close>, and the Fisher-Yates shuffle. The rejection loop need not return for an
  arbitrary digest function, so it and the shuffle are partial (\<^const>\<open>None\<close>); with 32-byte digests
  the counter runs out at last, and they always return.
\<close>

section \<open>The byte stream\<close>

record prg =
  prg_buf :: "byte list"
  prg_offset :: nat
  prg_counter :: int
  prg_seed :: "byte list"

definition new_prg :: "byte list \<Rightarrow> prg result" where
  "new_prg seed =
     (if length seed \<noteq> 32 then throw ''Sha256CounterPrg''
      else ok \<lparr> prg_buf = [], prg_offset = 0, prg_counter = 0, prg_seed = seed \<rparr>)"

definition nextByte :: "(byte list \<Rightarrow> byte list) \<Rightarrow> prg \<Rightarrow> (int \<times> prg) result" where
  "nextByte sha p =
     res_bind
       (if prg_offset p \<ge> length (prg_buf p)
        then res_bind (encodeU32LE (prg_counter p)) (\<lambda>ctr.
          ok (p\<lparr> prg_buf := sha (prg_seed p @ ctr), prg_counter := prg_counter p + 1, prg_offset := 0 \<rparr>))
        else ok p)
       (\<lambda>p. ok (uint (prg_buf p ! prg_offset p), p\<lparr> prg_offset := prg_offset p + 1 \<rparr>))"

text \<open>Four bytes of the stream as a 32-bit number.\<close>

definition nextWord :: "(byte list \<Rightarrow> byte list) \<Rightarrow> prg \<Rightarrow> (int \<times> prg) result" where
  "nextWord sha p =
     res_bind (nextByte sha p) (\<lambda>(b0, p). res_bind (nextByte sha p) (\<lambda>(b1, p).
     res_bind (nextByte sha p) (\<lambda>(b2, p). res_bind (nextByte sha p) (\<lambda>(b3, p).
       ok (js_ushr (js_or (js_or (js_or b0 (js_shl b1 8)) (js_shl b2 16)) (js_shl b3 24)) 0, p)))))"

text \<open>The endless loop of \<open>drawUniform\<close>.\<close>

partial_function (option) draw_loop ::
  "(byte list \<Rightarrow> byte list) \<Rightarrow> int \<Rightarrow> int \<Rightarrow> prg \<Rightarrow> (int \<times> prg) result option" where
  "draw_loop sha limit bound p =
     (case nextWord sha p of
        Inl e \<Rightarrow> Some (Inl e)
      | Inr (v, p') \<Rightarrow>
          if v < limit then Some (ok (js_rem v bound, p')) else draw_loop sha limit bound p')"

declare draw_loop.simps [code]

definition drawUniform :: "(byte list \<Rightarrow> byte list) \<Rightarrow> int \<Rightarrow> prg \<Rightarrow> (int \<times> prg) result option" where
  "drawUniform sha mx p =
     (if mx < 0 \<or> mx > 0xffffffff then Some (throw ''drawUniform'')
      else if mx = 0 then Some (ok (0, p))
      else let bound = mx + 1; limit = (0x100000000 div bound) * bound
        in draw_loop sha limit bound p)"

section \<open>The shuffle\<close>

definition swap :: "nat \<Rightarrow> nat \<Rightarrow> 'a list \<Rightarrow> 'a list" where
  "swap i j deck = (let tmp = deck ! i in (deck[i := deck ! j])[j := tmp])"

text \<open>\<open>for (let i = deckSize - 1; i >= 1; i--)\<close>, from a given \<open>i\<close>.\<close>

fun shuffle_loop ::
  "(byte list \<Rightarrow> byte list) \<Rightarrow> nat \<Rightarrow> int list \<Rightarrow> prg \<Rightarrow> int list result option" where
  "shuffle_loop sha 0 deck p = Some (ok deck)"
| "shuffle_loop sha (Suc i) deck p =
     (case drawUniform sha (int (Suc i)) p of
        None \<Rightarrow> None
      | Some (Inl e) \<Rightarrow> Some (Inl e)
      | Some (Inr (j, p')) \<Rightarrow> shuffle_loop sha i (swap (Suc i) (nat j) deck) p')"

definition shuffleCanonicalDeck ::
  "(byte list \<Rightarrow> byte list) \<Rightarrow> byte list \<Rightarrow> int \<Rightarrow> int list result option" where
  "shuffleCanonicalDeck sha combined deckSize =
     (if deckSize \<noteq> 52 \<and> deckSize \<noteq> 54 then Some (throw ''shuffleCanonicalDeck'')
      else case new_prg combined of
          Inl e \<Rightarrow> Some (Inl e)
        | Inr p \<Rightarrow> shuffle_loop sha (nat deckSize - 1) (map int [0..<nat deckSize]) p)"

section \<open>Termination\<close>

text \<open>The bytes the stream can still deliver before the counter runs out.\<close>

definition stream_left :: "prg \<Rightarrow> nat" where
  "stream_left p = 32 * nat (0x100000000 - prg_counter p) + (length (prg_buf p) - prg_offset p)"

definition prg_ok :: "prg \<Rightarrow> bool" where
  "prg_ok p \<longleftrightarrow> 0 \<le> prg_counter p \<and> length (prg_seed p) = 32 \<and>
     (prg_buf p = [] \<or> length (prg_buf p) = 32) \<and> prg_offset p \<le> length (prg_buf p)"

lemma nextByte_step:
  assumes sha: "\<And>x. length (sha x) = 32" and p: "prg_ok p" and n: "nextByte sha p = ok (b, p')"
  shows "prg_ok p' \<and> stream_left p' < stream_left p \<and> 0 \<le> b \<and> b < 256"
proof (cases "prg_offset p \<ge> length (prg_buf p)")
  case True
  then obtain ctr where "encodeU32LE (prg_counter p) = ok ctr" and c: "prg_counter p \<le> 0xffffffff"
    and p': "p' = p\<lparr> prg_buf := sha (prg_seed p @ ctr), prg_counter := prg_counter p + 1, prg_offset := 1 \<rparr>"
    and b: "b = uint (sha (prg_seed p @ ctr) ! 0)"
    using n by (auto simp: nextByte_def res_bind_eq_Inr encodeU32LE_eq split: if_splits)
  have "32 * nat (0x100000000 - prg_counter p) = 32 + 32 * nat (0x100000000 - (prg_counter p + 1))"
    using c p by (simp add: prg_ok_def nat_diff_distrib')
  moreover have "prg_offset p = length (prg_buf p)" using True p by (simp add: prg_ok_def)
  ultimately show ?thesis
    using p sha uint_lt2p[of "sha (prg_seed p @ ctr) ! 0"] by (simp add: p' b prg_ok_def stream_left_def)
next
  case False
  then show ?thesis
    using n p uint_lt2p[of "prg_buf p ! prg_offset p"]
    by (auto simp: nextByte_def prg_ok_def stream_left_def)
qed

lemma nextWord_step:
  assumes sha: "\<And>x. length (sha x) = 32" and p: "prg_ok p" and n: "nextWord sha p = ok (v, p')"
  shows "prg_ok p' \<and> stream_left p' < stream_left p \<and> 0 \<le> v"
proof -
  from n obtain b0 p0 b1 p1 b2 p2 b3 where
    "nextByte sha p = ok (b0, p0)" "nextByte sha p0 = ok (b1, p1)" "nextByte sha p1 = ok (b2, p2)"
    "nextByte sha p2 = ok (b3, p')" and
    v: "v = js_ushr (js_or (js_or (js_or b0 (js_shl b1 8)) (js_shl b2 16)) (js_shl b3 24)) 0"
    by (auto simp: nextWord_def res_bind_eq_Inr)
  then have "prg_ok p' \<and> stream_left p' < stream_left p"
    using nextByte_step[OF sha] p by (meson less_trans)
  then show ?thesis by (simp add: v js_ushr_def)
qed

lemma draw_loop_returns:
  assumes sha: "\<And>x. length (sha x) = 32" and "prg_ok p" and "0 < bound"
  shows "\<exists>r. draw_loop sha limit bound p = Some r \<and>
    (\<forall>j p'. r = ok (j, p') \<longrightarrow> prg_ok p' \<and> 0 \<le> j \<and> j < bound)"
  using assms(2)
proof (induction "stream_left p" arbitrary: p rule: less_induct)
  case less
  show ?case
  proof (cases "nextWord sha p")
    case (Inl e)
    then show ?thesis by (subst draw_loop.simps) simp
  next
    case (Inr vp)
    obtain v p' where vp: "vp = (v, p')" by force
    note step = nextWord_step[OF sha less.prems Inr[unfolded vp]]
    show ?thesis
    proof (cases "v < limit")
      case True
      then show ?thesis using Inr vp step assms(3) by (subst draw_loop.simps) (simp add: js_rem_nonneg)
    next
      case False
      then show ?thesis using Inr vp step less.hyps[of p'] by (subst draw_loop.simps) simp
    qed
  qed
qed

lemma drawUniform_returns:
  assumes "\<And>x. length (sha x) = 32" and "prg_ok p" and "0 < mx" and "mx \<le> 0xffffffff"
  shows "\<exists>r. drawUniform sha mx p = Some r \<and> (\<forall>j p'. r = ok (j, p') \<longrightarrow> prg_ok p' \<and> 0 \<le> j \<and> j \<le> mx)"
  using draw_loop_returns[of sha p "mx + 1" "0x100000000 div (mx + 1) * (mx + 1)"] assms
  by (auto simp: drawUniform_def Let_def)

lemma swap_mset: "i < length deck \<Longrightarrow> j < length deck \<Longrightarrow> mset (swap i j deck) = mset deck"
  by (simp add: swap_def Let_def mset_swap)

lemma shuffle_loop_returns:
  assumes sha: "\<And>x. length (sha x) = 32" and "prg_ok p" and "i < length deck" and "int i \<le> 0xffffffff"
  shows "\<exists>r. shuffle_loop sha i deck p = Some r \<and> (\<forall>d. r = ok d \<longrightarrow> mset d = mset deck)"
  using assms(2-)
proof (induction i arbitrary: deck p)
  case (Suc i)
  have "\<exists>r. drawUniform sha (int (Suc i)) p = Some r \<and>
      (\<forall>j p'. r = ok (j, p') \<longrightarrow> prg_ok p' \<and> 0 \<le> j \<and> j \<le> int (Suc i))"
    by (rule drawUniform_returns) (use sha Suc.prems in simp_all)
  then obtain r where r: "drawUniform sha (int (Suc i)) p = Some r"
    "\<forall>j p'. r = ok (j, p') \<longrightarrow> prg_ok p' \<and> 0 \<le> j \<and> j \<le> int (Suc i)" by blast
  show ?case
  proof (cases r)
    case (Inl e)
    then show ?thesis using r(1) by simp
  next
    case (Inr jp)
    obtain j p' where jp: "jp = (j, p')" by force
    then have j: "prg_ok p'" "nat j < length deck" using r(2) Inr Suc.prems(2) by auto
    have "length (swap (Suc i) (nat j) deck) = length deck" by (simp add: swap_def Let_def)
    then show ?thesis
      using Suc.IH[OF j(1), of "swap (Suc i) (nat j) deck"] Suc.prems(2,3) swap_mset[OF Suc.prems(2) j(2)]
        r(1) Inr jp by simp
  qed
qed simp

section \<open>Words of the stream\<close>

text \<open>A draw that returns has read at least one word.\<close>

lemma draw_loop_consumes:
  assumes sha: "\<And>x. length (sha x) = 32" and "prg_ok p" and "draw_loop sha limit bound p = Some (ok (j, p'))"
  shows "stream_left p' < stream_left p"
  using assms(2,3)
proof (induction "stream_left p" arbitrary: p rule: less_induct)
  case less
  obtain v q where n: "nextWord sha p = ok (v, q)"
    using less.prems(2) by (subst (asm) draw_loop.simps) (auto split: sum.splits)
  note step = nextWord_step[OF sha less.prems(1) n]
  show ?case
  proof (cases "v < limit")
    case True
    then show ?thesis using less.prems(2) n step by (subst (asm) draw_loop.simps) simp
  next
    case False
    then have "draw_loop sha limit bound q = Some (ok (j, p'))"
      using less.prems(2) n by (subst (asm) draw_loop.simps) simp
    then show ?thesis using less.hyps[of q] step by fastforce
  qed
qed

text \<open>One attempt: a word below the limit gives its residue, any other is thrown away.\<close>

lemma draw_attempt:
  assumes "0 < mx" and "mx \<le> 0xffffffff" and n: "nextWord sha p = ok (v, p')"
  shows "drawUniform sha mx p =
    (if v < 0x100000000 div (mx + 1) * (mx + 1) then Some (ok (v mod (mx + 1), p')) else drawUniform sha mx p')"
proof -
  have "0 \<le> v" using n by (auto simp: nextWord_def res_bind_eq_Inr js_ushr_def)
  then show ?thesis using assms by (simp add: drawUniform_def Let_def draw_loop.simps[of sha _ _ p] js_rem_nonneg)
qed

text \<open>A stream whose next four bytes are those of the word \<open>w\<close>, in a block that goes on with \<open>rest\<close>.\<close>

definition word_stream :: "byte list \<Rightarrow> int \<Rightarrow> byte list \<Rightarrow> int \<Rightarrow> prg" where
  "word_stream seed ctr rest w =
     \<lparr> prg_buf = le_bytes 4 w @ rest, prg_offset = 0, prg_counter = ctr, prg_seed = seed \<rparr>"

lemma word32_of_bytes:
  "word32 (w mod 256) OR push_bit 8 (word32 (w div 256 mod 256)) OR push_bit 16 (word32 (w div 65536 mod 256))
     OR push_bit 24 (word32 (w div 16777216 mod 256)) = word32 w"
proof (rule bit_word_eqI)
  fix n assume n: "n < LENGTH(32)"
  have b: "bit (w div 2 ^ k mod 2 ^ 8) j \<longleftrightarrow> j < 8 \<and> bit w (k + j)" for k j
    by (simp only: drop_bit_eq_div[symmetric] take_bit_eq_mod[symmetric] bit_take_bit_iff bit_drop_bit_eq o_def)
  note bits = b[of 0, simplified] b[of 8, simplified] b[of 16, simplified] b[of 24, simplified]
  have "n < 8 \<or> 8 \<le> n \<and> n < 16 \<or> 16 \<le> n \<and> n < 24 \<or> 24 \<le> n \<and> n < 32" using n by auto
  then show "bit (word32 (w mod 256) OR push_bit 8 (word32 (w div 256 mod 256)) OR push_bit 16 (word32 (w div 65536 mod 256))
     OR push_bit 24 (word32 (w div 16777216 mod 256))) n = bit (word32 w) n"
    by (elim disjE) (auto simp: bit_or_iff bit_push_bit_iff bit_word_of_int_iff bits)
qed

lemma word32_sint: "word32 (sint (x :: 32 word)) = x"
  by simp

lemma next_word_stream:
  assumes "0 \<le> w" and "w < 0x100000000"
  shows "nextWord sha (word_stream seed ctr rest w)
    = ok (w, (word_stream seed ctr rest w)\<lparr> prg_offset := 4 \<rparr>)"
proof -
  let ?S = "\<lambda>k. (word_stream seed ctr rest w)\<lparr> prg_offset := k \<rparr>"
  have bytes: "le_bytes 4 w = [u8 w, u8 (w div 256), u8 (w div 65536), u8 (w div 16777216)]"
    using le_bytes_4[of w] by simp
  have nb: "nextByte sha (?S k) = ok (uint ((le_bytes 4 w @ rest) ! k), ?S (Suc k))" if "k < 4" for k
    using that by (simp add: nextByte_def word_stream_def)
  have "nextByte sha (?S 0) = ok (w mod 256, ?S 1)" "nextByte sha (?S 1) = ok (w div 256 mod 256, ?S 2)"
    "nextByte sha (?S 2) = ok (w div 65536 mod 256, ?S 3)" "nextByte sha (?S 3) = ok (w div 16777216 mod 256, ?S 4)"
    using nb[of 0] nb[of 1] nb[of 2] nb[of 3] by (simp_all add: bytes uint_u8 numeral_eq_Suc zdiv_zmult2_eq[symmetric])
  moreover have "?S 0 = word_stream seed ctr rest w" by (simp add: word_stream_def)
  moreover have "js_ushr (js_or (js_or (js_or (w mod 256) (js_shl (w div 256 mod 256) 8))
      (js_shl (w div 65536 mod 256) 16)) (js_shl (w div 16777216 mod 256) 24)) 0 = w"
  proof -
    have "js_ushr (js_or (js_or (js_or (w mod 256) (js_shl (w div 256 mod 256) 8))
        (js_shl (w div 65536 mod 256) 16)) (js_shl (w div 16777216 mod 256) 24)) 0 = uint (word32 w)"
      by (simp only: js_ushr_def js_or_def js_shl_def word32_sint or.assoc drop_bit_0 id_apply word32_of_bytes)
    also have "uint (word32 w) = w" using assms by (simp add: uint_word_of_int)
    finally show ?thesis .
  qed
  ultimately show ?thesis by (simp only: nextWord_def res_bind_Inr case_prod_conv)
qed

lemma residues_below_limit:
  assumes "0 < b" and "0 \<le> r" and "r < b" and "0 \<le> q"
  shows "card {w \<in> {0..<q * b}. w mod b = r} = nat q"
proof -
  have "bij_betw (\<lambda>k. k * b + r) {0..<q} {w \<in> {0..<q * b}. w mod b = r}"
  proof (rule bij_betw_byWitness[where f' = "\<lambda>w. w div b"])
    show "\<forall>k \<in> {0..<q}. (k * b + r) div b = k" using assms by simp
    show "\<forall>w \<in> {w \<in> {0..<q * b}. w mod b = r}. w div b * b + r = w"
      using div_mult_mod_eq[of _ b] by auto
    show "(\<lambda>k. k * b + r) ` {0..<q} \<subseteq> {w \<in> {0..<q * b}. w mod b = r}"
    proof
      fix w assume "w \<in> (\<lambda>k. k * b + r) ` {0..<q}"
      then obtain k where k: "0 \<le> k" "k < q" "w = k * b + r" by auto
      have "(k + 1) * b \<le> q * b" using k(2) assms(1) by (intro mult_right_mono) auto
      then have "w < q * b" using assms(3) k(3) by (simp add: algebra_simps)
      moreover have "0 \<le> w" "w mod b = r" using k assms by simp_all
      ultimately show "w \<in> {w \<in> {0..<q * b}. w mod b = r}" by simp
    qed
    show "(\<lambda>w. w div b) ` {w \<in> {0..<q * b}. w mod b = r} \<subseteq> {0..<q}"
    proof
      fix k assume "k \<in> (\<lambda>w. w div b) ` {w \<in> {0..<q * b}. w mod b = r}"
      then obtain w where w: "0 \<le> w" "w < q * b" "k = w div b" by auto
      have "w div b * b \<le> w" using div_mult_mod_eq[of w b] pos_mod_sign[of b w] assms(1) by linarith
      then have "k * b < q * b" using w by simp
      then have "k < q" using assms(1) by (simp add: mult_less_cancel_right)
      then show "k \<in> {0..<q}" using w assms(1) by (simp add: pos_imp_zdiv_nonneg_iff)
    qed
  qed
  then show ?thesis using bij_betw_same_card by fastforce
qed

text \<open>The words on which the code returns \<open>r\<close> at once are those below the limit with that residue.\<close>

lemma draw_at_once:
  assumes sha: "\<And>x. length (sha x) = 32" and mx: "0 < mx" "mx \<le> 0xffffffff"
    and stream: "length seed = 32" "0 \<le> ctr" "length rest = 28" and w: "0 \<le> w" "w < 0x100000000"
  shows "drawUniform sha mx (word_stream seed ctr rest w)
      = Some (ok (r, (word_stream seed ctr rest w)\<lparr> prg_offset := 4 \<rparr>))
    \<longleftrightarrow> w < 0x100000000 div (mx + 1) * (mx + 1) \<and> w mod (mx + 1) = r"
proof -
  let ?p = "word_stream seed ctr rest w" and ?p' = "(word_stream seed ctr rest w)\<lparr> prg_offset := 4 \<rparr>"
  have ok: "prg_ok ?p'" using stream by (simp add: word_stream_def prg_ok_def)
  have "drawUniform sha mx ?p' \<noteq> Some (ok (r, ?p'))"
    using draw_loop_consumes[of sha, OF sha ok, of "0x100000000 div (mx + 1) * (mx + 1)" "mx + 1" r ?p'] mx
    by (auto simp: drawUniform_def Let_def)
  then show ?thesis unfolding draw_attempt[OF mx next_word_stream[OF w]] by simp
qed

section \<open>Properties\<close>

lemma new_prg_ok: "new_prg seed = ok p \<Longrightarrow> prg_ok p"
  by (auto simp: new_prg_def prg_ok_def split: if_splits)

lemma shuffle_returns_permutation:
  assumes "\<And>x. length (sha x) = 32" and "length combined = 32" and "n = 52 \<or> n = 54"
  shows "\<exists>r. shuffleCanonicalDeck sha combined n = Some r
    \<and> (\<forall>deck. r = ok deck \<longrightarrow> distinct deck \<and> set deck = {0..<n} \<and> int (length deck) = n)"
proof -
  obtain p where p: "new_prg combined = ok p" "prg_ok p"
    using assms(2) new_prg_ok[of combined] by (simp add: new_prg_def)
  let ?deck = "map int [0..<nat n]"
  have "\<exists>r. shuffle_loop sha (nat n - 1) ?deck p = Some r \<and> (\<forall>d. r = ok d \<longrightarrow> mset d = mset ?deck)"
    by (rule shuffle_loop_returns) (use assms(1,3) p(2) in auto)
  moreover have "distinct d \<and> set d = {0..<n} \<and> int (length d) = n" if "mset d = mset ?deck" for d
  proof -
    have "set d = int ` {0..<nat n}" using mset_eq_setD[OF that] by simp
    moreover have "distinct ?deck" by (simp add: distinct_map)
    then have "distinct d" using mset_eq_imp_distinct_iff[OF that] by simp
    moreover have "length d = nat n" using mset_eq_length[OF that] by simp
    ultimately show ?thesis using assms(3) image_int_atLeastLessThan[of 0 "nat n"] by auto
  qed
  ultimately show ?thesis using p(1) assms(3) by (auto simp: shuffleCanonicalDeck_def)
qed

lemma shuffle_perm_facts:
  assumes "\<And>x. length (sha x) = 32" and "length combined = 32" and "n = 52 \<or> n = 54"
    and "shuffleCanonicalDeck sha combined n = Some (ok deck)"
  shows "distinct deck \<and> set deck = {0..<n} \<and> int (length deck) = n"
  using shuffle_returns_permutation[of sha combined n] assms by auto

text \<open>C18. The shuffle always returns and only ever returns permutations: for a 32-byte seed and a deck
  of 52 or 54 cards, with a digest of 32 bytes, it returns (its rejection loop cannot run forever,
  since the block counter is bounded), and if it does not throw its result holds each of
  \<open>0..deckSize-1\<close> exactly once.\<close>
theorem shuffle_is_permutation:
  assumes "\<And>x. length (sha x) = 32" and "length combined = 32" and "n = 52 \<or> n = 54"
  shows "\<exists>r. shuffleCanonicalDeck sha combined n = Some r
    \<and> (\<forall>deck. r = ok deck \<longrightarrow> distinct deck \<and> set deck = {0..<n} \<and> int (length deck) = n)"
  by (rule shuffle_returns_permutation) (use assms in auto)

lemma shuffle_is_permutation_witness:
  "\<exists>r. shuffleCanonicalDeck (\<lambda>x. replicate 32 0) (replicate 32 1) 52 = Some r"
  using shuffle_is_permutation[of "\<lambda>x. replicate 32 0" "replicate 32 1" 52] by auto

text \<open>C19. The draw is unbiased. Whatever the state of the byte stream, a word below the limit is returned
  as its residue and any other word is thrown away and the draw starts again behind it. And counting over
  all 32-bit words that may come next, the code returns each value \<open>0..max\<close> at once for equally many of
  them, the whole multiples of \<open>max + 1\<close> in the range: so a uniform stream yields a uniform draw.\<close>
theorem draw_is_unbiased:
  assumes "\<And>x. length (sha x) = 32" and "0 < mx \<and> mx \<le> 0xffffffff" and "0 \<le> r \<and> r \<le> mx"
    and "length seed = 32 \<and> 0 \<le> ctr \<and> length rest = 28"
  shows "card {w \<in> {0..<0x100000000}. drawUniform sha mx (word_stream seed ctr rest w)
        = Some (ok (r, (word_stream seed ctr rest w)\<lparr> prg_offset := 4 \<rparr>))} = nat (0x100000000 div (mx + 1))
    \<and> (\<forall>p v p'. nextWord sha p = ok (v, p') \<longrightarrow> drawUniform sha mx p =
        (if v < 0x100000000 div (mx + 1) * (mx + 1) then Some (ok (v mod (mx + 1), p'))
         else drawUniform sha mx p'))"
proof
  let ?q = "0x100000000 div (mx + 1)"
  have le: "?q * (mx + 1) \<le> 0x100000000"
    using div_mult_mod_eq[of "0x100000000" "mx + 1"] pos_mod_sign[of "mx + 1" "0x100000000"] assms(2) by linarith
  have "{w \<in> {0..<0x100000000}. drawUniform sha mx (word_stream seed ctr rest w)
        = Some (ok (r, (word_stream seed ctr rest w)\<lparr> prg_offset := 4 \<rparr>))}
      = {w \<in> {0..<?q * (mx + 1)}. w mod (mx + 1) = r}"
    using draw_at_once[of sha, OF assms(1), of mx seed ctr rest _ r] assms(2,4) le by auto
  then show "card {w \<in> {0..<0x100000000}. drawUniform sha mx (word_stream seed ctr rest w)
        = Some (ok (r, (word_stream seed ctr rest w)\<lparr> prg_offset := 4 \<rparr>))} = nat ?q"
    using residues_below_limit[of "mx + 1" r ?q] assms(2,3) by (simp add: pos_imp_zdiv_nonneg_iff)
qed (use draw_attempt assms(2) in blast)

lemma draw_is_unbiased_witness:
  "card {w \<in> {0..<0x100000000}. drawUniform (\<lambda>x. replicate 32 1) 51 (word_stream (replicate 32 5) 0 (replicate 28 0) w)
     = Some (ok (7, (word_stream (replicate 32 5) 0 (replicate 28 0) w)\<lparr> prg_offset := 4 \<rparr>))} = 82595524"
  using draw_is_unbiased[of "\<lambda>x. replicate 32 1" 51 7 "replicate 32 5" 0 "replicate 28 0"] by simp

end
