(* ===== verification/Deck.thy ===== *)
theory Deck
  imports Shuffle
begin

text \<open>
  \<open>packages/crypto-cards/src/deck.ts\<close>: the commitment to every position of the shuffled deck, the
  hash of the whole deck, and the check of a reveal proof against a position's commitment.
\<close>

section \<open>Commitments\<close>

record deck_card =
  dc_position :: nat
  dc_ordinal :: int
  dc_cardNonce :: "byte list"
  dc_deckNonce :: "byte list"
  dc_commitment :: "byte list"

record deck_commitment =
  combinedEntropy :: "byte list"
  shuffleAlgorithmVersion :: int
  shuffledDeck :: "int list"
  perPosition :: "deck_card list"
  deckCommitmentHash :: "byte list"

definition deriveDeckNonce :: "(byte list \<Rightarrow> byte list) \<Rightarrow> byte list \<Rightarrow> byte list result" where
  "deriveDeckNonce sha combined =
     res_bind (encodeU16LE TAG_DECK_COMMITMENT) (\<lambda>tag. ok (sha (tag @ combined @ utf8 ''deck-nonce'')))"

definition deriveCardNonce :: "(byte list \<Rightarrow> byte list) \<Rightarrow> byte list \<Rightarrow> int \<Rightarrow> byte list result" where
  "deriveCardNonce sha combined pos =
     res_bind (encodeU16LE TAG_CARD) (\<lambda>tag. res_bind (encodeU32LE pos) (\<lambda>p.
       ok (sha (tag @ combined @ utf8 ''card-nonce'' @ p))))"

definition commitCard ::
  "(byte list \<Rightarrow> byte list) \<Rightarrow> int \<Rightarrow> byte list \<Rightarrow> byte list \<Rightarrow> byte list result" where
  "commitCard sha ord cardNonce deckNonce =
     (if ord < 0 \<or> ord > 53 then throw ''commitCard''
      else res_bind (encodeU8 ord) (\<lambda>o8. res_bind (encodeBytes32 cardNonce) (\<lambda>cn.
           res_bind (encodeBytes32 deckNonce) (\<lambda>dn. domainHash sha TAG_CARD [o8, cn, dn]))))"

text \<open>The body of the loop over \<open>shuffled\<close>, at index \<open>i\<close>.\<close>

definition deck_position ::
  "(byte list \<Rightarrow> byte list) \<Rightarrow> byte list \<Rightarrow> byte list \<Rightarrow> nat \<times> int \<Rightarrow> deck_card result" where
  "deck_position sha combined deckNonce = (\<lambda>(i, ord).
     res_bind (deriveCardNonce sha combined (int i)) (\<lambda>cardNonce.
     res_bind (commitCard sha ord cardNonce deckNonce) (\<lambda>c.
       ok \<lparr> dc_position = i, dc_ordinal = ord, dc_cardNonce = cardNonce, dc_deckNonce = deckNonce,
            dc_commitment = c \<rparr>)))"

definition aggregate_hash :: "(byte list \<Rightarrow> byte list) \<Rightarrow> int \<Rightarrow> byte list list \<Rightarrow> byte list result" where
  "aggregate_hash sha v commitments =
     res_bind (encodeU8 v) (\<lambda>v8. domainHash sha TAG_DECK_COMMITMENT (v8 # commitments))"

definition buildDeckCommitment ::
  "(byte list \<Rightarrow> byte list) \<Rightarrow> byte list \<Rightarrow> int \<Rightarrow> int \<Rightarrow> deck_commitment result option" where
  "buildDeckCommitment sha combined deckSize v =
     (if v \<noteq> 1 then Some (throw ''buildDeckCommitment'')
      else pres_bind (shuffleCanonicalDeck sha combined deckSize) (\<lambda>shuffled. Some (
        res_bind (deriveDeckNonce sha combined) (\<lambda>deckNonce.
        res_bind (map_res (deck_position sha combined deckNonce) (enumerate 0 shuffled)) (\<lambda>cards.
        res_bind (aggregate_hash sha v (map dc_commitment cards)) (\<lambda>h.
          ok \<lparr> combinedEntropy = combined, shuffleAlgorithmVersion = v, shuffledDeck = shuffled,
               perPosition = cards, deckCommitmentHash = h \<rparr>))))))"

text \<open>The proof shape of this package: bytes, not hex.\<close>

record card_opening =
  op_position :: int
  op_ordinal :: int
  op_cardNonce :: "byte list"
  op_deckNonce :: "byte list"

definition verifyRevealProof ::
  "(byte list \<Rightarrow> byte list) \<Rightarrow> byte list \<Rightarrow> card_opening \<Rightarrow> bool result" where
  "verifyRevealProof sha expectedCommitment prf =
     res_bind (commitCard sha (op_ordinal prf) (op_cardNonce prf) (op_deckNonce prf)) (\<lambda>recomputed.
       ok (constantTimeEquals recomputed expectedCommitment))"

section \<open>Lemmas\<close>

text \<open>The strings hashed for a card and for the deck.\<close>

definition card_preimage :: "int \<Rightarrow> byte list \<Rightarrow> byte list \<Rightarrow> byte list" where
  "card_preimage ord cn dn = tag_bytes TAG_CARD @ u8 ord # cn @ dn"

definition deck_preimage :: "byte list list \<Rightarrow> byte list" where
  "deck_preimage cs = tag_bytes TAG_DECK_COMMITMENT @ u8 1 # concat cs"

lemma commitCard_eq:
  "commitCard sha ord cn dn =
     (if ord < 0 \<or> ord > 53 then throw ''commitCard''
      else if length cn = 32 \<and> length dn = 32 then ok (sha (card_preimage ord cn dn))
      else throw ''encodeBytes32'')"
  by (simp add: commitCard_def encodeU8_def encodeBytes32_def domainHash_eq tags card_preimage_def)

lemma u8_inj:
  assumes "u8 a = u8 b" and "0 \<le> a" "a < 256" "0 \<le> b" "b < 256"
  shows "a = b"
proof -
  have "a mod 256 = b mod 256" using arg_cong[OF assms(1), of uint] by (simp only: uint_u8)
  then show ?thesis using assms by simp
qed

lemma card_preimage_inj:
  assumes "card_preimage a c d = card_preimage a' c' d'" and "length c = length c'"
    and "0 \<le> a" "a \<le> 53" "0 \<le> a'" "a' \<le> 53"
  shows "a = a' \<and> c = c' \<and> d = d'"
  using assms u8_inj[of a a'] by (simp add: card_preimage_def)

text \<open>What building a deck commitment yields.\<close>

definition deck_built :: "(byte list \<Rightarrow> byte list) \<Rightarrow> int \<Rightarrow> deck_commitment \<Rightarrow> bool" where
  "deck_built sha n d \<longleftrightarrow> length (shuffledDeck d) = nat n \<and> length (perPosition d) = nat n
     \<and> distinct (shuffledDeck d) \<and> set (shuffledDeck d) = {0..<n}
     \<and> (\<forall>i < nat n. let c = perPosition d ! i in
          dc_position c = i \<and> dc_ordinal c = shuffledDeck d ! i
          \<and> length (dc_cardNonce c) = 32 \<and> length (dc_deckNonce c) = 32
          \<and> dc_commitment c = sha (card_preimage (dc_ordinal c) (dc_cardNonce c) (dc_deckNonce c)))
     \<and> deckCommitmentHash d = sha (deck_preimage (map dc_commitment (perPosition d)))"


lemma enumerate_map_res:
  assumes "map_res f (enumerate 0 xs) = ok ys"
  shows "length ys = length xs \<and> (\<forall>i < length xs. f (i, xs ! i) = ok (ys ! i))"
  using map_res_length[OF assms] map_res_Inr_nth[OF assms] by (simp add: nth_enumerate_eq)

lemma deck_position_ok:
  assumes "deck_position sha combined dn (i, ord) = ok c"
  shows "dc_position c = i \<and> dc_ordinal c = ord \<and> dc_deckNonce c = dn
    \<and> dc_commitment c = sha (card_preimage ord (dc_cardNonce c) dn)
    \<and> length (dc_cardNonce c) = 32 \<and> length dn = 32 \<and> 0 \<le> ord \<and> ord \<le> 53"
  using assms by (auto simp: deck_position_def commitCard_eq res_bind_eq_Inr split: if_splits)

lemma shuffle_ok:
  assumes "\<And>x. length (sha x) = 32" and "shuffleCanonicalDeck sha combined n = Some (ok deck)"
  shows "(n = 52 \<or> n = 54) \<and> length combined = 32"
  using assms(2) by (auto simp: shuffleCanonicalDeck_def new_prg_def split: if_splits)

lemma buildDeckCommitment_ok:
  assumes sha: "\<And>x. length (sha x) = 32" and b: "buildDeckCommitment sha combined n v = Some (ok d)"
  shows "deck_built sha n d \<and> (n = 52 \<or> n = 54) \<and> v = 1 \<and> combinedEntropy d = combined
    \<and> length combined = 32 \<and> shuffleCanonicalDeck sha combined n = Some (ok (shuffledDeck d))"
proof -
  from b obtain deck dn cards h where v: "v = 1"
    and s: "shuffleCanonicalDeck sha combined n = Some (ok deck)"
    and c: "map_res (deck_position sha combined dn) (enumerate 0 deck) = ok cards"
    and h: "h = sha (deck_preimage (map dc_commitment cards))"
    and d: "d = \<lparr> combinedEntropy = combined, shuffleAlgorithmVersion = v, shuffledDeck = deck,
               perPosition = cards, deckCommitmentHash = h \<rparr>"
    by (auto simp: buildDeckCommitment_def aggregate_hash_def pres_bind_eq_Inr res_bind_eq_Inr encodeU8_def domainHash_eq
        tags deck_preimage_def split: if_splits)
  note n = shuffle_ok[OF sha s]
  have perm: "distinct deck \<and> set deck = {0..<n} \<and> int (length deck) = n"
    using shuffle_perm_facts[OF sha _ _ s] n by blast
  note cs = enumerate_map_res[OF c]
  have "\<forall>i < length deck. dc_position (cards ! i) = i \<and> dc_ordinal (cards ! i) = deck ! i
      \<and> dc_deckNonce (cards ! i) = dn \<and> length dn = 32 \<and> length (dc_cardNonce (cards ! i)) = 32
      \<and> dc_commitment (cards ! i) = sha (card_preimage (deck ! i) (dc_cardNonce (cards ! i)) dn)"
    using cs deck_position_ok by blast
  then show ?thesis
    using perm cs n v s by (auto simp: d h deck_built_def Let_def)
qed


text \<open>With digests of 32 bytes, building throws only where the shuffle does.\<close>

lemma deck_position_total:
  assumes "\<And>x. length (sha x) = 32" and "length dn = 32" and "i < 54" and "0 \<le> ord" and "ord \<le> 53"
  shows "\<exists>c. deck_position sha combined dn (i, ord) = ok c"
  using assms by (simp add: deck_position_def deriveCardNonce_def commitCard_eq encodeU32LE_eq
      encodeU16LE_def tags)

lemma buildDeckCommitment_total:
  assumes sha: "\<And>x. length (sha x) = 32" and s: "shuffleCanonicalDeck sha combined n = Some (ok deck)"
  shows "\<exists>d. buildDeckCommitment sha combined n 1 = Some (ok d)"
proof -
  note n = shuffle_ok[OF sha s]
  have perm: "set deck = {0..<n} \<and> int (length deck) = n"
    using shuffle_perm_facts[OF sha _ _ s] n by blast
  obtain dn where dn: "deriveDeckNonce sha combined = ok dn" "length dn = 32"
    using sha by (simp add: deriveDeckNonce_def encodeU16LE_def tags)
  have "\<exists>c. deck_position sha combined dn x = ok c" if "x \<in> set (enumerate 0 deck)" for x
  proof -
    from that obtain i where i: "i < length deck" "x = (i, deck ! i)"
      by (auto simp: in_set_enumerate_eq intro: that)
    have "deck ! i \<in> {0..<n}" using perm i(1) nth_mem by blast
    then show ?thesis
      unfolding i(2) using i(1) perm n by (intro deck_position_total[OF sha dn(2)]) auto
  qed
  then obtain cards where "map_res (deck_position sha combined dn) (enumerate 0 deck) = ok cards"
    using map_res_ok_iff[of "deck_position sha combined dn" "enumerate 0 deck"] by blast
  then show ?thesis
    by (simp add: buildDeckCommitment_def aggregate_hash_def s dn encodeU8_def domainHash_eq tags)
qed

lemma buildDeckCommitment_returns:
  assumes "\<And>x. length (sha x) = 32"
  shows "\<exists>r. buildDeckCommitment sha combined n v = Some r"
proof -
  have "\<exists>r. shuffleCanonicalDeck sha combined n = Some r"
  proof (cases "length combined = 32 \<and> (n = 52 \<or> n = 54)")
    case True
    then show ?thesis using shuffle_returns_permutation[of sha combined n] assms by auto
  next
    case False
    then show ?thesis by (auto simp: shuffleCanonicalDeck_def new_prg_def)
  qed
  then show ?thesis unfolding buildDeckCommitment_def by (auto intro!: pres_bind_returns)
qed

lemma verifyRevealProof_iff:
  "verifyRevealProof sha c prf = ok True \<longleftrightarrow>
     0 \<le> op_ordinal prf \<and> op_ordinal prf \<le> 53 \<and> length (op_cardNonce prf) = 32
     \<and> length (op_deckNonce prf) = 32
     \<and> c = sha (card_preimage (op_ordinal prf) (op_cardNonce prf) (op_deckNonce prf))"
  by (auto simp: verifyRevealProof_def commitCard_eq constantTimeEquals_iff)

section \<open>Properties\<close>

definition opening_of :: "deck_card \<Rightarrow> card_opening" where
  "opening_of c = \<lparr> op_position = int (dc_position c), op_ordinal = dc_ordinal c,
     op_cardNonce = dc_cardNonce c, op_deckNonce = dc_deckNonce c \<rparr>"

definition opening_preimage :: "card_opening \<Rightarrow> byte list" where
  "opening_preimage q = card_preimage (op_ordinal q) (op_cardNonce q) (op_deckNonce q)"

lemma deck_built_card:
  assumes "deck_built sha n d" and "i < nat n" and "n \<le> 54"
  shows "dc_commitment (perPosition d ! i) = sha (opening_preimage (opening_of (perPosition d ! i)))
    \<and> op_ordinal (opening_of (perPosition d ! i)) = shuffledDeck d ! i
    \<and> verifyRevealProof sha (dc_commitment (perPosition d ! i)) (opening_of (perPosition d ! i)) = ok True"
proof -
  have "shuffledDeck d ! i \<in> {0..<n}"
    using assms(1,2) nth_mem[of i "shuffledDeck d"] by (simp add: deck_built_def)
  then show ?thesis
    using assms by (simp add: deck_built_def Let_def opening_preimage_def opening_of_def verifyRevealProof_iff)
qed

lemma opening_preimage_inj:
  assumes "verifyRevealProof sha c p = ok True" and "verifyRevealProof sha c q = ok True"
    and "inj_on sha {opening_preimage p, opening_preimage q}"
  shows "op_ordinal p = op_ordinal q \<and> op_cardNonce p = op_cardNonce q \<and> op_deckNonce p = op_deckNonce q"
proof -
  have "sha (opening_preimage p) = sha (opening_preimage q)"
    using assms(1,2) by (simp add: verifyRevealProof_iff opening_preimage_def)
  from inj_onD[OF assms(3) this] have "opening_preimage p = opening_preimage q" by simp
  then show ?thesis
    using assms(1,2) by (intro card_preimage_inj) (simp_all add: opening_preimage_def verifyRevealProof_iff)
qed

text \<open>C21. Card reveals are correct and binding: in a deck commitment that was built, every position's
  own opening is accepted, and any accepted opening of that position names the ordinal the shuffle put
  there, with the same nonces, unless SHA-256 collides on the two strings hashed.\<close>
theorem card_reveal_binding:
  assumes "\<And>x. length (sha x) = 32"
    and "buildDeckCommitment sha combined n v = Some (ok d)" and "i < length (perPosition d)"
  shows "verifyRevealProof sha (dc_commitment (perPosition d ! i)) (opening_of (perPosition d ! i)) = ok True
    \<and> (\<forall>q. verifyRevealProof sha (dc_commitment (perPosition d ! i)) q = ok True \<longrightarrow>
          inj_on sha {opening_preimage q, opening_preimage (opening_of (perPosition d ! i))} \<longrightarrow>
          op_ordinal q = shuffledDeck d ! i \<and> op_cardNonce q = dc_cardNonce (perPosition d ! i)
          \<and> op_deckNonce q = dc_deckNonce (perPosition d ! i))"
proof -
  note b = buildDeckCommitment_ok[OF assms(1,2)]
  then have i: "i < nat n" "n \<le> 54" using assms(3) by (auto simp: deck_built_def)
  note c = deck_built_card[OF _ i, of sha d]
  then show ?thesis
    using b opening_preimage_inj[of sha _ _ "opening_of (perPosition d ! i)"] by (auto simp: opening_of_def)
qed


text \<open>A digest that keeps the first 32 bytes, for the witnesses.\<close>

definition head_digest :: "byte list \<Rightarrow> byte list" where
  "head_digest x = take 32 (x @ replicate 32 0)"

lemma head_digest_length: "length (head_digest x) = 32"
  by (simp add: head_digest_def)

lemma head_digest_shuffle:
  "shuffleCanonicalDeck head_digest (replicate 32 0) 52 = Some (ok ([1..51] @ [0]))"
  by code_simp

lemma head_digest_deck:
  obtains d where "buildDeckCommitment head_digest (replicate 32 0) 52 1 = Some (ok d)"
    and "length (perPosition d) = 52"
proof -
  obtain d where d: "buildDeckCommitment head_digest (replicate 32 0) 52 1 = Some (ok d)"
    using buildDeckCommitment_total[of head_digest, OF head_digest_length head_digest_shuffle] by blast
  moreover have "length (perPosition d) = 52"
    using buildDeckCommitment_ok[of head_digest, OF head_digest_length d] by (simp add: deck_built_def)
  ultimately show thesis by (rule that)
qed

lemma card_reveal_binding_witness:
  "\<exists>d. buildDeckCommitment head_digest (replicate 32 0) 52 1 = Some (ok d)
    \<and> verifyRevealProof head_digest (dc_commitment (perPosition d ! 3)) (opening_of (perPosition d ! 3)) = ok True"
proof -
  obtain d where d: "buildDeckCommitment head_digest (replicate 32 0) 52 1 = Some (ok d)"
    "length (perPosition d) = 52" by (rule head_digest_deck)
  then have "3 < length (perPosition d)" by simp
  from card_reveal_binding[of head_digest, OF head_digest_length d(1) this] d(1) show ?thesis by blast
qed

text \<open>Every string hashed for a deck commitment.\<close>

definition deck_strings :: "deck_commitment \<Rightarrow> byte list set" where
  "deck_strings d = insert (deck_preimage (map dc_commitment (perPosition d)))
     (set (map (opening_preimage \<circ> opening_of) (perPosition d)))"

lemma built_card_facts:
  assumes "deck_built sha n d \<and> n \<le> 54" and "i < length (perPosition d)"
  shows "dc_commitment (perPosition d ! i) = sha (opening_preimage (opening_of (perPosition d ! i)))"
    and "dc_ordinal (perPosition d ! i) = shuffledDeck d ! i" and "dc_position (perPosition d ! i) = i"
    and "verifyRevealProof sha (dc_commitment (perPosition d ! i)) (opening_of (perPosition d ! i)) = ok True"
  using deck_built_card[of sha n d i] assms by (auto simp: deck_built_def opening_of_def Let_def)

lemma same_commitment_same_card:
  assumes b: "deck_built sha n d \<and> n \<le> 54" "deck_built sha n' d' \<and> n' \<le> 54"
    and i: "i < length (perPosition d)" "i < length (perPosition d')"
    and c: "dc_commitment (perPosition d ! i) = dc_commitment (perPosition d' ! i)"
    and inj: "inj_on sha (deck_strings d \<union> deck_strings d')"
  shows "perPosition d ! i = perPosition d' ! i"
proof -
  let ?x = "perPosition d ! i" and ?y = "perPosition d' ! i"
  have "opening_preimage (opening_of x) \<in> deck_strings y" if "x \<in> set (perPosition y)" for x y
    using that by (simp add: deck_strings_def)
  then have inj': "inj_on sha {opening_preimage (opening_of ?x), opening_preimage (opening_of ?y)}"
    by (intro inj_on_subset[OF inj]) (use i in auto)
  have v: "verifyRevealProof sha (dc_commitment ?x) (opening_of ?x) = ok True"
    "verifyRevealProof sha (dc_commitment ?x) (opening_of ?y) = ok True"
    using built_card_facts(4)[OF b(1) i(1)] built_card_facts(4)[OF b(2) i(2)] unfolding c .
  from opening_preimage_inj[OF v inj'] have "dc_ordinal ?x = dc_ordinal ?y"
    "dc_cardNonce ?x = dc_cardNonce ?y" "dc_deckNonce ?x = dc_deckNonce ?y"
    by (simp_all add: opening_of_def)
  then show ?thesis
    using c built_card_facts(3)[OF b(1) i(1)] built_card_facts(3)[OF b(2) i(2)]
    by (intro deck_card.equality) simp_all
qed

text \<open>C22. The deck commitment hash binds the whole deck: two built deck commitments with the same hash
  have the same shuffled deck and the same commitment, nonce and ordinal at every position (so also the
  same size), unless SHA-256 collides on the strings hashed for them.\<close>
theorem deck_hash_binding:
  assumes sha: "\<And>x. length (sha x) = 32"
    and b: "buildDeckCommitment sha combined n v = Some (ok d)"
    and b': "buildDeckCommitment sha combined' n' v' = Some (ok d')"
    and h: "deckCommitmentHash d = deckCommitmentHash d'"
    and inj: "inj_on sha (deck_strings d \<union> deck_strings d')"
  shows "shuffledDeck d = shuffledDeck d' \<and> perPosition d = perPosition d'"
proof -
  have b: "deck_built sha n d \<and> n \<le> 54" "deck_built sha n' d' \<and> n' \<le> 54"
    using buildDeckCommitment_ok[OF sha b] buildDeckCommitment_ok[OF sha b'] by auto
  let ?cs = "perPosition d" and ?cs' = "perPosition d'"
  have "sha (deck_preimage (map dc_commitment ?cs)) = sha (deck_preimage (map dc_commitment ?cs'))"
    using h b by (simp add: deck_built_def)
  then have "deck_preimage (map dc_commitment ?cs) = deck_preimage (map dc_commitment ?cs')"
    by (rule inj_onD[OF inj]) (simp_all add: deck_strings_def)
  then have "concat (map dc_commitment ?cs) = concat (map dc_commitment ?cs')"
    by (simp add: deck_preimage_def)
  then have eq: "map dc_commitment ?cs = map dc_commitment ?cs'"
    by (intro concat_blocks[of 32]) (auto simp: in_set_conv_nth built_card_facts(1)[OF b(1)] built_card_facts(1)[OF b(2)] sha)
  then have l: "length ?cs = length ?cs'" using map_eq_imp_length_eq by blast
  have "?cs ! i = ?cs' ! i" if "i < length ?cs" for i
  proof (rule same_commitment_same_card[OF b that _ _ inj])
    show "i < length ?cs'" using that l by simp
    show "dc_commitment (?cs ! i) = dc_commitment (?cs' ! i)" using eq that l by (metis nth_map)
  qed
  then have pos: "?cs = ?cs'" using l by (simp add: list_eq_iff_nth_eq)
  have "shuffledDeck d = map dc_ordinal ?cs" "shuffledDeck d' = map dc_ordinal ?cs'"
    using b by (auto simp: deck_built_def Let_def list_eq_iff_nth_eq)
  then show ?thesis using pos by simp
qed

lemma deck_hash_binding_witness:
  "\<exists>d d'. buildDeckCommitment head_digest (replicate 32 0) 52 1 = Some (ok d)
     \<and> buildDeckCommitment head_digest (replicate 32 0) 52 1 = Some (ok d')
     \<and> inj_on head_digest (deck_strings d \<union> deck_strings d') \<and> deckCommitmentHash d = deckCommitmentHash d'
     \<and> length (perPosition d) = 52 \<and> shuffledDeck d = shuffledDeck d' \<and> perPosition d = perPosition d'"
proof -
  obtain d where d: "buildDeckCommitment head_digest (replicate 32 0) 52 1 = Some (ok d)"
    "length (perPosition d) = 52" by (rule head_digest_deck)
  note built = buildDeckCommitment_ok[of head_digest, OF head_digest_length d(1)]
  have "inj_on head_digest (deck_strings d)"
  proof (rule inj_onI)
    have c: "take 3 (head_digest (opening_preimage (opening_of (perPosition d ! i)))) = [8, 0, u8 (shuffledDeck d ! i)]
        \<and> 0 \<le> shuffledDeck d ! i \<and> shuffledDeck d ! i < 52" if "i < 52" for i
      using that built nth_mem[of i "shuffledDeck d"]
      by (auto simp: deck_built_def Let_def head_digest_def opening_preimage_def opening_of_def
          card_preimage_def tag_bytes_def tags numeral_2_eq_2 u8_def)
    have k: "take 3 (head_digest (deck_preimage cs)) = [7, 0, 1]" for cs
      by (simp add: head_digest_def deck_preimage_def tag_bytes_def tags numeral_2_eq_2 u8_def)
    let ?D = "deck_preimage (map dc_commitment (perPosition d))"
    let ?c = "\<lambda>i. opening_preimage (opening_of (perPosition d ! i))"
    have ne: "head_digest ?D \<noteq> head_digest (?c i)" if "i < 52" for i
    proof
      assume "head_digest ?D = head_digest (?c i)"
      then have "[7, 0, 1] = [8, 0, u8 (shuffledDeck d ! i)]" using c[OF that] k by metis
      then show False by simp
    qed
    have same: "i = j" if "i < 52" "j < 52" "head_digest (?c i) = head_digest (?c j)" for i j
    proof -
      have "[8, 0, u8 (shuffledDeck d ! i)] = [8, 0, u8 (shuffledDeck d ! j)]"
        using that(3) c[OF that(1)] c[OF that(2)] by metis
      then have "shuffledDeck d ! i = shuffledDeck d ! j"
        using c[OF that(1)] c[OF that(2)] by (intro u8_inj) auto
      then show "i = j" using built that by (simp add: deck_built_def nth_eq_iff_index_eq)
    qed
    have strings: "x = ?D \<or> (\<exists>i < 52. x = ?c i)" if "x \<in> deck_strings d" for x
      using that by (auto simp: deck_strings_def in_set_conv_nth d(2))
    fix x y assume xy: "x \<in> deck_strings d" "y \<in> deck_strings d" "head_digest x = head_digest y"
    show "x = y"
      using strings[OF xy(1)] strings[OF xy(2)] xy(3) ne same by metis
  qed
  moreover obtain d' where d': "buildDeckCommitment head_digest (replicate 32 0) 52 1 = Some (ok d')"
    by (rule head_digest_deck)
  ultimately have inj: "inj_on head_digest (deck_strings d \<union> deck_strings d')"
    and h: "deckCommitmentHash d = deckCommitmentHash d'"
    using d(1) by simp_all
  note same = deck_hash_binding[of head_digest, OF head_digest_length d(1) d' h inj]
  show ?thesis
    by (rule exI[of _ d], rule exI[of _ d'])
       (rule conjI[OF d(1) conjI[OF d' conjI[OF inj conjI[OF h conjI[OF d(2) same]]]]])
qed

end
