(* ===== verification/Verify.thy ===== *)
theory Verify
  imports Deck Accounting
begin

text \<open>
  \<open>packages/state-engine/src/verify.ts\<close>: the cryptographic gate in front of the engine. It checks an
  entropy reveal against the stored commitment and a card reveal against the deck commitment, hands
  the action to \<open>applyAction\<close>, and fixes the shuffled deck when the last entropy is revealed. The
  \<open>async\<close> functions are modelled by their results; \<^const>\<open>None\<close> stands for a promise that never
  settles (the shuffle's rejection loop).
\<close>

section \<open>The checks\<close>

definition check_entropy_commit :: "hash256 \<Rightarrow> unit result" where
  "check_entropy_commit hash = (if \<not> hex_string 64 hash then err INVALID_SIGNATURE else ok ())"

text \<open>\<open>pubkeyBytes.subarray(pubkeyBytes.byteLength - 32)\<close>.\<close>

definition player_id_bytes :: "byte list \<Rightarrow> byte list" where
  "player_id_bytes pk = drop (length pk - 32) pk"

definition check_entropy_reveal ::
  "(byte list \<Rightarrow> byte list) \<Rightarrow> round_state \<Rightarrow> signed_action \<Rightarrow> hash256 \<Rightarrow> unit result" where
  "check_entropy_reveal sha s a entropy =
     (case act_seat a of
        None \<Rightarrow> err SEAT_OUT_OF_RANGE
      | Some st \<Rightarrow>
     (case find (\<lambda>p. seat p = st) (players s) of
        None \<Rightarrow> err PLAYER_NOT_SEATED
      | Some player \<Rightarrow>
     (case entropy_commitment_hash player of
        None \<Rightarrow> err INVALID_STATE_TRANSITION
      | Some stored \<Rightarrow>
          if \<not> hex_string 64 entropy then err INVALID_REVEAL_PROOF
          else res_bind (fromHex stored) (\<lambda>commitmentBytes.
               res_bind (fromHex entropy) (\<lambda>entropyBytes.
               res_bind (fromHex (value_signing_pubkey player)) (\<lambda>pubkeyBytes.
               if length pubkeyBytes < 32 then err SERIALISATION_ERROR
               else res_bind (fromHex (game_id s)) (\<lambda>gameIdBytes.
                    if length gameIdBytes \<noteq> 32 then err SERIALISATION_ERROR
                    else res_bind (commitEntropy sha entropyBytes (player_id_bytes pubkeyBytes) gameIdBytes)
                      (\<lambda>recomputed. if \<not> constantTimeEquals recomputed commitmentBytes
                                     then err INVALID_REVEAL_PROOF else ok ()))))))))"

definition check_card_reveal ::
  "(byte list \<Rightarrow> byte list) \<Rightarrow> round_state \<Rightarrow> reveal_proof \<Rightarrow> rule_set \<Rightarrow> unit result option" where
  "check_card_reveal sha s r rs =
     (case combined_entropy s of
        None \<Rightarrow> Some (err INVALID_STATE_TRANSITION)
      | Some ce \<Rightarrow>
          pres_bind (Some (fromHex ce)) (\<lambda>combined.
          pres_bind (buildDeckCommitment sha combined (deck_format rs) (shuffle_algorithm_version rs)) (\<lambda>dc. Some (
            let pos = proof_position r
            in if pos < 0 \<or> pos \<ge> int (length (perPosition dc)) then err INVALID_REVEAL_PROOF
               else let expectedCommit = dc_commitment (perPosition dc ! nat pos)
                 in res_bind (fromHex (proof_card_nonce r)) (\<lambda>cn. res_bind (fromHex (proof_deck_nonce r)) (\<lambda>dn.
                    res_bind (verifyRevealProof sha expectedCommit
                      \<lparr> op_position = pos, op_ordinal = ordinal (proof_card r), op_cardNonce = cn,
                        op_deckNonce = dn \<rparr>)
                      (\<lambda>proofOk. if \<not> proofOk then err INVALID_REVEAL_PROOF else ok ())))))))"

section \<open>Fixing the deck\<close>

text \<open>The loop over the players in seat order: \<open>ok None\<close> is the early return at a missing value.\<close>

fun collect_entropies :: "player_state list \<Rightarrow> byte list list option result" where
  "collect_entropies [] = ok (Some [])"
| "collect_entropies (p # ps) =
     (case entropy_value p of
        None \<Rightarrow> ok None
      | Some e \<Rightarrow> res_bind (fromHex e) (\<lambda>b.
          res_bind (collect_entropies ps) (\<lambda>r. ok (map_option ((#) b) r))))"

definition materialiseDeckCommitment ::
  "(byte list \<Rightarrow> byte list) \<Rightarrow> round_state \<Rightarrow> rule_set \<Rightarrow> round_state result option" where
  "materialiseDeckCommitment sha s rs =
     pres_bind (Some (collect_entropies (sort_key seat (players s)))) (\<lambda>entropies.
     case entropies of
       None \<Rightarrow> Some (ok s)
     | Some es \<Rightarrow>
         pres_bind (Some (combineEntropy sha es)) (\<lambda>combined.
         pres_bind (buildDeckCommitment sha combined (deck_format rs) (shuffle_algorithm_version rs)) (\<lambda>dc. Some (
           res_bind (asHash256 (toHex combined)) (\<lambda>ce. res_bind (asHash256 (toHex (deckCommitmentHash dc))) (\<lambda>dh.
             ok (s\<lparr> combined_entropy := Some ce, deck_commitment_hash := Some dh \<rparr>)))))))"

section \<open>The gate\<close>

definition verify_checks ::
  "(byte list \<Rightarrow> byte list) \<Rightarrow> round_state \<Rightarrow> signed_action \<Rightarrow> rule_set \<Rightarrow> unit result option" where
  "verify_checks sha s a rs =
     (case payload a of
        EntropyCommit_Payload hash \<Rightarrow> Some (check_entropy_commit hash)
      | EntropyReveal_Payload entropy \<Rightarrow> Some (check_entropy_reveal sha s a entropy)
      | CardReveal_Payload r \<Rightarrow> check_card_reveal sha s r rs
      | _ \<Rightarrow> Some (ok ()))"

definition verifyAndApply ::
  "(byte list \<Rightarrow> byte list) \<Rightarrow> round_state \<Rightarrow> signed_action \<Rightarrow> rule_set \<Rightarrow> block_height \<Rightarrow> round_state result option" where
  "verifyAndApply sha s a rs h =
     pres_bind (verify_checks sha s a rs) (\<lambda>_.
     pres_bind (Some (applyAction s a rs h)) (\<lambda>s'.
       if state_class s = S4_ENTROPY_REVEAL_WINDOW \<and> state_class s' = S5_DECK_COMMITTED
          \<and> combined_entropy s' = None
       then materialiseDeckCommitment sha s' rs
       else Some (ok s')))"

section \<open>The gate returns\<close>

lemma check_card_reveal_returns:
  assumes "\<And>x. length (sha x) = 32" shows "\<exists>r. check_card_reveal sha s p rs = Some r"
  unfolding check_card_reveal_def using buildDeckCommitment_returns[of sha, OF assms]
  by (auto intro!: pres_bind_returns split: option.splits)

lemma materialise_returns:
  assumes "\<And>x. length (sha x) = 32" shows "\<exists>r. materialiseDeckCommitment sha s rs = Some r"
  unfolding materialiseDeckCommitment_def using buildDeckCommitment_returns[of sha, OF assms]
  by (auto intro!: pres_bind_returns split: option.splits)

lemma verifyAndApply_returns:
  assumes "\<And>x. length (sha x) = 32" shows "\<exists>r. verifyAndApply sha s a rs h = Some r"
  unfolding verifyAndApply_def verify_checks_def
  using check_card_reveal_returns[of sha, OF assms] materialise_returns[of sha, OF assms]
  by (auto intro!: pres_bind_returns split: action_payload.splits)

section \<open>The gate refines the engine\<close>

text \<open>The engine never reads the two fields the gate fills in.\<close>

definition forget_deck :: "round_state \<Rightarrow> round_state" where
  "forget_deck s = s\<lparr> combined_entropy := None, deck_commitment_hash := None \<rparr>"

lemma forget_deck_simps [simp]:
  "state_class (forget_deck s) = state_class s" "players (forget_deck s) = players s"
  "game_id (forget_deck s) = game_id s" "state_hash (forget_deck s) = state_hash s"
  "visible_cards (forget_deck s) = visible_cards s" "pot_value (forget_deck s) = pot_value s"
  "acting_player_seat (forget_deck s) = acting_player_seat s"
  "concealed_deck (forget_deck s) = concealed_deck s" "round_number (forget_deck s) = round_number s"
  "decision_deadline_block_height (forget_deck s) = decision_deadline_block_height s"
  "recovery_deadline_block_height (forget_deck s) = recovery_deadline_block_height s"
  by (simp_all add: forget_deck_def)

lemma forget_deck_updates [simp]:
  "forget_deck (s\<lparr> players := x \<rparr>) = forget_deck s\<lparr> players := x \<rparr>"
  "forget_deck (s\<lparr> prior_state_hash := y \<rparr>) = forget_deck s\<lparr> prior_state_hash := y \<rparr>"
  "forget_deck (s\<lparr> state_class := c \<rparr>) = forget_deck s\<lparr> state_class := c \<rparr>"
  "forget_deck (s\<lparr> allowed_actions := as \<rparr>) = forget_deck s\<lparr> allowed_actions := as \<rparr>"
  "forget_deck (s\<lparr> visible_cards := vs \<rparr>) = forget_deck s\<lparr> visible_cards := vs \<rparr>"
  "forget_deck (s\<lparr> acting_player_seat := st \<rparr>) = forget_deck s\<lparr> acting_player_seat := st \<rparr>"
  "forget_deck (s\<lparr> concealed_deck := d \<rparr>) = forget_deck s\<lparr> concealed_deck := d \<rparr>"
  "forget_deck (s\<lparr> pot_value := v \<rparr>) = forget_deck s\<lparr> pot_value := v \<rparr>"
  "forget_deck (s\<lparr> round_number := n \<rparr>) = forget_deck s\<lparr> round_number := n \<rparr>"
  by (simp_all add: forget_deck_def)

lemma applyAction_forget:
  "applyAction (forget_deck s) a rs h = res_bind (applyAction s a rs h) (\<lambda>t. ok (forget_deck t))"
  unfolding applyAction_def
  by (cases "payload a")
     (simp_all add: handlers rotate_next_def Let_def res_bind_def
        split: option.split prod.split state_class.split sum.split)


lemma forget_idem [simp]: "forget_deck (forget_deck s) = forget_deck s"
  by (simp add: forget_deck_def)

lemma materialise_ok:
  assumes "materialiseDeckCommitment sha s rs = Some (ok s')"
  shows "forget_deck s' = forget_deck s"
  using assms by (auto simp: materialiseDeckCommitment_def pres_bind_eq_Inr res_bind_eq_Inr forget_deck_def
      split: option.splits)

lemma verifyAndApply_ok:
  assumes "verifyAndApply sha s a rs h = Some (ok s')"
  obtains t where "applyAction s a rs h = ok t" and "verify_checks sha s a rs = Some (ok ())"
    and "forget_deck s' = forget_deck t"
    and "if state_class s = S4_ENTROPY_REVEAL_WINDOW \<and> state_class t = S5_DECK_COMMITTED
           \<and> combined_entropy t = None
         then materialiseDeckCommitment sha t rs = Some (ok s') else s' = t"
proof -
  from assms obtain t where t: "applyAction s a rs h = ok t" "verify_checks sha s a rs = Some (ok ())"
    "(if state_class s = S4_ENTROPY_REVEAL_WINDOW \<and> state_class t = S5_DECK_COMMITTED
         \<and> combined_entropy t = None
       then materialiseDeckCommitment sha t rs else Some (ok t)) = Some (ok s')"
    by (auto simp: verifyAndApply_def pres_bind_eq_Inr)
  then have "forget_deck s' = forget_deck t" using materialise_ok by (auto split: if_splits)
  then show thesis using t by (intro that) (auto split: if_splits)
qed

text \<open>Sessions that pass the gate.\<close>

inductive verified :: "(byte list \<Rightarrow> byte list) \<Rightarrow> rule_set \<Rightarrow> round_state \<Rightarrow> bool" for sha rs where
  start: "verified sha rs (initialState gid rsh dl)"
| step: "verified sha rs s \<Longrightarrow> verifyAndApply sha s a rs h = Some (ok s') \<Longrightarrow> verified sha rs s'"

lemma forget_initial: "forget_deck (initialState gid rsh dl) = initialState gid rsh dl"
  by (simp add: forget_deck_def initialState_def)

lemma verified_reachable: "verified sha rs s \<Longrightarrow> reachable rs (forget_deck s)"
proof (induction rule: verified.induct)
  case (start gid rsh dl)
  show ?case unfolding forget_initial by (rule reachable.start)
next
  case (step s a h s')
  from step.hyps(2) obtain t where t: "applyAction s a rs h = ok t" "forget_deck s' = forget_deck t"
    by (rule verifyAndApply_ok)
  then have "applyAction (forget_deck s) a rs h = ok (forget_deck s')" by (simp add: applyAction_forget)
  with step.IH show ?case by (rule reachable.step)
qed

lemma verified_facts:
  assumes "verified sha rs s"
  shows "state_class s \<notin> {S0_TABLE_OPEN, S2_TABLE_LOCKED, S7_CARD_REVEAL_SECOND}
    \<and> (\<forall>p \<in> set (players s). player_entropy_ok p)
    \<and> (state_class s \<in> in_play \<longrightarrow> (\<forall>p \<in> set (players s). entropy_revealed p))
    \<and> distinct (map seat (players s))"
proof -
  have "well_formed rs (forget_deck s)" using verified_reachable[OF assms] by (rule reachable_well_formed)
  note wf = this[unfolded well_formed_def]
  note e = conjunct1[OF conjunct2[OF conjunct2[OF wf]]] and c = conjunct1[OF conjunct2[OF wf]]
    and n = conjunct1[OF wf]
  show ?thesis
    using e[unfolded entropy_ok_def forget_deck_simps] c[unfolded class_ok_def forget_deck_simps]
      n[unfolded seats_ok_def forget_deck_simps]
    by (elim conjE) (intro conjI, assumption+)
qed

section \<open>The deck of a session\<close>

definition seat_entropy :: "player_state \<Rightarrow> seat \<times> hash256 option" where
  "seat_entropy p = (seat p, entropy_value p)"

lemma entropies_kept:
  assumes "estep rs h s a s'" and "state_class s \<in> in_play"
  shows "map seat_entropy (players s') = map seat_entropy (players s)
    \<and> state_class s' \<in> insert RECOVERED in_play"
  using assms
  by (cases rule: estep.cases)
     (auto simp: map_list_update_same seat_entropy_def credit_def dest!: reveal_class_cases)

lemma preparing_step:
  assumes "estep rs h s a s'" and "state_class s \<in> {S1_SEAT_OPEN, S3_ENTROPY_COMMIT_WINDOW}"
  shows "state_class s' \<in> {S1_SEAT_OPEN, S3_ENTROPY_COMMIT_WINDOW, S4_ENTROPY_REVEAL_WINDOW, RECOVERED}"
  using assms by (cases rule: estep.cases) (auto dest!: reveal_class_cases)

lemma reveal_window_step:
  assumes "estep rs h s a s'" and "state_class s = S4_ENTROPY_REVEAL_WINDOW"
  shows "state_class s' \<in> {S4_ENTROPY_REVEAL_WINDOW, S5_DECK_COMMITTED, RECOVERED}"
  using assms by (cases rule: estep.cases) (auto dest!: reveal_class_cases)

lemma recovered_step:
  assumes "estep rs h s a s'" and "state_class s = RECOVERED"
  shows "state_class s' = RECOVERED"
  using assms by (cases rule: estep.cases) (auto dest!: reveal_class_cases)

lemma map_insort_key: "map f (insort_key (\<lambda>x. k (f x)) x xs) = insort_key k (f x) (map f xs)"
  by (induction xs) auto

lemma map_sort_key: "map f (sort_key (\<lambda>x. k (f x)) xs) = sort_key k (map f xs)"
  by (induction xs) (simp_all add: map_insort_key)

lemma collect_cong:
  "map entropy_value ps = map entropy_value qs \<Longrightarrow> collect_entropies ps = collect_entropies qs"
proof (induction ps arbitrary: qs)
  case (Cons p ps)
  then obtain q qs' where "qs = q # qs'" by (cases qs) auto
  then show ?case using Cons.IH[of qs'] Cons.prems by (simp split: option.split)
qed simp

lemma collect_same:
  assumes "map seat_entropy ps = map seat_entropy qs"
  shows "collect_entropies (sort_key seat ps) = collect_entropies (sort_key seat qs)"
proof -
  have "map seat_entropy (sort_key seat xs) = sort_key fst (map seat_entropy xs)" for xs
    using map_sort_key[of seat_entropy fst xs] by (simp add: seat_entropy_def)
  then have "map seat_entropy (sort_key seat ps) = map seat_entropy (sort_key seat qs)"
    using assms by simp
  then have "map (snd \<circ> seat_entropy) (sort_key seat ps) = map (snd \<circ> seat_entropy) (sort_key seat qs)"
    by (metis map_map)
  then show ?thesis by (intro collect_cong) (simp add: seat_entropy_def o_def)
qed

lemma collect_complete:
  "collect_entropies ps = ok r \<Longrightarrow> \<forall>p \<in> set ps. entropy_value p \<noteq> None \<Longrightarrow> r \<noteq> None"
  by (induction ps arbitrary: r) (auto simp: res_bind_eq_Inr)

text \<open>\<open>session_deck sha rs s d\<close>: \<open>d\<close> is the deck that the entropies of the players of \<open>s\<close>, in
  seat order, determine, and \<open>s\<close> carries its combined entropy and its hash.\<close>

definition session_deck ::
  "(byte list \<Rightarrow> byte list) \<Rightarrow> rule_set \<Rightarrow> round_state \<Rightarrow> deck_commitment \<Rightarrow> bool" where
  "session_deck sha rs s d \<longleftrightarrow> (\<exists>es c.
     collect_entropies (sort_key seat (players s)) = ok (Some es) \<and> combineEntropy sha es = ok c
     \<and> buildDeckCommitment sha c (deck_format rs) (shuffle_algorithm_version rs) = Some (ok d)
     \<and> combined_entropy s = Some (toHex c)
     \<and> deck_commitment_hash s = Some (toHex (deckCommitmentHash d)))"

definition deck_settled :: "(byte list \<Rightarrow> byte list) \<Rightarrow> rule_set \<Rightarrow> round_state \<Rightarrow> bool" where
  "deck_settled sha rs s \<longleftrightarrow>
     (state_class s \<in> in_play \<longrightarrow> (\<exists>d. session_deck sha rs s d))
     \<and> (state_class s \<in> {S1_SEAT_OPEN, S3_ENTROPY_COMMIT_WINDOW, S4_ENTROPY_REVEAL_WINDOW}
          \<longrightarrow> combined_entropy s = None)"

lemma materialise_deck:
  assumes "materialiseDeckCommitment sha t rs = Some (ok s')"
    and "\<forall>p \<in> set (players t). entropy_value p \<noteq> None"
  shows "\<exists>d. session_deck sha rs s' d"
proof -
  from assms(1) obtain r where r: "collect_entropies (sort_key seat (players t)) = ok r"
    by (auto simp: materialiseDeckCommitment_def pres_bind_eq_Inr)
  then obtain es where es: "r = Some es" using collect_complete[OF r] assms(2) by auto
  from assms(1) obtain c d where "combineEntropy sha es = ok c"
    "buildDeckCommitment sha c (deck_format rs) (shuffle_algorithm_version rs) = Some (ok d)"
    "s' = t\<lparr> combined_entropy := Some (toHex c), deck_commitment_hash := Some (toHex (deckCommitmentHash d)) \<rparr>"
    by (auto simp: materialiseDeckCommitment_def pres_bind_eq_Inr res_bind_eq_Inr r es asHash256_def
        split: if_splits)
  then show ?thesis using r es unfolding session_deck_def by auto
qed


lemma session_deck_cong:
  assumes "map seat_entropy (players t) = map seat_entropy (players s)"
    and "combined_entropy t = combined_entropy s" and "deck_commitment_hash t = deck_commitment_hash s"
  shows "session_deck sha rs t d = session_deck sha rs s d"
  unfolding session_deck_def collect_same[OF assms(1)] assms(2,3) ..

lemma forget_deck_eqD:
  assumes "forget_deck s = forget_deck t"
  shows "state_class s = state_class t \<and> players s = players t \<and> game_id s = game_id t
    \<and> visible_cards s = visible_cards t"
  using assms by (metis forget_deck_simps(1,2,3,5))

lemma deck_settled_step:
  assumes v: "verified sha rs s" and d: "deck_settled sha rs s"
    and st: "verifyAndApply sha s a rs h = Some (ok s')"
  shows "deck_settled sha rs s'"
proof -
  from st obtain t where t: "applyAction s a rs h = ok t" "forget_deck s' = forget_deck t"
    and m: "if state_class s = S4_ENTROPY_REVEAL_WINDOW \<and> state_class t = S5_DECK_COMMITTED
           \<and> combined_entropy t = None
         then materialiseDeckCommitment sha t rs = Some (ok s') else s' = t"
    by (rule verifyAndApply_ok)
  have e: "estep rs h s a t" using t(1) by (simp add: applyAction_iff_estep)
  note fr = frame_estep[OF e] and eq = forget_deck_eqD[OF t(2)]
  note f = verified_facts[OF v]
  have "state_class s \<in> in_play \<or> state_class s \<in> {S1_SEAT_OPEN, S3_ENTROPY_COMMIT_WINDOW}
      \<or> state_class s = S4_ENTROPY_REVEAL_WINDOW \<or> state_class s = RECOVERED"
    using f by (cases "state_class s") (simp_all add: in_play_def)
  then show ?thesis
  proof (elim disjE)
    assume c: "state_class s \<in> in_play"
    then have "state_class s \<noteq> S4_ENTROPY_REVEAL_WINDOW" by (auto simp: in_play_def)
    then have s': "s' = t" using m by simp
    note k = entropies_kept[OF e c]
    from d c obtain dc where "session_deck sha rs s dc" by (auto simp: deck_settled_def)
    then have "session_deck sha rs s' dc" using session_deck_cong[of s' s] k fr s' by simp
    then show ?thesis using k s' by (auto simp: deck_settled_def in_play_def)
  next
    assume c: "state_class s \<in> {S1_SEAT_OPEN, S3_ENTROPY_COMMIT_WINDOW}"
    then have s': "s' = t" using m by auto
    have "combined_entropy t = None" using d c fr by (auto simp: deck_settled_def)
    then show ?thesis using preparing_step[OF e c] s' by (auto simp: deck_settled_def in_play_def)
  next
    assume c: "state_class s = S4_ENTROPY_REVEAL_WINDOW"
    have n: "combined_entropy t = None" using d c fr by (auto simp: deck_settled_def)
    show ?thesis
    proof (cases "state_class t = S5_DECK_COMMITTED")
      case True
      have "verified sha rs s'" using v st by (rule verified.step)
      note f' = verified_facts[OF this]
      have "\<forall>p \<in> set (players t). entropy_value p \<noteq> None"
        using f' eq True by (auto simp: player_entropy_ok_def)
      then show ?thesis using materialise_deck[of sha t rs s'] m c n True eq by (auto simp: deck_settled_def)
    next
      case False
      then have "s' = t" using m by simp
      then show ?thesis using reveal_window_step[OF e c] False n by (auto simp: deck_settled_def in_play_def)
    qed
  next
    assume c: "state_class s = RECOVERED"
    then show ?thesis using recovered_step[OF e c] eq by (auto simp: deck_settled_def in_play_def)
  qed
qed

lemma verified_deck_settled: "verified sha rs s \<Longrightarrow> deck_settled sha rs s"
proof (induction rule: verified.induct)
  case (start gid rsh dl)
  show ?case by (simp add: deck_settled_def initialState_def in_play_def)
next
  case (step s a h s')
  then show ?case using deck_settled_step by blast
qed

section \<open>The entropies of a session\<close>

definition entropy_opens :: "(byte list \<Rightarrow> byte list) \<Rightarrow> game_id \<Rightarrow> player_state \<Rightarrow> bool" where
  "entropy_opens sha gid p =
     (case (entropy_commitment_hash p, entropy_value p) of
        (_, None) \<Rightarrow> True
      | (None, Some _) \<Rightarrow> False
      | (Some ch, Some e) \<Rightarrow>
          res_bind (fromHex ch) (\<lambda>c. res_bind (fromHex e) (\<lambda>ent. res_bind (fromHex (value_signing_pubkey p)) (\<lambda>pk.
          res_bind (fromHex gid) (\<lambda>g. verifyEntropyReveal sha c ent (player_id_bytes pk) g)))) = ok True)"

lemma entropy_opens_cong:
  assumes "entropy_commitment_hash p = entropy_commitment_hash q" and "entropy_value p = entropy_value q"
    and "value_signing_pubkey p = value_signing_pubkey q"
  shows "entropy_opens sha gid p = entropy_opens sha gid q"
  unfolding entropy_opens_def assms ..

lemma find_eq_index: "find_index P xs = Some i \<Longrightarrow> find P xs = Some (xs ! i)"
  by (induction xs arbitrary: i) (auto split: if_splits)

lemma check_entropy_reveal_opens:
  assumes "check_entropy_reveal sha s a e = ok u" and "act_seat a = Some st"
    and "find_index (\<lambda>p. seat p = st) (players s) = Some i"
  shows "entropy_opens sha (game_id s) ((players s ! i)\<lparr> entropy_revealed := r, entropy_value := Some e,
    participation_status := ps \<rparr>)"
  using assms(1)
  by (auto simp: check_entropy_reveal_def assms(2) find_eq_index[OF assms(3)] entropy_opens_def
      verifyEntropyReveal_def constantTimeEquals_iff res_bind_eq_Inr split: option.splits if_splits)

lemma entropy_opens_step:
  assumes e: "estep rs h s a t" and c: "verify_checks sha s a rs = Some (ok ())"
    and o: "\<forall>p \<in> set (players s). entropy_opens sha (game_id s) p"
    and f: "\<forall>p \<in> set (players s). player_entropy_ok p"
  shows "\<forall>p \<in> set (players t). entropy_opens sha (game_id s) p"
  using e
proof (cases rule: estep.cases)
  case (join pk)
  then show ?thesis using o by (auto simp: entropy_opens_def joined_player_def)
next
  case (commit ch st i ps c)
  have "players s ! i \<in> set (players s)" using commit find_index_in_set by blast
  then have "entropy_value (players s ! i) = None" using f commit by (auto simp: player_entropy_ok_def)
  then show ?thesis using o commit by (auto simp: entropy_opens_def intro: ball_list_update_D)
next
  case (reveal en st i ps c)
  have "entropy_opens sha (game_id s) ((players s ! i)\<lparr> entropy_revealed := True, entropy_value := Some en,
      participation_status := Active \<rparr>)"
    using c reveal by (intro check_entropy_reveal_opens[where a = a]) (auto simp: verify_checks_def)
  then show ?thesis using o reveal by (auto intro: ball_list_update_D)
next
  case (surrender st deck i pk ps)
  have "players s ! i \<in> set (players s)" using surrender find_index_in_set by blast
  then show ?thesis
    using o surrender entropy_opens_cong[of "(players s ! i)\<lparr> participation_status := Folded \<rparr>" "players s ! i"]
    by (auto intro: ball_list_update_D)
next
  case (settle acting oc tr pd qd)
  have "entropy_opens sha (game_id s) (credit acting pd p) = entropy_opens sha (game_id s) p" for p
    by (rule entropy_opens_cong) (simp_all add: credit_def)
  then show ?thesis using o settle by auto
qed (use o in simp_all)

lemma verified_entropy_opens:
  "verified sha rs s \<Longrightarrow> \<forall>p \<in> set (players s). entropy_opens sha (game_id s) p"
proof (induction rule: verified.induct)
  case (start gid rsh dl)
  show ?case by (simp add: initialState_def)
next
  case (step s a h s')
  from step.hyps(2) obtain t where t: "applyAction s a rs h = ok t" "forget_deck s' = forget_deck t"
    and c: "verify_checks sha s a rs = Some (ok ())"
    by (rule verifyAndApply_ok)
  have e: "estep rs h s a t" using t(1) by (simp add: applyAction_iff_estep)
  show ?case
    using entropy_opens_step[OF e c step.IH] verified_facts[OF step.hyps(1)] forget_deck_eqD[OF t(2)]
      frame_estep[OF e] by simp
qed

section \<open>Runs through the gate\<close>

fun gate_run ::
  "(byte list \<Rightarrow> byte list) \<Rightarrow> rule_set \<Rightarrow> round_state \<Rightarrow> (signed_action \<times> block_height) list \<Rightarrow> round_state result option"
where
  "gate_run sha rs s [] = Some (ok s)"
| "gate_run sha rs s (i # is) =
     pres_bind (verifyAndApply sha s (fst i) rs (snd i)) (\<lambda>t. gate_run sha rs t is)"

lemma gate_run_verified:
  "verified sha rs s \<Longrightarrow> gate_run sha rs s inputs = Some (ok s') \<Longrightarrow> verified sha rs s'"
  by (induction inputs arbitrary: s) (auto simp: pres_bind_eq_Inr intro: verified.step)

lemma gate_run_engine:
  "gate_run sha rs s inputs = Some (ok s') \<Longrightarrow>
     run_machine (engine_step rs) (forget_deck s) inputs = ok (forget_deck s')"
proof (induction inputs arbitrary: s)
  case (Cons i inputs)
  then obtain u where u: "verifyAndApply sha s (fst i) rs (snd i) = Some (ok u)"
    "gate_run sha rs u inputs = Some (ok s')" by (auto simp: pres_bind_eq_Inr)
  from u(1) obtain t where "applyAction s (fst i) rs (snd i) = ok t" "forget_deck u = forget_deck t"
    by (rule verifyAndApply_ok)
  then have "engine_step rs (forget_deck s) i = ok (forget_deck u)"
    by (simp add: engine_step_def applyAction_forget)
  then show ?case using Cons.IH[OF u(2)] by simp
qed simp

lemma gate_run_returns:
  assumes "\<And>x. length (sha x) = 32" shows "\<exists>r. gate_run sha rs s inputs = Some r"
  by (induction inputs arbitrary: s) (auto intro!: pres_bind_returns verifyAndApply_returns assms)

text \<open>A two-player session with a toy digest, up to the first card.\<close>

definition gate_rules :: rule_set where
  "gate_rules = \<lparr>
     game_type = In_between, player_count_min = 2, player_count_max = 4, stake_amount = 1000,
     min_bet = 10, max_bet = 500, decision_timeout_blocks = 6, recovery_timeout_blocks = 144,
     invitation_window_blocks = 12, default_action_by_state = [],
     penalty_schedule = \<lparr> non_reveal = 1, bad_reveal = 2, consecutive_cards = 3, equal_cards = 4 \<rparr>,
     deck_format = 52, shuffle_algorithm_version = 1,
     settlement_rules = \<lparr> in_between_win_multiplier = 1, in_between_loss_multiplier = 1,
       consecutive_cards_penalty = 50, equal_cards_penalty = 100 \<rparr>,
     recovery_rules = \<lparr> refund_stakes_to_funders = True, apply_non_reveal_penalty = False,
       apply_bad_reveal_penalty = True \<rparr>,
     serialisation_version = 1 \<rparr>"

definition gate_id :: game_id where
  "gate_id = toHex (replicate 32 1)"

definition gate_action :: "seat option \<Rightarrow> action_payload \<Rightarrow> signed_action" where
  "gate_action st p = \<lparr> act_game_id = gate_id, act_round_number = 0, referenced_state_hash = gate_id,
     action_nonce = gate_id, act_seat = st, authorising_signature = [],
     successor_state_commitment = gate_id, payload = p \<rparr>"

definition gate_entropy :: "byte \<Rightarrow> hash256" where
  "gate_entropy b = toHex (replicate 32 b)"

definition gate_commitment :: "byte \<Rightarrow> hash256" where
  "gate_commitment b = toHex ([5, 0] @ replicate 30 b)"

definition gate_inputs :: "(signed_action \<times> block_height) list" where
  "gate_inputs = map (\<lambda>a. (a, 100))
     [gate_action (Some 0) (Join_Payload (''02'' @ toHex (replicate 32 2)) 1000),
      gate_action (Some 1) (Join_Payload (''03'' @ toHex (replicate 32 3)) 1000),
      gate_action None TableLock_Payload,
      gate_action (Some 1) (EntropyCommit_Payload (gate_commitment 9)),
      gate_action (Some 0) (EntropyCommit_Payload (gate_commitment 0)),
      gate_action (Some 0) (EntropyReveal_Payload (gate_entropy 0)),
      gate_action (Some 1) (EntropyReveal_Payload (gate_entropy 9))]"

definition gate_start :: round_state where
  "gate_start = initialState gate_id gate_id 500"

definition gate_at :: "nat \<Rightarrow> round_state" where
  "gate_at k = (case gate_run head_digest gate_rules gate_start (take k gate_inputs) of
     Some (Inr s) \<Rightarrow> s | _ \<Rightarrow> gate_start)"

lemma gate_six_accepted:
  "(case gate_run head_digest gate_rules gate_start (take 6 gate_inputs) of
      Some (Inr s) \<Rightarrow> check_entropy_reveal head_digest s (fst (gate_inputs ! 6)) (gate_entropy 9) = ok ()
        \<and> (case applyAction s (fst (gate_inputs ! 6)) gate_rules 100 of
             Inr t \<Rightarrow> state_class s = S4_ENTROPY_REVEAL_WINDOW \<and> state_class t = S5_DECK_COMMITTED
               \<and> combined_entropy t = None
               \<and> collect_entropies (sort_key seat (players t)) = ok (Some [replicate 32 0, replicate 32 9])
           | _ \<Rightarrow> False)
    | _ \<Rightarrow> False)"
  by code_simp

lemma gate_combined:
  "combineEntropy head_digest [replicate 32 0, replicate 32 9] = ok ([7, 0, 2] @ replicate 29 0)"
  by code_simp

lemma gate_shuffle:
  "shuffleCanonicalDeck head_digest ([7, 0, 2] @ replicate 29 0) 52 =
     Some (ok [1, 2, 4, 27, 5, 6, 7, 8, 9, 10, 12, 35, 13, 14, 15, 16, 17, 18, 20, 19, 21, 22, 23, 24,
       25, 26, 28, 11, 29, 30, 31, 32, 33, 34, 36, 43, 37, 38, 51, 40, 41, 42, 44, 3, 45, 46, 47, 48,
       49, 50, 0, 39])"
  by code_simp

lemma gate_inputs_split: "gate_inputs = take 6 gate_inputs @ [gate_inputs ! 6]"
  by (simp add: gate_inputs_def)

lemma gate_run_append:
  "gate_run sha rs s (is @ js) = pres_bind (gate_run sha rs s is) (\<lambda>t. gate_run sha rs t js)"
proof (induction "is" arbitrary: s)
  case (Cons i "is")
  then show ?case by (simp add: pres_bind_def split: option.splits sum.splits)
qed simp

lemma gate_accepts:
  obtains s d where "gate_run head_digest gate_rules gate_start gate_inputs = Some (ok s)"
    and "verified head_digest gate_rules s" and "state_class s = S5_DECK_COMMITTED"
    and "session_deck head_digest gate_rules s d" and "game_id s = gate_id"
proof -
  let ?a = "fst (gate_inputs ! 6)"
  obtain s t where s: "gate_run head_digest gate_rules gate_start (take 6 gate_inputs) = Some (ok s)"
    and c: "check_entropy_reveal head_digest s ?a (gate_entropy 9) = ok ()"
    and t: "applyAction s ?a gate_rules 100 = ok t" "state_class s = S4_ENTROPY_REVEAL_WINDOW"
      "state_class t = S5_DECK_COMMITTED" "combined_entropy t = None"
      "collect_entropies (sort_key seat (players t)) = ok (Some [replicate 32 0, replicate 32 9])"
    using gate_six_accepted
    by (cases "gate_run head_digest gate_rules gate_start (take 6 gate_inputs)")
       (auto split: sum.splits)
  have i: "snd (gate_inputs ! 6) = 100" "payload ?a = EntropyReveal_Payload (gate_entropy 9)"
    by (simp_all add: gate_inputs_def gate_action_def)
  obtain d where d: "buildDeckCommitment head_digest ([7, 0, 2] @ replicate 29 0) 52 1 = Some (ok d)"
    using buildDeckCommitment_total[of head_digest, OF head_digest_length gate_shuffle] by blast
  have r: "deck_format gate_rules = 52" "shuffle_algorithm_version gate_rules = 1"
    by (simp_all add: gate_rules_def)
  have hd: "deckCommitmentHash d = head_digest (deck_preimage (map dc_commitment (perPosition d)))"
    using buildDeckCommitment_ok[of head_digest, OF head_digest_length d] by (simp add: deck_built_def)
  have h: "asHash256 (toHex b) = ok (toHex b)" if "length b = 32" for b
    using hex_string_toHex[of b] that by (simp add: asHash256_def)
  obtain s' where m: "materialiseDeckCommitment head_digest t gate_rules = Some (ok s')"
    unfolding materialiseDeckCommitment_def t(5) r
    by (simp only: pres_bind_simps option.case gate_combined d res_bind_Inr) (simp add: h hd head_digest_length)
  then have v: "verifyAndApply head_digest s ?a gate_rules 100 = Some (ok s')"
    by (simp add: verifyAndApply_def verify_checks_def i c t)
  then have g: "gate_run head_digest gate_rules gate_start gate_inputs = Some (ok s')"
    by (subst gate_inputs_split) (simp add: gate_run_append s i)
  have ver: "verified head_digest gate_rules s'"
    using gate_run_verified[OF _ g] verified.start by (simp add: gate_start_def)
  have cl: "state_class s' = S5_DECK_COMMITTED"
    using materialise_ok[OF m] t(3) by (auto dest: forget_deck_eqD)
  from verified_deck_settled[OF ver] cl obtain d' where "session_deck head_digest gate_rules s' d'"
    by (auto simp: deck_settled_def)
  moreover have "game_id s' = gate_id"
    using run_frame[OF gate_run_engine[OF g]] by (simp add: gate_start_def initialState_def)
  ultimately show thesis using g ver cl by (intro that)
qed

section \<open>Properties\<close>

text \<open>C23. Every verified session plays with the deck of its players: whenever the playing phase is
  reached through the gate, the combined entropy and the deck commitment of the state are those that
  the players' revealed entropies, in seat order, determine (so no single player, and no relay, chose
  the deck), and every revealed entropy opens the commitment its player made before any reveal.\<close>
theorem session_deck_is_players_deck:
  assumes "verified sha rs s" and "state_class s \<in> in_play"
  shows "(\<exists>d. session_deck sha rs s d) \<and> list_all (entropy_opens sha (game_id s)) (players s)
    \<and> list_all entropy_revealed (players s)"
  using verified_deck_settled[OF assms(1)] verified_entropy_opens[OF assms(1)] verified_facts[OF assms(1)]
    assms(2) by (simp add: deck_settled_def list_all_iff)

lemma session_deck_is_players_deck_witness:
  "\<exists>s d. gate_run head_digest gate_rules gate_start gate_inputs = Some (ok s)
    \<and> session_deck head_digest gate_rules s d"
proof -
  obtain s d where s: "gate_run head_digest gate_rules gate_start gate_inputs = Some (ok s)"
    "verified head_digest gate_rules s" "state_class s = S5_DECK_COMMITTED" by (rule gate_accepts)
  from session_deck_is_players_deck[OF s(2)] s show ?thesis by auto
qed

lemma check_card_reveal_iff:
  assumes sha: "\<And>x. length (sha x) = 32" and d: "session_deck sha rs s d"
  shows "check_card_reveal sha s r rs = Some (ok ()) \<longleftrightarrow>
    0 \<le> proof_position r \<and> proof_position r < deck_format rs \<and>
    (\<exists>cn dn. fromHex (proof_card_nonce r) = ok cn \<and> fromHex (proof_deck_nonce r) = ok dn \<and>
       verifyRevealProof sha (dc_commitment (perPosition d ! nat (proof_position r)))
         \<lparr> op_position = proof_position r, op_ordinal = ordinal (proof_card r), op_cardNonce = cn,
           op_deckNonce = dn \<rparr> = ok True)"
proof -
  from d obtain c where c: "combined_entropy s = Some (toHex c)"
    "buildDeckCommitment sha c (deck_format rs) (shuffle_algorithm_version rs) = Some (ok d)"
    by (auto simp: session_deck_def)
  have "int (length (perPosition d)) = deck_format rs"
    using buildDeckCommitment_ok[OF sha c(2)] by (auto simp: deck_built_def)
  then show ?thesis
    by (auto simp: check_card_reveal_def c Let_def res_bind_eq_Inr split: if_splits)
qed

text \<open>C24. Accepted cards come from the session's deck: a card reveal the gate accepts names a position of
  the deck, appends the revealed card to the visible ones, and the card's ordinal is the one the
  players' shuffle put at that position, unless SHA-256 collides on the two strings hashed.\<close>
theorem verified_card_is_from_the_deck:
  assumes sha: "\<And>x. length (sha x) = 32" and d: "session_deck sha rs s d"
    and "payload a = CardReveal_Payload r" and v: "verifyAndApply sha s a rs h = Some (ok s')"
    and "fromHex (proof_card_nonce r) = ok cn" and "fromHex (proof_deck_nonce r) = ok dn"
    and inj: "inj_on sha {card_preimage (ordinal (proof_card r)) cn dn,
      opening_preimage (opening_of (perPosition d ! nat (proof_position r)))}"
  shows "0 \<le> proof_position r \<and> proof_position r < deck_format rs
    \<and> visible_cards s' = visible_cards s @ [proof_card r]
    \<and> ordinal (proof_card r) = shuffledDeck d ! nat (proof_position r)"
proof -
  from v obtain t where t: "applyAction s a rs h = ok t" "forget_deck s' = forget_deck t"
    and c: "verify_checks sha s a rs = Some (ok ())" by (rule verifyAndApply_ok)
  from t(1) have "visible_cards t = visible_cards s @ [proof_card r]"
    unfolding applyAction_iff_estep by (rule estep_E) (use assms(3) in simp_all)
  then have vis: "visible_cards s' = visible_cards s @ [proof_card r]" using forget_deck_eqD[OF t(2)] by simp
  let ?q = "\<lparr> op_position = proof_position r, op_ordinal = ordinal (proof_card r), op_cardNonce = cn,
           op_deckNonce = dn \<rparr>"
  let ?c = "perPosition d ! nat (proof_position r)"
  from c have k: "0 \<le> proof_position r" "proof_position r < deck_format rs"
    "verifyRevealProof sha (dc_commitment ?c) ?q = ok True"
    using check_card_reveal_iff[of sha, OF sha d, of r] assms(3,5,6) by (auto simp: verify_checks_def)
  from d obtain c where "buildDeckCommitment sha c (deck_format rs) (shuffle_algorithm_version rs) = Some (ok d)"
    by (auto simp: session_deck_def)
  note b = buildDeckCommitment_ok[OF sha this]
  note dc = deck_built_card[of sha "deck_format rs" d "nat (proof_position r)"]
  have "op_ordinal ?q = op_ordinal (opening_of ?c)"
    using opening_preimage_inj[of sha "dc_commitment ?c" ?q "opening_of ?c"] k dc b inj
    by (auto simp: opening_preimage_def)
  then show ?thesis using k vis dc b by auto
qed

text \<open>The reveal a player who knows the deck makes at a position.\<close>

definition honest_reveal :: "deck_commitment \<Rightarrow> nat \<Rightarrow> rank \<Rightarrow> suit \<Rightarrow> reveal_proof" where
  "honest_reveal d i rk st = (let c = perPosition d ! i in
     \<lparr> proof_position = int i, proof_card = \<lparr> rank = rk, suit = st, ordinal = dc_ordinal c \<rparr>,
       proof_card_nonce = toHex (dc_cardNonce c), proof_deck_nonce = toHex (dc_deckNonce c) \<rparr>)"

lemma honest_reveal_check:
  assumes sha: "\<And>x. length (sha x) = 32" and d: "session_deck sha rs s d" and i: "int i < deck_format rs"
  shows "check_card_reveal sha s (honest_reveal d i rk st) rs = Some (ok ())"
proof -
  from d obtain c where "buildDeckCommitment sha c (deck_format rs) (shuffle_algorithm_version rs) = Some (ok d)"
    by (auto simp: session_deck_def)
  note b = buildDeckCommitment_ok[OF sha this]
  let ?c = "perPosition d ! i"
  have v: "verifyRevealProof sha (dc_commitment ?c) (opening_of ?c) = ok True"
    using deck_built_card[of sha "deck_format rs" d i] b i by auto
  have "dc_position ?c = i" using b i by (auto simp: deck_built_def Let_def)
  then have "opening_of ?c = \<lparr> op_position = int i, op_ordinal = dc_ordinal ?c,
      op_cardNonce = dc_cardNonce ?c, op_deckNonce = dc_deckNonce ?c \<rparr>"
    by (simp add: opening_of_def)
  with v show ?thesis
    using i by (simp add: check_card_reveal_iff[of sha, OF sha d] honest_reveal_def Let_def)
qed

text \<open>C25. Honest reveals go through: in the three reveal states of a verified session, opening any
  position of the session's deck is accepted by the gate, whatever rank and suit the card is labelled
  with (only its ordinal is bound by the commitment).\<close>
theorem honest_reveal_is_accepted:
  assumes "\<And>x. length (sha x) = 32" and "session_deck sha rs s d" and "int i < deck_format rs"
    and "act_game_id a = game_id s" and "payload a = CardReveal_Payload (honest_reveal d i rk st)"
    and "state_class s \<in> {S5_DECK_COMMITTED, S6_CARD_REVEAL_FIRST, S9_CARD_REVEAL_THIRD}"
  shows "\<exists>s'. verifyAndApply sha s a rs h = Some (ok s')"
proof -
  have c: "check_card_reveal sha s (honest_reveal d i rk st) rs = Some (ok ())"
    by (rule honest_reveal_check) (use assms in auto)
  obtain n where "reveal_class (state_class s) = Some n" using assms(6) by auto
  from estep.card[OF assms(4,5) this] obtain t where "applyAction s a rs h = ok t"
    unfolding applyAction_iff_estep by blast
  moreover have "state_class s \<noteq> S4_ENTROPY_REVEAL_WINDOW" using assms(6) by auto
  ultimately show ?thesis by (simp add: verifyAndApply_def verify_checks_def assms(5) c)
qed

lemma honest_reveal_is_accepted_witness:
  "\<exists>s d s'. session_deck head_digest gate_rules s d \<and>
     verifyAndApply head_digest s (gate_action None (CardReveal_Payload (honest_reveal d 3 R3 Hearts)))
       gate_rules 100 = Some (ok s')"
proof -
  obtain s d where s: "state_class s = S5_DECK_COMMITTED" "session_deck head_digest gate_rules s d"
    "game_id s = gate_id" by (rule gate_accepts)
  have "\<exists>s'. verifyAndApply head_digest s (gate_action None (CardReveal_Payload (honest_reveal d 3 R3 Hearts)))
       gate_rules 100 = Some (ok s')"
    by (rule honest_reveal_is_accepted[of head_digest, OF head_digest_length s(2), of 3])
       (simp_all add: gate_rules_def gate_action_def s)
  then show ?thesis using s(2) by blast
qed

lemma honest_reveal_step:
  obtains s d s' where "session_deck head_digest gate_rules s d"
    and "verifyAndApply head_digest s (gate_action None (CardReveal_Payload (honest_reveal d 3 R3 Hearts)))
       gate_rules 100 = Some (ok s')"
proof -
  obtain s d where s: "state_class s = S5_DECK_COMMITTED" "session_deck head_digest gate_rules s d"
    "game_id s = gate_id" by (rule gate_accepts)
  let ?a = "gate_action None (CardReveal_Payload (honest_reveal d 3 R3 Hearts))"
  have c: "verify_checks head_digest s ?a gate_rules = Some (ok ())"
    using honest_reveal_check[of head_digest, OF head_digest_length s(2), of 3]
    by (simp add: verify_checks_def gate_action_def gate_rules_def)
  have "applyAction s ?a gate_rules 100 \<noteq> Inl e" for e
    using estep.card[of ?a s "honest_reveal d 3 R3 Hearts" S6_CARD_REVEAL_FIRST gate_rules 100] s
    by (auto simp: gate_action_def simp flip: applyAction_iff_estep)
  then obtain t where "applyAction s ?a gate_rules 100 = ok t" by (cases "applyAction s ?a gate_rules 100") auto
  then have "verifyAndApply head_digest s ?a gate_rules 100 = Some (ok t)"
    by (simp add: verifyAndApply_def c s)
  with s(2) show thesis by (rule that)
qed

lemma verified_card_is_from_the_deck_witness:
  "\<exists>s d. session_deck head_digest gate_rules s d \<and>
     ordinal (proof_card (honest_reveal d 3 R3 Hearts)) = shuffledDeck d ! 3"
proof -
  obtain s d s' where s: "session_deck head_digest gate_rules s d"
    and v: "verifyAndApply head_digest s (gate_action None (CardReveal_Payload (honest_reveal d 3 R3 Hearts)))
       gate_rules 100 = Some (ok s')" by (rule honest_reveal_step)
  let ?c = "perPosition d ! 3"
  have "ordinal (proof_card (honest_reveal d 3 R3 Hearts)) = shuffledDeck d ! nat (proof_position (honest_reveal d 3 R3 Hearts))"
    by (rule conjunct2[OF conjunct2[OF conjunct2[OF verified_card_is_from_the_deck[of head_digest,
          OF head_digest_length s _ v, of "honest_reveal d 3 R3 Hearts" "dc_cardNonce ?c" "dc_deckNonce ?c"]]]])
       (simp_all add: gate_action_def honest_reveal_def Let_def opening_preimage_def opening_of_def)
  then show ?thesis using s by (auto simp: honest_reveal_def Let_def)
qed

end
