(* ===== verification/State_Hash.thy ===== *)
theory State_Hash
  imports Rule_Codec
begin

text \<open>
  \<open>packages/protocol-types/src/serialise.ts\<close>: the canonical encoding of a round state and its hash.
  Every encoder of the file is a definition here; \<open>concat(...)\<close> evaluates its arguments in order, so the
  first that throws ends the call. The four helpers whose names the transaction encoder uses as well carry
  the suffix \<open>_state\<close>. \<open>sha\<close> is \<open>crypto.subtle.digest('SHA-256', _)\<close>.

  The contract of such encoders is the locale \<open>prefix_code\<close>: on the values an encoder is meant for, its bytes
  determine exactly the part of the value called the key, whatever follows them. The contract is closed
  under the ways the file combines encoders, and \<open>encodeRoundState\<close> is interpreted as one.
\<close>

section \<open>Names\<close>

fun state_class_name :: "state_class \<Rightarrow> string" where
  "state_class_name S0_TABLE_OPEN = ''S0_TABLE_OPEN''"
| "state_class_name S1_SEAT_OPEN = ''S1_SEAT_OPEN''"
| "state_class_name S2_TABLE_LOCKED = ''S2_TABLE_LOCKED''"
| "state_class_name S3_ENTROPY_COMMIT_WINDOW = ''S3_ENTROPY_COMMIT_WINDOW''"
| "state_class_name S4_ENTROPY_REVEAL_WINDOW = ''S4_ENTROPY_REVEAL_WINDOW''"
| "state_class_name S5_DECK_COMMITTED = ''S5_DECK_COMMITTED''"
| "state_class_name S6_CARD_REVEAL_FIRST = ''S6_CARD_REVEAL_FIRST''"
| "state_class_name S7_CARD_REVEAL_SECOND = ''S7_CARD_REVEAL_SECOND''"
| "state_class_name S8_BET_DECISION = ''S8_BET_DECISION''"
| "state_class_name S9_CARD_REVEAL_THIRD = ''S9_CARD_REVEAL_THIRD''"
| "state_class_name S10_SETTLED_ROUND = ''S10_SETTLED_ROUND''"
| "state_class_name S11_ROTATE_TURN = ''S11_ROTATE_TURN''"
| "state_class_name S12_TABLE_CLOSE = ''S12_TABLE_CLOSE''"
| "state_class_name RECOVERED = ''RECOVERED''"

fun action_type_name :: "action_type \<Rightarrow> string" where
  "action_type_name Join = ''Join''"
| "action_type_name EntropyCommit = ''EntropyCommit''"
| "action_type_name EntropyReveal = ''EntropyReveal''"
| "action_type_name CardReveal = ''CardReveal''"
| "action_type_name DealConcealed = ''DealConcealed''"
| "action_type_name BetAction = ''BetAction''"
| "action_type_name Pass = ''Pass''"
| "action_type_name Fold = ''Fold''"
| "action_type_name Settle = ''Settle''"
| "action_type_name RotateTurn = ''RotateTurn''"
| "action_type_name TableLock = ''TableLock''"
| "action_type_name TableClose = ''TableClose''"
| "action_type_name Timeout = ''Timeout''"
| "action_type_name Recovery = ''Recovery''"

fun participation_status_name :: "participation_status \<Rightarrow> string" where
  "participation_status_name Invited = ''invited''"
| "participation_status_name Joined = ''joined''"
| "participation_status_name Ready = ''ready''"
| "participation_status_name Active = ''active''"
| "participation_status_name Folded = ''folded''"
| "participation_status_name Settled = ''settled''"
| "participation_status_name Disconnected = ''disconnected''"
| "participation_status_name Timed_out = ''timed_out''"
| "participation_status_name Forfeited = ''forfeited''"

fun lifecycle_name :: "card_lifecycle_state \<Rightarrow> string" where
  "lifecycle_name UNDEALT = ''UNDEALT''"
| "lifecycle_name ASSIGNED_CONCEALED = ''ASSIGNED_CONCEALED''"
| "lifecycle_name REVEALED = ''REVEALED''"
| "lifecycle_name SURRENDERED = ''SURRENDERED''"
| "lifecycle_name RETIRED = ''RETIRED''"
| "lifecycle_name (Variant_State s) = s"

lemma state_class_name_inj: "state_class_name c = state_class_name d \<longleftrightarrow> c = d"
  by (cases c; cases d) simp_all

lemma action_type_name_inj: "action_type_name a = action_type_name b \<longleftrightarrow> a = b"
  by (cases a; cases b) simp_all

lemma participation_status_name_inj: "participation_status_name p = participation_status_name q \<longleftrightarrow> p = q"
  by (cases p; cases q) simp_all

section \<open>Primitive encoders\<close>

definition TAG_PLAYER :: int where "TAG_PLAYER = 0x0002"
definition TAG_ROUNDSTATE :: int where "TAG_ROUNDSTATE = 0x0009"
definition TAG_CONCEALED_CARD :: int where "TAG_CONCEALED_CARD = 0x0008"
definition ROUNDSTATE_VERSION :: int where "ROUNDSTATE_VERSION = 1"
definition PLAYER_VERSION :: int where "PLAYER_VERSION = 1"
definition CONCEALED_CARD_VERSION :: int where "CONCEALED_CARD_VERSION = 1"

definition ZERO_32_state :: "byte list" where
  "ZERO_32_state = replicate 32 0"

definition encU8 :: "int \<Rightarrow> byte list" where
  "encU8 n = [u8 (js_and n 0xff)]"

definition encU16LE :: "int \<Rightarrow> byte list" where
  "encU16LE n = [u8 (js_and n 0xff), u8 (js_and (js_ushr n 8) 0xff)]"

definition encU32LE_state :: "int \<Rightarrow> byte list" where
  "encU32LE_state n = [u8 (js_and n 0xff), u8 (js_and (js_ushr n 8) 0xff),
     u8 (js_and (js_ushr n 16) 0xff), u8 (js_and (js_ushr n 24) 0xff)]"

definition encU64LE_state :: "int \<Rightarrow> byte list" where
  "encU64LE_state n = le_bytes 8 n"

definition encBool :: "bool \<Rightarrow> byte list" where
  "encBool b = [if b then 1 else 0]"

definition encVarint_state :: "int \<Rightarrow> byte list" where
  "encVarint_state n =
     (if n < 0xfd then [u8 n]
      else if n \<le> 0xffff then [u8 0xfd, u8 (js_and n 0xff), u8 (js_and (js_ushr n 8) 0xff)]
      else if n \<le> 0xffffffff then u8 0xfe # le_bytes 4 (js_ushr n 0)
      else u8 0xff # le_bytes 8 n)"

definition encString :: "string \<Rightarrow> byte list" where
  "encString s = encVarint_state (int (length (utf8 s))) @ utf8 s"

definition encBytes32Hex :: "string \<Rightarrow> byte list result" where
  "encBytes32Hex hex =
     (if length hex \<noteq> 64 then throw ''encBytes32Hex''
      else case parse_pairs hex of Inl _ \<Rightarrow> throw ''encBytes32Hex'' | Inr bs \<Rightarrow> ok bs)"

text \<open>\<open>concat(...)\<close> with its arguments.\<close>

definition concat_parts :: "byte list result list \<Rightarrow> byte list result" where
  "concat_parts parts = res_bind (map_res id parts) (\<lambda>ps. ok (concat ps))"

definition encOptionalHash :: "hash256 option \<Rightarrow> byte list result" where
  "encOptionalHash h =
     (case h of None \<Rightarrow> ok (encBool False) | Some x \<Rightarrow> concat_parts [ok (encBool True), encBytes32Hex x])"

definition encOptionalU32 :: "int option \<Rightarrow> byte list result" where
  "encOptionalU32 n =
     (case n of None \<Rightarrow> ok (encBool False)
      | Some x \<Rightarrow> concat_parts [ok (encBool True), ok (encU32LE_state x)])"

definition encOptionalSeat :: "int option \<Rightarrow> byte list result" where
  "encOptionalSeat n =
     (case n of None \<Rightarrow> ok (encBool False)
      | Some x \<Rightarrow> concat_parts [ok (encBool True), ok (encU32LE_state x)])"

definition encOptionalString :: "string option \<Rightarrow> byte list result" where
  "encOptionalString s =
     (case s of None \<Rightarrow> ok (encBool False)
      | Some x \<Rightarrow> if x = '''' then ok (encBool False) else concat_parts [ok (encBool True), ok (encString x)])"

definition encArrayBytes32 :: "string list \<Rightarrow> byte list result" where
  "encArrayBytes32 items =
     concat_parts (ok (encVarint_state (int (length items))) # map encBytes32Hex items)"

definition encArrayString :: "string list \<Rightarrow> byte list result" where
  "encArrayString items =
     concat_parts (ok (encVarint_state (int (length items))) # map (\<lambda>s. ok (encString s)) items)"

section \<open>Composite encoders\<close>

text \<open>\<open>s.substring(s.length - 64)\<close>; a negative start counts as 0.\<close>

definition tail64 :: "string \<Rightarrow> string" where
  "tail64 s = drop (length s - 64) s"

definition encPreferences :: "(string \<times> string) list \<Rightarrow> byte list result" where
  "encPreferences prefs =
     (let keys = sort (map fst prefs) in
      concat_parts (ok (encVarint_state (int (length keys)))
        # concat (map (\<lambda>k. [ok (encString k),
             ok (encString (case map_of prefs k of None \<Rightarrow> '''' | Some v \<Rightarrow> v))]) keys)))"

definition encPlayer :: "player_state \<Rightarrow> byte list result" where
  "encPlayer p = concat_parts [
     ok (encU16LE TAG_PLAYER),
     ok (encU8 PLAYER_VERSION),
     ok (encU32LE_state (seat p)),
     encBytes32Hex (player_id p),
     encBytes32Hex (tail64 (value_signing_pubkey p)),
     ok (encString (participation_status_name (participation_status p))),
     ok (encU64LE_state (stake_at_risk p)),
     encOptionalString (stake_outpoint p),
     ok (encBool (entropy_committed p)),
     encOptionalHash (entropy_commitment_hash p),
     ok (encBool (entropy_revealed p)),
     encOptionalHash (entropy_value p),
     encArrayString (concealed_card_refs p),
     encPreferences (default_preferences p)]"

definition encVisibleCards :: "revealed_card list \<Rightarrow> byte list result" where
  "encVisibleCards cards =
     concat_parts (ok (encVarint_state (int (length cards))) # map (\<lambda>c. ok (encU8 (ordinal c))) cards)"

definition encConcealedCard :: "concealed_card \<Rightarrow> byte list result" where
  "encConcealedCard c = concat_parts [
     ok (encU16LE TAG_CONCEALED_CARD),
     ok (encU8 CONCEALED_CARD_VERSION),
     ok (encU32LE_state (position (commitment c))),
     encBytes32Hex (card_commitment (commitment c)),
     encBytes32Hex (card_nonce (commitment c)),
     ok (encString (ciphertext c)),
     ok (encString (custody_outpoint c)),
     encBytes32Hex (tail64 (holder_pubkey c)),
     ok (encString (lifecycle_name (lifecycle_state c)))]"

definition encOptionalConcealedDeck :: "concealed_card list option \<Rightarrow> byte list result" where
  "encOptionalConcealedDeck deck =
     (case deck of None \<Rightarrow> ok (encBool False)
      | Some cs \<Rightarrow> concat_parts ([ok (encBool True), ok (encVarint_state (int (length cs)))]
                                 @ map encConcealedCard cs))"

definition encodeRoundState :: "round_state \<Rightarrow> byte list result" where
  "encodeRoundState s =
     res_bind (concat_parts (ok (encVarint_state (int (length (players s)))) # map encPlayer (players s)))
       (\<lambda>playersParts. concat_parts [
          ok (encU16LE TAG_ROUNDSTATE),
          ok (encU8 ROUNDSTATE_VERSION),
          ok (encString (state_class_name (state_class s))),
          encBytes32Hex (round_state.game_id s),
          encBytes32Hex (round_state.rule_set_hash s),
          ok (encU32LE_state (round_state.round_number s)),
          encOptionalSeat (acting_player_seat s),
          ok playersParts,
          ok (encU64LE_state (pot_value s)),
          encVisibleCards (visible_cards s),
          encArrayBytes32 (hidden_commitment_refs s),
          encArrayString (map action_type_name (allowed_actions s)),
          encOptionalU32 (decision_deadline_block_height s),
          encOptionalU32 (recovery_deadline_block_height s),
          encArrayBytes32 (successor_template_hashes s),
          encOptionalHash (combined_entropy s),
          encOptionalHash (deck_commitment_hash s),
          encOptionalConcealedDeck (concealed_deck s),
          encOptionalHash (prior_state_hash s),
          ok ZERO_32_state])"

definition computeStateHash :: "(byte list \<Rightarrow> byte list) \<Rightarrow> round_state \<Rightarrow> hash256 result" where
  "computeStateHash sha s = res_bind (encodeRoundState s) (\<lambda>encoded. asHash256 (toHex (sha encoded)))"

definition chainsFromHash ::
  "(byte list \<Rightarrow> byte list) \<Rightarrow> round_state option \<Rightarrow> round_state \<Rightarrow> bool result" where
  "chainsFromHash sha prior nxt =
     (case prior of None \<Rightarrow> ok (prior_state_hash nxt = None)
      | Some p \<Rightarrow> (case prior_state_hash nxt of None \<Rightarrow> ok False
          | Some h \<Rightarrow> res_bind (computeStateHash sha p) (\<lambda>expected. ok (h = expected))))"

section \<open>Prefix codes\<close>

locale prefix_code =
  fixes enc :: "'a \<Rightarrow> byte list result" and key :: "'a \<Rightarrow> 'k" and valid :: "'a \<Rightarrow> bool"
  assumes enc_total: "valid a \<Longrightarrow> \<exists>p. enc a = ok p"
    and enc_cut: "valid a \<Longrightarrow> valid b \<Longrightarrow> enc a = ok p \<Longrightarrow> enc b = ok q \<Longrightarrow> p @ x = q @ y \<Longrightarrow>
      key a = key b \<and> x = y"
    and enc_key: "valid a \<Longrightarrow> valid b \<Longrightarrow> key a = key b \<Longrightarrow> enc a = enc b"
begin

lemma same_bytes_iff: "valid a \<Longrightarrow> valid b \<Longrightarrow> enc a = enc b \<longleftrightarrow> key a = key b"
proof (rule iffI)
  assume v: "valid a" "valid b" and e: "enc a = enc b"
  from enc_total[OF v(1)] obtain p where p: "enc a = ok p" ..
  from enc_cut[OF v p p[unfolded e] refl] show "key a = key b" ..
qed (rule enc_key)

end

lemma prefix_code_comap:
  assumes "prefix_code e k v" and "\<And>a. v' a \<Longrightarrow> v (f a)"
  shows "prefix_code (\<lambda>a. e (f a)) (\<lambda>a. k (f a)) v'"
proof
  fix a b p q x y
  show "v' a \<Longrightarrow> \<exists>p. e (f a) = ok p" using prefix_code.enc_total[OF assms(1)] assms(2) by blast
  show "v' a \<Longrightarrow> v' b \<Longrightarrow> e (f a) = ok p \<Longrightarrow> e (f b) = ok q \<Longrightarrow> p @ x = q @ y \<Longrightarrow> k (f a) = k (f b) \<and> x = y"
    using prefix_code.enc_cut[OF assms(1)] assms(2) by blast
  show "v' a \<Longrightarrow> v' b \<Longrightarrow> k (f a) = k (f b) \<Longrightarrow> e (f a) = e (f b)"
    using prefix_code.enc_key[OF assms(1)] assms(2) by blast
qed

lemma prefix_code_rekey:
  assumes "prefix_code e k v" and "\<And>a b. v a \<Longrightarrow> v b \<Longrightarrow> k a = k b \<longleftrightarrow> k' a = k' b"
  shows "prefix_code e k' v"
proof
  fix a b p q x y
  show "v a \<Longrightarrow> \<exists>p. e a = ok p" by (rule prefix_code.enc_total[OF assms(1)])
  show "v a \<Longrightarrow> v b \<Longrightarrow> e a = ok p \<Longrightarrow> e b = ok q \<Longrightarrow> p @ x = q @ y \<Longrightarrow> k' a = k' b \<and> x = y"
    using prefix_code.enc_cut[OF assms(1)] assms(2) by blast
  show "v a \<Longrightarrow> v b \<Longrightarrow> k' a = k' b \<Longrightarrow> e a = e b"
    using prefix_code.enc_key[OF assms(1)] assms(2) by blast
qed

lemma concat_parts_simps [simp]:
  "concat_parts [] = ok []"
  "concat_parts (r # rs) = res_bind r (\<lambda>p. res_bind (concat_parts rs) (\<lambda>ps. ok (p @ ps)))"
  by (simp_all add: concat_parts_def res_bind_assoc)

lemma concat_parts_append:
  "concat_parts (rs @ ss) = res_bind (concat_parts rs) (\<lambda>p. res_bind (concat_parts ss) (\<lambda>q. ok (p @ q)))"
  by (induction rs) (simp_all add: res_bind_assoc)

lemma prefix_code_const: "prefix_code (\<lambda>a. ok bs) (\<lambda>a. ()) v"
  by unfold_locales auto

lemma prefix_code_Nil: "prefix_code (\<lambda>a. concat_parts []) (\<lambda>a. ()) v"
  by unfold_locales auto

lemma prefix_code_Cons:
  assumes "prefix_code e k v" and "prefix_code (\<lambda>a. concat_parts (es a)) ks v"
  shows "prefix_code (\<lambda>a. concat_parts (e a # es a)) (\<lambda>a. (k a, ks a)) v"
proof
  fix a b p q x y
  show "v a \<Longrightarrow> \<exists>p. concat_parts (e a # es a) = ok p"
    using prefix_code.enc_total[OF assms(1), of a] prefix_code.enc_total[OF assms(2), of a] by auto
  show "(k a, ks a) = (k b, ks b) \<and> x = y" if "v a" "v b"
    "concat_parts (e a # es a) = ok p" "concat_parts (e b # es b) = ok q" "p @ x = q @ y"
  proof -
    from that(3) obtain p1 p2 where p: "e a = ok p1" "concat_parts (es a) = ok p2" "p = p1 @ p2"
      by (auto simp: res_bind_eq_Inr)
    from that(4) obtain q1 q2 where q: "e b = ok q1" "concat_parts (es b) = ok q2" "q = q1 @ q2"
      by (auto simp: res_bind_eq_Inr)
    have "p1 @ (p2 @ x) = q1 @ (q2 @ y)" using that(5) p(3) q(3) by simp
    from prefix_code.enc_cut[OF assms(1) that(1,2) p(1) q(1) this]
    have h: "k a = k b" "p2 @ x = q2 @ y" by blast+
    from prefix_code.enc_cut[OF assms(2) that(1,2) p(2) q(2) h(2)] h(1) show ?thesis by simp
  qed
  show "concat_parts (e a # es a) = concat_parts (e b # es b)"
    if "v a" "v b" "(k a, ks a) = (k b, ks b)"
  proof -
    have k: "k a = k b" "ks a = ks b" using that(3) by simp_all
    show ?thesis
      unfolding concat_parts_simps prefix_code.enc_key[OF assms(1) that(1,2) k(1)]
        prefix_code.enc_key[OF assms(2) that(1,2) k(2)] ..
  qed
qed

text \<open>A prefix code may be followed by a count of items, or preceded by a presence flag.\<close>

lemma varint_cut:
  assumes "0 \<le> m" "m < 2 ^ 64" "0 \<le> n" "n < 2 ^ 64" and "varint_bytes m @ x = varint_bytes n @ y"
  shows "m = n \<and> x = y"
  using varint_read_bytes[OF assms(1,2), of "''x''" x] varint_read_bytes[OF assms(3,4), of "''x''" y]
  unfolding assms(5) by simp

lemma encVarint_state_eq: "encVarint_state n = varint_bytes n"
  by (simp add: encVarint_state_def varint_bytes_def u8_ushr le_bytes_ushr flip: le_bytes_2)

lemma prefix_code_map_cut:
  assumes "prefix_code e k v" and "length xs = length ys" and "\<forall>x \<in> set xs. v x" and "\<forall>y \<in> set ys. v y"
    and "concat_parts (map e xs) = ok p" and "concat_parts (map e ys) = ok q" and "p @ x = q @ y"
  shows "map k xs = map k ys \<and> x = y"
  using assms(2-)
proof (induction xs ys arbitrary: p q rule: list_induct2)
  case (Cons a xs b ys)
  obtain p1 p2 where p: "e a = ok p1" "concat_parts (map e xs) = ok p2" "p = p1 @ p2"
    using Cons.prems(3) by (auto simp: res_bind_eq_Inr)
  obtain q1 q2 where q: "e b = ok q1" "concat_parts (map e ys) = ok q2" "q = q1 @ q2"
    using Cons.prems(4) by (auto simp: res_bind_eq_Inr)
  have v: "v a" "v b" using Cons.prems(1,2) by simp_all
  have "p1 @ (p2 @ x) = q1 @ (q2 @ y)" using Cons.prems(5) p(3) q(3) by simp
  from prefix_code.enc_cut[OF assms(1) v p(1) q(1) this] have h: "k a = k b" "p2 @ x = q2 @ y" by blast+
  from Cons.IH[OF _ _ p(2) q(2) h(2)] Cons.prems(1,2) h(1) show ?case by simp
qed simp

lemma prefix_code_map_total:
  assumes "prefix_code e k v" and "\<forall>x \<in> set xs. v x"
  shows "\<exists>p. concat_parts (map e xs) = ok p"
  using assms(2)
proof (induction xs)
  case (Cons a xs)
  then obtain p q where "e a = ok p" "concat_parts (map e xs) = ok q"
    using prefix_code.enc_total[OF assms(1)] by force
  then show ?case by simp
qed simp

lemma prefix_code_map_key:
  assumes "prefix_code e k v" and "\<forall>x \<in> set xs. v x" and "\<forall>y \<in> set ys. v y" and "map k xs = map k ys"
  shows "map e xs = map e ys"
proof (rule nth_equalityI)
  show l: "length (map e xs) = length (map e ys)" using arg_cong[OF assms(4), of length] by simp
  fix i assume i: "i < length (map e xs)"
  have "k (xs ! i) = k (ys ! i)" using arg_cong[OF assms(4), of "\<lambda>zs. zs ! i"] i l by simp
  then have "e (xs ! i) = e (ys ! i)"
    using prefix_code.enc_key[OF assms(1)] assms(2,3) i l by simp
  then show "map e xs ! i = map e ys ! i" using i l by simp
qed

lemma prefix_code_list:
  assumes "prefix_code e k v"
  shows "prefix_code (\<lambda>xs. concat_parts (ok (encVarint_state (int (length xs))) # map e xs)) (map k)
    (\<lambda>xs. int (length xs) < 2 ^ 64 \<and> (\<forall>x \<in> set xs. v x))"
proof
  fix xs ys :: "'a list" and p q x y
  let ?v = "\<lambda>xs. int (length xs) < 2 ^ 64 \<and> (\<forall>x \<in> set xs. v x)"
  let ?e = "\<lambda>xs. concat_parts (ok (encVarint_state (int (length xs))) # map e xs)"
  show "?v xs \<Longrightarrow> \<exists>p. ?e xs = ok p" using prefix_code_map_total[OF assms, of xs] by auto
  show "map k xs = map k ys \<and> x = y" if h0: "?v xs" "?v ys" "?e xs = ok p" "?e ys = ok q" "p @ x = q @ y"
  proof -
    obtain p' where p: "concat_parts (map e xs) = ok p'" "p = varint_bytes (int (length xs)) @ p'"
      using h0(3) by (auto simp: res_bind_eq_Inr encVarint_state_eq)
    obtain q' where q: "concat_parts (map e ys) = ok q'" "q = varint_bytes (int (length ys)) @ q'"
      using h0(4) by (auto simp: res_bind_eq_Inr encVarint_state_eq)
    have "varint_bytes (int (length xs)) @ (p' @ x) = varint_bytes (int (length ys)) @ (q' @ y)"
      using h0(5) p(2) q(2) by simp
    from varint_cut[OF _ _ _ _ this] h0(1,2)
    have h: "int (length xs) = int (length ys)" "p' @ x = q' @ y" by simp_all
    have l: "length xs = length ys" using h(1) by simp
    show ?thesis
      by (rule prefix_code_map_cut[OF assms l _ _ p(1) q(1) h(2)]) (use h0(1,2) in blast)+
  qed
  show "?e xs = ?e ys" if "?v xs" "?v ys" "map k xs = map k ys"
  proof -
    have m: "map e xs = map e ys" by (rule prefix_code_map_key[OF assms _ _ that(3)]) (use that(1,2) in blast)+
    have l: "length xs = length ys" using arg_cong[OF that(3), of length] by simp
    show ?thesis unfolding m l ..
  qed
qed

lemma prefix_code_option:
  assumes "prefix_code e k v"
  shows "prefix_code (\<lambda>a. case a of None \<Rightarrow> ok (encBool False) | Some b \<Rightarrow> concat_parts [ok (encBool True), e b])
    (map_option k) (pred_option v)"
proof
  fix a b p q x y
  let ?e = "\<lambda>a. case a of None \<Rightarrow> ok (encBool False) | Some b \<Rightarrow> concat_parts [ok (encBool True), e b]"
  show "pred_option v a \<Longrightarrow> \<exists>p. ?e a = ok p"
    using prefix_code.enc_total[OF assms, of "the a"] by (cases a) auto
  show "map_option k a = map_option k b \<and> x = y"
    if "pred_option v a" "pred_option v b" "?e a = ok p" "?e b = ok q" "p @ x = q @ y"
  proof (cases "a = None \<or> b = None")
    case True
    then show ?thesis using that by (auto simp: encBool_def res_bind_eq_Inr split: option.splits)
  next
    case False
    then obtain a' b' where ab: "a = Some a'" "b = Some b'" by auto
    from that(3)[unfolded ab] that(4)[unfolded ab] obtain p' q'
      where pq: "e a' = ok p'" "p = 1 # p'" "e b' = ok q'" "q = 1 # q'"
      by (auto simp: encBool_def res_bind_eq_Inr)
    have "v a'" "v b'" "p' @ x = q' @ y" using that(1,2,5) ab pq(2,4) by simp_all
    from prefix_code.enc_cut[OF assms this(1,2) pq(1,3) this(3)] show ?thesis by (simp add: ab)
  qed
  show "?e a = ?e b" if h0: "pred_option v a" "pred_option v b" "map_option k a = map_option k b"
  proof (cases a)
    case None
    then show ?thesis using h0(3) by simp
  next
    case (Some a')
    then obtain b' where b: "b = Some b'" "k a' = k b'" using h0(3) by (cases b) auto
    have "e a' = e b'" using prefix_code.enc_key[OF assms _ _ b(2)] h0(1,2) Some b(1) by simp
    then show ?thesis using Some b(1) by simp
  qed
qed

section \<open>The primitive encoders as prefix codes\<close>

lemma prefix_code_fixed:
  assumes "\<And>a. length (f a) = n" and "\<And>a b. v a \<Longrightarrow> v b \<Longrightarrow> f a = f b \<Longrightarrow> k a = k b"
    and "\<And>a b. v a \<Longrightarrow> v b \<Longrightarrow> k a = k b \<Longrightarrow> f a = f b"
  shows "prefix_code (\<lambda>a. ok (f a)) k v"
proof
  fix a b p q x y
  show "k a = k b \<and> x = y" if "v a" "v b" "ok (f a) = ok p" "ok (f b) = ok q" "p @ x = q @ y"
    using that assms(1)[of a] assms(1)[of b] assms(2)[OF that(1,2)] by auto
  show "ok (f a) = ok (f b)" if "v a" "v b" "k a = k b" using assms(3)[OF that] by simp
qed simp

lemma le_bytes_small_inj:
  "0 \<le> a \<Longrightarrow> a < 256 ^ n \<Longrightarrow> 0 \<le> b \<Longrightarrow> b < 256 ^ n \<Longrightarrow> le_bytes n a = le_bytes n b \<Longrightarrow> a = b"
  using le_value_small[of a n] le_value_small[of b n] by metis

lemma enc_ints:
  "encU8 n = le_bytes 1 n" "encU32LE_state n = le_bytes 4 n" "encU64LE_state n = le_bytes 8 n"
  by (simp_all add: encU8_def encU32LE_state_def encU64LE_state_def u8_ushr flip: le_bytes_4)

lemma code_u8: "prefix_code (\<lambda>n. ok (encU8 n)) id (\<lambda>n. 0 \<le> n \<and> n < 2 ^ 8)"
  unfolding enc_ints by (rule prefix_code_fixed) (auto intro: le_bytes_small_inj[of _ 1])

lemma code_u32: "prefix_code (\<lambda>n. ok (encU32LE_state n)) id (\<lambda>n. 0 \<le> n \<and> n < 2 ^ 32)"
  unfolding enc_ints by (rule prefix_code_fixed) (auto intro: le_bytes_small_inj[of _ 4])

lemma code_u64: "prefix_code (\<lambda>n. ok (encU64LE_state n)) id (\<lambda>n. 0 \<le> n \<and> n < 2 ^ 64)"
  unfolding enc_ints by (rule prefix_code_fixed) (auto intro: le_bytes_small_inj[of _ 8])

lemma code_bool: "prefix_code (\<lambda>b. ok (encBool b)) id (\<lambda>b. True)"
  by (rule prefix_code_fixed) (auto simp: encBool_def split: if_splits)

definition short_text :: "string \<Rightarrow> bool" where
  "short_text s \<longleftrightarrow> int (length (utf8 s)) < 2 ^ 64"

lemma code_string: "prefix_code (\<lambda>s. ok (encString s)) id short_text"
proof
  fix a b p q x y
  assume s: "short_text a" "short_text b" and e: "ok (encString a) = ok p" "ok (encString b) = ok q"
    and eq: "p @ x = q @ y"
  have "utf8 a = utf8 b \<and> x = y"
  proof (rule varint_string_prefix_free)
    show "int (length (utf8 a)) < 2 ^ 64" "int (length (utf8 b)) < 2 ^ 64" using s by (simp_all add: short_text_def)
    have "p = varint_bytes (int (length (utf8 a))) @ utf8 a" "q = varint_bytes (int (length (utf8 b))) @ utf8 b"
      using e by (simp_all add: encString_def encVarint_state_eq)
    then show "varint_bytes (int (length (utf8 a))) @ utf8 a @ x = varint_bytes (int (length (utf8 b))) @ utf8 b @ y"
      using eq by (metis append_assoc)
  qed
  then show "id a = id b \<and> x = y" using utf8_decode_utf8 by (metis id_apply option.inject)
qed simp_all

lemma hex_string_encodes: "hex_string 64 h \<Longrightarrow> \<exists>bs. h = toHex bs \<and> length bs = 32 \<and> encBytes32Hex h = ok bs"
  using lower_hex_toHex[of h] by (auto simp: hex_string_def encBytes32Hex_def parse_pairs_toHex)

lemma code_hash: "prefix_code encBytes32Hex id (hex_string 64)"
proof
  fix a b p q x y
  show "hex_string 64 a \<Longrightarrow> \<exists>p. encBytes32Hex a = ok p" using hex_string_encodes by blast
  assume h: "hex_string 64 a" "hex_string 64 b" and e: "encBytes32Hex a = ok p" "encBytes32Hex b = ok q"
    and eq: "p @ x = q @ y"
  have "a = toHex p" "length p = 32" "b = toHex q" "length q = 32"
    using hex_string_encodes[OF h(1)] hex_string_encodes[OF h(2)] e by auto
  then show "id a = id b \<and> x = y" using eq by simp
qed simp

section \<open>What a state hash commits to\<close>

lemma prefix_code_cong:
  assumes "prefix_code e k v" and "\<And>a. v a \<Longrightarrow> e' a = e a"
  shows "prefix_code e' k v"
proof
  fix a b p q x y
  show "v a \<Longrightarrow> \<exists>p. e' a = ok p" using prefix_code.enc_total[OF assms(1)] assms(2) by simp
  show "v a \<Longrightarrow> v b \<Longrightarrow> e' a = ok p \<Longrightarrow> e' b = ok q \<Longrightarrow> p @ x = q @ y \<Longrightarrow> k a = k b \<and> x = y"
    using prefix_code.enc_cut[OF assms(1), of a b p q x y] assms(2)[of a] assms(2)[of b] by metis
  show "v a \<Longrightarrow> v b \<Longrightarrow> k a = k b \<Longrightarrow> e' a = e' b"
    using prefix_code.enc_key[OF assms(1), of a b] assms(2)[of a] assms(2)[of b] by metis
qed

text \<open>The optional values and the arrays.\<close>

definition text_option :: "string option \<Rightarrow> string option" where
  "text_option s = (if s = Some '''' then None else s)"

lemma code_optional_hash: "prefix_code encOptionalHash id (pred_option (hex_string 64))"
  unfolding encOptionalHash_def using prefix_code_option[OF code_hash] by (simp add: option.map_id0)

lemma code_optional_u32: "prefix_code encOptionalU32 id (pred_option (\<lambda>n. 0 \<le> n \<and> n < 2 ^ 32))"
  unfolding encOptionalU32_def using prefix_code_option[OF code_u32] by (simp add: option.map_id0)

lemma code_optional_seat: "prefix_code encOptionalSeat id (pred_option (\<lambda>n. 0 \<le> n \<and> n < 2 ^ 32))"
  unfolding encOptionalSeat_def using prefix_code_option[OF code_u32] by (simp add: option.map_id0)

lemma code_optional_string: "prefix_code encOptionalString text_option (pred_option short_text)"
proof -
  have h: "prefix_code (\<lambda>s. case text_option s of None \<Rightarrow> ok (encBool False)
      | Some b \<Rightarrow> concat_parts [ok (encBool True), ok (encString b)]) (\<lambda>s. map_option id (text_option s))
      (pred_option short_text)"
    by (rule prefix_code_comap[OF prefix_code_option[OF code_string]]) (simp add: text_option_def)
  show ?thesis
  proof (rule prefix_code_cong[OF h[unfolded option.map_id]])
    show "encOptionalString s = (case text_option s of None \<Rightarrow> ok (encBool False)
        | Some b \<Rightarrow> concat_parts [ok (encBool True), ok (encString b)])" for s
      by (simp add: encOptionalString_def text_option_def split: option.split)
  qed
qed

definition short_list :: "('a \<Rightarrow> bool) \<Rightarrow> 'a list \<Rightarrow> bool" where
  "short_list v xs \<longleftrightarrow> int (length xs) < 2 ^ 64 \<and> list_all v xs"

lemma code_list:
  "prefix_code e k v \<Longrightarrow>
     prefix_code (\<lambda>xs. concat_parts (ok (encVarint_state (int (length xs))) # map e xs)) (map k) (short_list v)"
  using prefix_code_list[of e k v] by (simp add: short_list_def[abs_def] list_all_iff)

lemma code_hashes: "prefix_code encArrayBytes32 id (short_list (hex_string 64))"
  unfolding encArrayBytes32_def using code_list[OF code_hash] by simp

lemma code_strings: "prefix_code encArrayString id (short_list short_text)"
  unfolding encArrayString_def using code_list[OF code_string] by simp

definition encEntry :: "string \<times> string \<Rightarrow> byte list result" where
  "encEntry e = concat_parts [ok (encString (fst e)), ok (encString (snd e))]"

lemma code_entry: "prefix_code encEntry id (\<lambda>e. short_text (fst e) \<and> short_text (snd e))"
proof (rule prefix_code_rekey)
  show "prefix_code encEntry (\<lambda>e. (id (fst e), id (snd e), ())) (\<lambda>e. short_text (fst e) \<and> short_text (snd e))"
    unfolding encEntry_def[abs_def]
    by (intro prefix_code_Cons prefix_code_Nil prefix_code_comap[OF code_string]) auto
qed auto

lemma encPreferences_eq:
  "encPreferences d = concat_parts (ok (encVarint_state (int (length (sorted_defaults d)))) # map encEntry (sorted_defaults d))"
proof -
  have "concat_parts (concat (map (\<lambda>k. [ok (encString k), ok (encString (case map_of d k of None \<Rightarrow> '''' | Some v \<Rightarrow> v))]) ks))
      = concat_parts (map encEntry (map (\<lambda>k. (k, the (map_of d k))) ks))" if "set ks \<subseteq> fst ` set d" for ks
    using that
  proof (induction ks)
    case (Cons k ks)
    then obtain v where "map_of d k = Some v" by (metis (no_types) insert_subset list.simps(15) map_of_eq_None_iff not_None_eq)
    then show ?case using Cons by (simp add: encEntry_def res_bind_assoc)
  qed simp
  from this[of "sort (map fst d)"] show ?thesis
    by (simp add: encPreferences_def sorted_defaults_def)
qed

definition short_preferences :: "(string \<times> string) list \<Rightarrow> bool" where
  "short_preferences d \<longleftrightarrow> short_list (\<lambda>e. short_text (fst e) \<and> short_text (snd e)) (sorted_defaults d)"

lemma code_preferences: "prefix_code encPreferences sorted_defaults short_preferences"
  unfolding encPreferences_eq[abs_def]
  using prefix_code_comap[OF code_list[OF code_entry], of short_preferences sorted_defaults]
  by (simp add: short_preferences_def)

lemmas code_fields = prefix_code_const prefix_code_comap[OF code_u8] prefix_code_comap[OF code_u32]
  prefix_code_comap[OF code_u64] prefix_code_comap[OF code_bool] prefix_code_comap[OF code_string]
  prefix_code_comap[OF code_hash] prefix_code_comap[OF code_optional_hash]
  prefix_code_comap[OF code_optional_u32] prefix_code_comap[OF code_optional_seat]
  prefix_code_comap[OF code_optional_string] prefix_code_comap[OF code_hashes]
  prefix_code_comap[OF code_strings] prefix_code_comap[OF code_preferences]

text \<open>The part of a player, a card and a state that reaches the hash.\<close>

definition hashed_player :: "player_state \<Rightarrow> player_state" where
  "hashed_player p = p\<lparr> value_signing_pubkey := tail64 (value_signing_pubkey p),
     stake_outpoint := text_option (stake_outpoint p),
     default_preferences := sorted_defaults (default_preferences p) \<rparr>"

definition hashable_player :: "player_state \<Rightarrow> bool" where
  "hashable_player p \<longleftrightarrow> 0 \<le> seat p \<and> seat p < 2 ^ 32 \<and> hex_string 64 (player_id p)
     \<and> hex_string 64 (tail64 (value_signing_pubkey p)) \<and> 0 \<le> stake_at_risk p \<and> stake_at_risk p < 2 ^ 64
     \<and> pred_option short_text (stake_outpoint p) \<and> pred_option (hex_string 64) (entropy_commitment_hash p)
     \<and> pred_option (hex_string 64) (entropy_value p) \<and> short_list short_text (concealed_card_refs p)
     \<and> short_preferences (default_preferences p)"

lemma short_status: "short_text (participation_status_name s)"
  by (cases s) (simp_all add: short_text_def utf8_def utf8_char_def)

definition player_key where
  "player_key p = ((), (), seat p, player_id p, tail64 (value_signing_pubkey p),
      participation_status_name (participation_status p), stake_at_risk p, text_option (stake_outpoint p),
      entropy_committed p, entropy_commitment_hash p, entropy_revealed p, entropy_value p,
      concealed_card_refs p, sorted_defaults (default_preferences p), ())"

lemma code_player: "prefix_code encPlayer hashed_player hashable_player"
proof (rule prefix_code_rekey)
  show "prefix_code encPlayer player_key hashable_player"
    unfolding encPlayer_def[abs_def] player_key_def[abs_def]
    by (intro prefix_code_Cons prefix_code_Nil code_fields[unfolded id_apply])
       (simp_all add: hashable_player_def short_status)
  show "(player_key a = player_key b) = (hashed_player a = hashed_player b)" for a b
    by (cases a; cases b) (auto simp: player_key_def hashed_player_def participation_status_name_inj)
qed

definition hashed_card :: "concealed_card \<Rightarrow> concealed_card" where
  "hashed_card c = c\<lparr> holder_pubkey := tail64 (holder_pubkey c),
     lifecycle_state := Variant_State (lifecycle_name (lifecycle_state c)) \<rparr>"

definition hashable_card :: "concealed_card \<Rightarrow> bool" where
  "hashable_card c \<longleftrightarrow> 0 \<le> position (commitment c) \<and> position (commitment c) < 2 ^ 32
     \<and> hex_string 64 (card_commitment (commitment c)) \<and> hex_string 64 (card_nonce (commitment c))
     \<and> short_text (ciphertext c) \<and> short_text (custody_outpoint c)
     \<and> hex_string 64 (tail64 (holder_pubkey c)) \<and> short_text (lifecycle_name (lifecycle_state c))"

definition card_key where
  "card_key c = ((), (), position (commitment c), card_commitment (commitment c), card_nonce (commitment c),
     ciphertext c, custody_outpoint c, tail64 (holder_pubkey c), lifecycle_name (lifecycle_state c), ())"

lemma code_card: "prefix_code encConcealedCard hashed_card hashable_card"
proof (rule prefix_code_rekey)
  show "prefix_code encConcealedCard card_key hashable_card"
    unfolding encConcealedCard_def[abs_def] card_key_def[abs_def]
    by (intro prefix_code_Cons prefix_code_Nil code_fields[unfolded id_apply]) (simp_all add: hashable_card_def)
  show "(card_key a = card_key b) = (hashed_card a = hashed_card b)" for a b
    by (cases a; cases b; cases "commitment a"; cases "commitment b") (auto simp: card_key_def hashed_card_def)
qed

definition bare_card :: "revealed_card \<Rightarrow> revealed_card" where
  "bare_card c = c\<lparr> rank := R2, suit := Clubs \<rparr>"

lemma code_visible: "prefix_code encVisibleCards (map bare_card) (short_list (\<lambda>c. 0 \<le> ordinal c \<and> ordinal c < 2 ^ 8))"
proof -
  have "prefix_code (\<lambda>c. ok (encU8 (ordinal c))) bare_card (\<lambda>c. 0 \<le> ordinal c \<and> ordinal c < 2 ^ 8)"
  proof (rule prefix_code_rekey[OF prefix_code_comap[OF code_u8]])
    fix a b :: revealed_card
    show "(id (ordinal a) = id (ordinal b)) = (bare_card a = bare_card b)"
      by (cases a; cases b) (auto simp: bare_card_def)
  qed
  from code_list[OF this] show ?thesis by (simp add: encVisibleCards_def[abs_def])
qed

lemma short_action: "short_text (action_type_name a)"
  by (cases a) (simp_all add: short_text_def utf8_def utf8_char_def)

lemma short_class: "short_text (state_class_name c)"
  by (cases c) (simp_all add: short_text_def utf8_def utf8_char_def)

lemma code_actions:
  "prefix_code (\<lambda>as. encArrayString (map action_type_name as)) id (\<lambda>as. int (length as) < 2 ^ 64)"
proof (rule prefix_code_rekey[OF prefix_code_comap[OF code_strings]])
  have "inj action_type_name" by (simp add: inj_def action_type_name_inj)
  then show "(id (map action_type_name a) = id (map action_type_name b)) = (id a = id b)" for a b
    by (simp add: inj_map_eq_map)
qed (simp add: short_list_def list_all_iff short_action)

lemma code_deck:
  "prefix_code encOptionalConcealedDeck (map_option (map hashed_card)) (pred_option (short_list hashable_card))"
proof -
  have "encOptionalConcealedDeck = (\<lambda>d. case d of None \<Rightarrow> ok (encBool False) | Some cs \<Rightarrow>
      concat_parts [ok (encBool True), concat_parts (ok (encVarint_state (int (length cs))) # map encConcealedCard cs)])"
    by (rule ext) (simp add: encOptionalConcealedDeck_def res_bind_assoc split: option.split)
  then show ?thesis using prefix_code_option[OF code_list[OF code_card]] by simp
qed

definition players_part :: "player_state list \<Rightarrow> byte list result" where
  "players_part ps = concat_parts (ok (encVarint_state (int (length ps))) # map encPlayer ps)"

lemma code_players: "prefix_code players_part (map hashed_player) (short_list hashable_player)"
  unfolding players_part_def[abs_def] by (rule code_list[OF code_player])

definition hashed_state :: "round_state \<Rightarrow> round_state" where
  "hashed_state s = s\<lparr> players := map hashed_player (players s),
     visible_cards := map bare_card (visible_cards s),
     concealed_deck := map_option (map hashed_card) (concealed_deck s),
     state_hash := '''' \<rparr>"

definition hashable :: "round_state \<Rightarrow> bool" where
  "hashable s \<longleftrightarrow> hex_string 64 (round_state.game_id s) \<and> hex_string 64 (round_state.rule_set_hash s)
     \<and> 0 \<le> round_state.round_number s \<and> round_state.round_number s < 2 ^ 32
     \<and> pred_option (\<lambda>n. 0 \<le> n \<and> n < 2 ^ 32) (acting_player_seat s)
     \<and> short_list hashable_player (players s)
     \<and> 0 \<le> pot_value s \<and> pot_value s < 2 ^ 64
     \<and> short_list (\<lambda>c. 0 \<le> ordinal c \<and> ordinal c < 2 ^ 8) (visible_cards s)
     \<and> short_list (hex_string 64) (hidden_commitment_refs s)
     \<and> int (length (allowed_actions s)) < 2 ^ 64
     \<and> pred_option (\<lambda>n. 0 \<le> n \<and> n < 2 ^ 32) (decision_deadline_block_height s)
     \<and> pred_option (\<lambda>n. 0 \<le> n \<and> n < 2 ^ 32) (recovery_deadline_block_height s)
     \<and> short_list (hex_string 64) (successor_template_hashes s)
     \<and> pred_option (hex_string 64) (combined_entropy s) \<and> pred_option (hex_string 64) (deck_commitment_hash s)
     \<and> pred_option (short_list hashable_card) (concealed_deck s)
     \<and> pred_option (hex_string 64) (prior_state_hash s)"

text \<open>With the players in their place the encoder is one \<open>concat\<close>.\<close>

definition state_parts :: "round_state \<Rightarrow> byte list result list" where
  "state_parts s = [ok (encU16LE TAG_ROUNDSTATE), ok (encU8 ROUNDSTATE_VERSION),
     ok (encString (state_class_name (state_class s))), encBytes32Hex (round_state.game_id s),
     encBytes32Hex (round_state.rule_set_hash s), ok (encU32LE_state (round_state.round_number s)),
     encOptionalSeat (acting_player_seat s), players_part (players s), ok (encU64LE_state (pot_value s)),
     encVisibleCards (visible_cards s), encArrayBytes32 (hidden_commitment_refs s),
     encArrayString (map action_type_name (allowed_actions s)),
     encOptionalU32 (decision_deadline_block_height s), encOptionalU32 (recovery_deadline_block_height s),
     encArrayBytes32 (successor_template_hashes s), encOptionalHash (combined_entropy s),
     encOptionalHash (deck_commitment_hash s), encOptionalConcealedDeck (concealed_deck s),
     encOptionalHash (prior_state_hash s), ok ZERO_32_state]"

lemmas code_parts = code_fields prefix_code_comap[OF code_visible] prefix_code_comap[OF code_actions]
  prefix_code_comap[OF code_deck] prefix_code_comap[OF code_players]

definition state_key where
  "state_key s = ((), (), state_class_name (state_class s), round_state.game_id s,
      round_state.rule_set_hash s, round_state.round_number s, acting_player_seat s,
      map hashed_player (players s), pot_value s, map bare_card (visible_cards s),
      hidden_commitment_refs s, allowed_actions s, decision_deadline_block_height s,
      recovery_deadline_block_height s, successor_template_hashes s, combined_entropy s,
      deck_commitment_hash s, map_option (map hashed_card) (concealed_deck s), prior_state_hash s, (), ())"

lemma code_state_parts: "prefix_code (\<lambda>s. concat_parts (state_parts s)) state_key hashable"
  unfolding state_parts_def[abs_def] state_key_def[abs_def]
  by (intro prefix_code_Cons prefix_code_Nil code_parts[unfolded id_apply])
     (simp_all add: hashable_def short_class)

lemma encodeRoundState_parts:
  assumes "short_list hashable_player (players s)"
  shows "encodeRoundState s = concat_parts (state_parts s)"
proof -
  obtain p where p: "players_part (players s) = ok p"
    using prefix_code.enc_total[OF code_players assms] by blast
  show ?thesis
    unfolding encodeRoundState_def players_part_def[symmetric] state_parts_def p res_bind_Inr ..
qed

lemma state_key_iff: "state_key a = state_key b \<longleftrightarrow> hashed_state a = hashed_state b"
  by (cases a; cases b) (auto simp: state_key_def hashed_state_def state_class_name_inj)

interpretation state_code: prefix_code encodeRoundState hashed_state hashable
  by (rule prefix_code_cong[OF prefix_code_rekey[OF code_state_parts state_key_iff]])
     (simp add: encodeRoundState_parts hashable_def)

lemma toHex_inj: "toHex a = toHex b \<longleftrightarrow> a = b"
  using fromHex_toHex by (metis sum.inject(2))

lemma computeStateHash_ok:
  assumes "\<And>p. length (sha p) = 32" and "encodeRoundState s = ok p"
  shows "computeStateHash sha s = ok (toHex (sha p))"
  using hex_string_toHex[of "sha p"] assms by (simp add: computeStateHash_def asHash256_def)

text \<open>C31. A state hash commits to the state: two states whose fields are in range have the same hash, when
  the digest does not collide on their encodings, exactly if they agree on everything but the embedded
  \<open>state_hash\<close>, the rank and suit of the visible cards (only the ordinal is hashed), the parity prefix of
  public keys, the order of preferences and the difference between an empty and an absent stake outpoint.\<close>
theorem state_hash_commits:
  assumes "\<And>p. length (sha p) = 32" and "hashable s" and "hashable t"
    and "inj_on sha {projr (encodeRoundState s), projr (encodeRoundState t)}"
  shows "(\<exists>h. computeStateHash sha s = ok h)
    \<and> (computeStateHash sha s = computeStateHash sha t \<longleftrightarrow> hashed_state s = hashed_state t)"
proof -
  obtain p q where pq: "encodeRoundState s = ok p" "encodeRoundState t = ok q"
    using state_code.enc_total assms(2,3) by blast
  have "sha p = sha q \<longleftrightarrow> p = q" using assms(4) pq by (auto simp: inj_on_def)
  also have "p = q \<longleftrightarrow> hashed_state s = hashed_state t"
    using state_code.same_bytes_iff[OF assms(2,3)] pq by simp
  finally show ?thesis
    using computeStateHash_ok[of sha, OF assms(1) pq(1)] computeStateHash_ok[of sha, OF assms(1) pq(2)]
    by (simp add: toHex_inj)
qed

definition state_digest :: "byte list \<Rightarrow> byte list" where
  "state_digest p = take 32 (p @ replicate 32 0)"

definition sample_player :: player_state where
  "sample_player = \<lparr> seat = 0, player_id = replicate 64 CHR ''1'',
     value_signing_pubkey = ''02'' @ replicate 64 CHR ''1'', participation_status = Joined,
     stake_at_risk = 1000, stake_outpoint = None, entropy_committed = False,
     entropy_commitment_hash = None, entropy_revealed = False, entropy_value = None,
     concealed_card_refs = [''tx:0''], default_preferences = [(''b'', ''x''), (''a'', ''y'')] \<rparr>"

definition sample_state :: "state_class \<Rightarrow> hash256 \<Rightarrow> round_state" where
  "sample_state c h = \<lparr> state_class = c, game_id = replicate 64 CHR ''a'',
     rule_set_hash = replicate 64 CHR ''b'', round_number = 0, acting_player_seat = Some 0,
     players = [sample_player], pot_value = 7,
     visible_cards = [\<lparr> rank = R3, suit = Clubs, ordinal = 1 \<rparr>], hidden_commitment_refs = [],
     allowed_actions = [Join, TableLock], decision_deadline_block_height = None,
     recovery_deadline_block_height = Some 500, successor_template_hashes = [], combined_entropy = None,
     deck_commitment_hash = None, concealed_deck = None, prior_state_hash = None, state_hash = h \<rparr>"

lemma sample_hashable: "hashable (sample_state c h)"
proof -
  have "hex_string 64 (player_id sample_player)" "hex_string 64 (tail64 (value_signing_pubkey sample_player))"
    "list_all short_text (concealed_card_refs sample_player)"
    "short_preferences (default_preferences sample_player)" by code_simp+
  then have "hashable_player sample_player"
    unfolding hashable_player_def by (simp add: sample_player_def short_list_def)
  then have "short_list hashable_player (players (sample_state c h))" by (simp add: sample_state_def short_list_def)
  then show ?thesis
    unfolding hashable_def
    by (simp add: sample_state_def short_list_def hex_string_replicate)
qed

lemma state_hash_commits_witness:
  "computeStateHash state_digest (sample_state S1_SEAT_OPEN ''00'')
     \<noteq> computeStateHash state_digest (sample_state S6_CARD_REVEAL_FIRST ''00'')"
proof -
  have i: "inj_on state_digest {projr (encodeRoundState (sample_state S1_SEAT_OPEN ''00'')),
      projr (encodeRoundState (sample_state S6_CARD_REVEAL_FIRST ''00''))}"
  proof -
    have "state_digest (projr (encodeRoundState (sample_state S1_SEAT_OPEN ''00'')))
      \<noteq> state_digest (projr (encodeRoundState (sample_state S6_CARD_REVEAL_FIRST ''00'')))" by code_simp
    then show ?thesis by (auto simp: inj_on_def)
  qed
  have "length (state_digest p) = 32" for p by (simp add: state_digest_def)
  note h = state_hash_commits[of state_digest, OF this sample_hashable sample_hashable i]
  have "hashed_state (sample_state S1_SEAT_OPEN ''00'') \<noteq> hashed_state (sample_state S6_CARD_REVEAL_FIRST ''00'')"
    by (simp add: hashed_state_def sample_state_def)
  then show ?thesis using h by blast
qed

end
