(* ===== verification/Transcript_Tools.thy ===== *)
theory Transcript_Tools
  imports Verify Signing State_Hash
begin

text \<open>
  The two transcript tools. \<open>tools/transcript-verifier\<close> feeds a recorded session through the gate and
  prints a summary of the final state with its state hash; \<open>tools/transcript-recorder\<close> drives one full
  round and writes the actions it submitted. A transcript is the list of its actions: reading and parsing
  the file, the relay at the other end of the recorder and what is printed are outside the model. Exit
  codes are values: a rejection names the offending index, \<open>Fatal\<close> is the handler of an uncaught error.
\<close>

section \<open>The verifier\<close>

definition defaultRuleSet :: rule_set where
  "defaultRuleSet = \<lparr>
     game_type = In_between, player_count_min = 2, player_count_max = 4, stake_amount = 1000,
     min_bet = 1, max_bet = 100, decision_timeout_blocks = 6, recovery_timeout_blocks = 144,
     invitation_window_blocks = 18, default_action_by_state = [(''S8_BET_DECISION'', ''pass'')],
     penalty_schedule = \<lparr> non_reveal = 100, bad_reveal = 200, consecutive_cards = 50, equal_cards = 100 \<rparr>,
     deck_format = 52, shuffle_algorithm_version = 1,
     settlement_rules = \<lparr> in_between_win_multiplier = 1, in_between_loss_multiplier = 1,
       consecutive_cards_penalty = 50, equal_cards_penalty = 100 \<rparr>,
     recovery_rules = \<lparr> refund_stakes_to_funders = True, apply_non_reveal_penalty = True,
       apply_bad_reveal_penalty = True \<rparr>,
     serialisation_version = 1 \<rparr>"

record verifier_summary =
  final_state_class :: state_class
  final_round_number :: round_number
  final_pot_value :: satoshis
  final_player_count :: nat
  final_combined_entropy :: "hash256 option"
  final_deck_commitment :: "hash256 option"
  final_state_hash :: hash256
  transcript_actions_count :: nat

datatype verifier_outcome =
    Rejected_At nat action_type error_code
  | Fatal
  | Reported verifier_summary

text \<open>The loop over the actions, from index \<open>i\<close>; \<^const>\<open>Inl\<close> is an exit of the process.\<close>

fun verifier_loop ::
  "(byte list \<Rightarrow> byte list) \<Rightarrow> rule_set \<Rightarrow> round_state \<Rightarrow> nat \<Rightarrow> signed_action list
     \<Rightarrow> (verifier_outcome + round_state) option"
where
  "verifier_loop sha rs s i [] = Some (Inr s)"
| "verifier_loop sha rs s i (a # as) =
     (case verifyAndApply sha s a rs 100 of
        None \<Rightarrow> None
      | Some (Inl (Rejected c)) \<Rightarrow> Some (Inl (Rejected_At i (act_type a) c))
      | Some (Inl (Thrown f)) \<Rightarrow> Some (Inl Fatal)
      | Some (Inr t) \<Rightarrow> verifier_loop sha rs t (Suc i) as)"

definition verifier_main ::
  "(byte list \<Rightarrow> byte list) \<Rightarrow> string \<Rightarrow> string \<Rightarrow> int \<Rightarrow> signed_action list \<Rightarrow> verifier_outcome option"
where
  "verifier_main sha gameId rshText recoveryHeight actions =
     (case (asGameId gameId, asRuleSetHash rshText, asBlockHeight recoveryHeight) of
        (Inr gid, Inr rsh, Inr rh) \<Rightarrow>
          (case verifier_loop sha defaultRuleSet (initialState gid rsh rh) 0 actions of
             None \<Rightarrow> None
           | Some (Inl out) \<Rightarrow> Some out
           | Some (Inr s) \<Rightarrow>
               (case computeStateHash sha s of
                  Inl _ \<Rightarrow> Some Fatal
                | Inr hash \<Rightarrow> Some (Reported \<lparr>
                    final_state_class = state_class s,
                    final_round_number = round_number s,
                    final_pot_value = pot_value s,
                    final_player_count = length (players s),
                    final_combined_entropy = combined_entropy s,
                    final_deck_commitment = deck_commitment_hash s,
                    final_state_hash = hash,
                    transcript_actions_count = length actions \<rparr>)))
      | _ \<Rightarrow> Some Fatal)"

section \<open>The recorder\<close>

definition PLAYER_IDS :: "string list" where
  "PLAYER_IDS = [concat (replicate 32 ''01''), concat (replicate 32 ''03'')]"

definition PUBKEYS :: "string list" where
  "PUBKEYS = map (\<lambda>p. ''02'' @ p) PLAYER_IDS"

definition ENTROPIES :: "string list" where
  "ENTROPIES = [concat (replicate 32 ''02''), concat (replicate 32 ''04'')]"

text \<open>\<open>n.toString(16).padStart(64, '0')\<close> for the value \<open>n\<close> of the counter.\<close>

definition nonce_text :: "nat \<Rightarrow> action_nonce" where
  "nonce_text n = (let h = nat_hex n in replicate (64 - length h) CHR ''0'' @ h)"

definition recorder_base :: "string \<Rightarrow> nat \<Rightarrow> seat option \<Rightarrow> action_payload \<Rightarrow> signed_action" where
  "recorder_base gid n st p = \<lparr>
     act_game_id = gid, act_round_number = 0, referenced_state_hash = replicate 64 CHR ''0'',
     action_nonce = nonce_text n, act_seat = st, authorising_signature = ''sig'',
     successor_state_commitment = replicate 64 CHR ''0'', payload = p \<rparr>"

definition recorder_reveal :: "deck_card \<Rightarrow> reveal_proof" where
  "recorder_reveal p = \<lparr> proof_position = int (dc_position p),
     proof_card = \<lparr> rank = R2, suit = Clubs, ordinal = dc_ordinal p \<rparr>,
     proof_card_nonce = toHex (dc_cardNonce p), proof_deck_nonce = toHex (dc_deckNonce p) \<rparr>"

text \<open>The actions submitted, in order; the nonce counter starts at 1.\<close>

definition recorder_actions :: "string \<Rightarrow> string list \<Rightarrow> deck_commitment \<Rightarrow> signed_action list" where
  "recorder_actions gid commitments dc =
     map (\<lambda>(n, st, p). recorder_base gid (Suc n) st p) (enumerate 0 (
       [(Some 0, Join_Payload (PUBKEYS ! 0) 1000),
        (Some 1, Join_Payload (PUBKEYS ! 1) 1000),
        (None, TableLock_Payload)]
       @ map (\<lambda>i. (Some (int i), EntropyCommit_Payload (commitments ! i))) [0, 1]
       @ map (\<lambda>i. (Some (int i), EntropyReveal_Payload (ENTROPIES ! i))) [0, 1]
       @ map (\<lambda>pos. (None, CardReveal_Payload (recorder_reveal (perPosition dc ! pos)))) [0, 1]
       @ [(Some 0, Bet_Payload 10),
          (None, CardReveal_Payload (recorder_reveal (perPosition dc ! 2))),
          (Some 0, Settle_Payload)]))"

definition recorder_commitments :: "(byte list \<Rightarrow> byte list) \<Rightarrow> byte list \<Rightarrow> string list result" where
  "recorder_commitments sha gameIdBytes =
     map_res (\<lambda>(i, e). res_bind (fromHex e) (\<lambda>eb. res_bind (fromHex (PLAYER_IDS ! i)) (\<lambda>pb.
       res_bind (commitEntropy sha eb pb gameIdBytes) (\<lambda>c. ok (toHex c))))) (enumerate 0 ENTROPIES)"

definition recorder_transcript :: "(byte list \<Rightarrow> byte list) \<Rightarrow> string \<Rightarrow> signed_action list result option" where
  "recorder_transcript sha gameId =
     pres_bind (Some (fromHex gameId)) (\<lambda>gameIdBytes.
     pres_bind (Some (recorder_commitments sha gameIdBytes)) (\<lambda>commitments.
     pres_bind (Some (res_bind (map_res fromHex ENTROPIES) (combineEntropy sha))) (\<lambda>combined.
     pres_bind (buildDeckCommitment sha combined 52 1) (\<lambda>dc.
       Some (ok (recorder_actions gameId commitments dc))))))"

section \<open>Engine states have no state hash\<close>

text \<open>The engine stores the 33-byte key of a joining player as the \<open>player_id\<close>, which the encoder of
  \<open>serialise.ts\<close> requires to be 32 bytes of hex.\<close>

definition long_id :: "player_state \<Rightarrow> bool" where
  "long_id p \<longleftrightarrow> length (player_id p) = 66"

lemma encPlayer_long: "long_id p \<Longrightarrow> encPlayer p = throw ''encBytes32Hex''"
  by (simp add: encPlayer_def encBytes32Hex_def long_id_def)

lemma no_hash_with_long_ids:
  assumes "players s \<noteq> []" and "list_all long_id (players s)"
  shows "computeStateHash sha s = throw ''encBytes32Hex''"
proof -
  obtain p ps where p: "players s = p # ps" using assms(1) by (cases "players s") auto
  then have "encPlayer p = throw ''encBytes32Hex''" using assms(2) by (intro encPlayer_long) simp
  then show ?thesis by (simp add: computeStateHash_def encodeRoundState_def p)
qed

lemma compressed_length: "compressed_pubkey_hex pk \<Longrightarrow> length pk = 66"
  by (auto simp: compressed_pubkey_hex_def hex_string_def)

text \<open>The keys an action seats, which become player ids and stay where they are.\<close>

definition join_keys :: "signed_action \<Rightarrow> string list" where
  "join_keys a = (case payload a of Join_Payload pk stake \<Rightarrow> [pk] | _ \<Rightarrow> [])"

lemma join_keys_other: "act_type a \<noteq> Join \<Longrightarrow> join_keys a = []"
  by (cases "payload a") (simp_all add: join_keys_def)

lemma join_keys_length: "length (join_keys a) = (if act_type a = Join then 1 else 0)"
  by (cases "payload a") (simp_all add: join_keys_def)

lemma map_update_same: "i < length xs \<Longrightarrow> f y = f (xs ! i) \<Longrightarrow> map f (xs[i := y]) = map f xs"
  by (metis list_update_id map_update)

lemma player_ids_step:
  assumes "estep rs h s a t"
  shows "map player_id (players t) = map player_id (players s) @ join_keys a"
  using assms
  by (cases rule: estep.cases)
     (auto simp: join_keys_def joined_player_def credit_def map_update_same dest: find_index_SomeD)

lemma concat_parts_ok: "concat_parts parts = ok bs \<Longrightarrow> q \<in> set parts \<Longrightarrow> \<exists>y. q = ok y"
  unfolding concat_parts_def res_bind_eq_Inr by (metis id_apply map_res_ok_iff)

lemma hashed_ids:
  assumes "computeStateHash sha s = ok hash"
  shows "list_all (\<lambda>k. length k = 64) (map player_id (players s))"
proof -
  obtain ps where "concat_parts (ok (encVarint_state (int (length (players s)))) # map encPlayer (players s)) = ok ps"
    using assms by (auto simp: computeStateHash_def encodeRoundState_def res_bind_eq_Inr)
  then have "\<exists>bs. encPlayer p = ok bs" if "p \<in> set (players s)" for p
    using concat_parts_ok that by (metis image_eqI list.set_intros(2) set_map)
  then have "\<exists>bs. encBytes32Hex (player_id p) = ok bs" if p: "p \<in> set (players s)" for p
    unfolding encPlayer_def using p by (meson concat_parts_ok list.set_intros)
  then show ?thesis by (fastforce simp: list_all_iff encBytes32Hex_def split: if_splits)
qed

text \<open>What a verified transcript does to an empty table: either nobody joins, and the only action that is
  ever accepted is \<open>Recovery\<close>, or somebody is seated from then on.\<close>

definition empty_table :: "round_state \<Rightarrow> bool" where
  "empty_table s \<longleftrightarrow> players s = [] \<and> state_class s \<in> {S1_SEAT_OPEN, RECOVERED}"

lemma empty_table_step:
  assumes "estep rs h s a t" and "empty_table s" and "0 < player_count_min rs"
  shows "players t \<noteq> [] \<or> empty_table t \<and> act_type a = Recovery"
  using assms by (cases rule: estep.cases) (auto simp: empty_table_def)

lemma verifier_loop_exit: "verifier_loop sha rs s i as = Some (Inl out) \<Longrightarrow> out \<noteq> Reported m"
  by (induction as arbitrary: s i) (auto split: option.splits sum.splits failure.splits)

lemma verifier_loop_step:
  assumes "verifier_loop sha rs s i (a # as) = Some (Inr t)"
  obtains u v where "estep rs 100 s a v" and "forget_deck u = forget_deck v"
    and "verifier_loop sha rs u (Suc i) as = Some (Inr t)"
proof -
  from assms obtain u where u: "verifyAndApply sha s a rs 100 = Some (ok u)"
    "verifier_loop sha rs u (Suc i) as = Some (Inr t)"
    by (auto split: option.splits sum.splits failure.splits)
  from u(1) obtain v where "applyAction s a rs 100 = ok v" "forget_deck u = forget_deck v"
    by (rule verifyAndApply_ok)
  then show thesis using u(2) that by (simp add: applyAction_iff_estep)
qed

lemma verifier_loop_ids:
  assumes "verifier_loop sha rs s i as = Some (Inr t)"
  shows "map player_id (players t) = map player_id (players s) @ concat (map join_keys as)"
  using assms
proof (induction as arbitrary: s i)
  case (Cons a as)
  from Cons.prems obtain u v where e: "estep rs 100 s a v" and uv: "forget_deck u = forget_deck v"
    and r: "verifier_loop sha rs u (Suc i) as = Some (Inr t)" by (rule verifier_loop_step)
  show ?case using Cons.IH[OF r] player_ids_step[OF e] forget_deck_eqD[OF uv] by simp
qed simp

lemma verifier_loop_empty:
  assumes "verifier_loop sha rs s i as = Some (Inr t)" and "list_all (\<lambda>a. act_type a \<noteq> Join) as"
    and "empty_table s" and "0 < player_count_min rs"
  shows "list_all (\<lambda>a. act_type a = Recovery) as"
  using assms
proof (induction as arbitrary: s i)
  case (Cons a as)
  from Cons.prems(1) obtain u v where e: "estep rs 100 s a v" and uv: "forget_deck u = forget_deck v"
    and r: "verifier_loop sha rs u (Suc i) as = Some (Inr t)" by (rule verifier_loop_step)
  have uv': "players u = players v" "state_class u = state_class v" using forget_deck_eqD[OF uv] by simp_all
  have "map player_id (players v) = []"
    using player_ids_step[OF e] Cons.prems(2,3) by (simp add: empty_table_def join_keys_other)
  then have "empty_table v" "act_type a = Recovery"
    using empty_table_step[OF e Cons.prems(3,4)] by auto
  then show ?case using Cons.IH[OF r] Cons.prems uv' by (simp add: empty_table_def)
qed simp

text \<open>C32. The transcript verifier cannot report on a session whose players have real keys. If it prints a
  summary, then every \<open>Join\<close> of the transcript carries a key of exactly 64 characters, so none a 33-byte
  compressed key; the summary counts the joins; and a transcript without joins that it reports on holds
  nothing but \<open>Recovery\<close> actions. Every other transcript that passes the gate ends in an uncaught error,
  because the state hash takes the key that the engine stored as the player's id for 32 bytes.\<close>
theorem verifier_reports_no_keyed_player:
  assumes "verifier_main sha gid rsh dl actions = Some (Reported m)"
  shows "list_all (\<lambda>a. case payload a of
        Join_Payload pk stake \<Rightarrow> length pk = 64 \<and> \<not> compressed_pubkey_hex pk | _ \<Rightarrow> True) actions
    \<and> final_player_count m = length (filter (\<lambda>a. act_type a = Join) actions)
    \<and> (list_ex (\<lambda>a. act_type a = Join) actions \<or> list_all (\<lambda>a. act_type a = Recovery) actions)"
proof -
  from assms obtain s hash where s: "verifier_loop sha defaultRuleSet (initialState gid rsh dl) 0 actions = Some (Inr s)"
    "computeStateHash sha s = ok hash" "final_player_count m = length (players s)"
    by (auto simp: verifier_main_def asGameId_def asRuleSetHash_def asBlockHeight_def
        dest: verifier_loop_exit split: sum.splits option.splits if_splits)
  have start: "players (initialState gid rsh dl) = []" "empty_table (initialState gid rsh dl)"
    by (simp_all add: initialState_def empty_table_def)
  have ids: "map player_id (players s) = concat (map join_keys actions)"
    using verifier_loop_ids[OF s(1)] start by simp
  have "length (concat (map join_keys actions)) = length (filter (\<lambda>a. act_type a = Join) actions)"
    by (induction actions) (simp_all add: join_keys_length)
  then have "final_player_count m = length (filter (\<lambda>a. act_type a = Join) actions)"
    using s(3) arg_cong[OF ids, of length] by simp
  moreover have "\<forall>k \<in> set (concat (map join_keys actions)). length k = 64"
    using hashed_ids[OF s(2)] unfolding ids by (simp add: list_all_iff)
  then have "list_all (\<lambda>a. case payload a of
        Join_Payload pk stake \<Rightarrow> length pk = 64 \<and> \<not> compressed_pubkey_hex pk | _ \<Rightarrow> True) actions"
    by (fastforce simp: list_all_iff join_keys_def dest: compressed_length split: action_payload.splits)
  moreover have "list_all (\<lambda>a. act_type a = Recovery) actions" if "\<not> list_ex (\<lambda>a. act_type a = Join) actions"
    by (rule verifier_loop_empty[OF s(1) _ start(2)])
       (use that in \<open>simp_all add: defaultRuleSet_def list_all_iff list_ex_iff\<close>)
  ultimately show ?thesis by blast
qed

text \<open>Transcripts are unchecked JSON, and nothing checks a joining key: one of 64 hex digits is seated, and the
  verifier reports on the table.\<close>

definition short_key_join :: signed_action where
  "short_key_join = recorder_base (replicate 64 CHR ''a'') 1 (Some 0) (Join_Payload (replicate 64 CHR ''0'') 1000)"

lemma verifier_reports_no_keyed_player_witness:
  "\<exists>m. verifier_main state_digest (replicate 64 CHR ''a'') (replicate 64 CHR ''b'') 50 [short_key_join] = Some (Reported m)
     \<and> final_player_count m = 1"
proof -
  have "(case verifier_main state_digest (replicate 64 CHR ''a'') (replicate 64 CHR ''b'') 50 [short_key_join] of
      Some (Reported m) \<Rightarrow> True | _ \<Rightarrow> False)" by code_simp
  then obtain m where m: "verifier_main state_digest (replicate 64 CHR ''a'') (replicate 64 CHR ''b'') 50 [short_key_join]
      = Some (Reported m)" by (auto split: option.splits verifier_outcome.splits)
  have "act_type short_key_join = Join" by (simp add: short_key_join_def recorder_base_def)
  with verifier_reports_no_keyed_player[OF m] m show ?thesis by simp
qed

section \<open>The recorded session passes the gate\<close>

lemma gate_pass:
  assumes "verify_checks sha s a rs = Some (ok ())" and "applyAction s a rs h = ok t"
    and "\<not> (state_class s = S4_ENTROPY_REVEAL_WINDOW \<and> state_class t = S5_DECK_COMMITTED)"
  shows "verifyAndApply sha s a rs h = Some (ok t)"
  using assms by (auto simp: verifyAndApply_def)

text \<open>The states of the recorded session: class, players, visible cards, acting seat, pot and the two
  deck fields vary.\<close>

definition rec_state where
  "rec_state gid rsh c ps vis act pot ce dh = \<lparr> state_class = c, game_id = gid, rule_set_hash = rsh,
     round_number = 0, acting_player_seat = act, players = ps, pot_value = pot, visible_cards = vis,
     hidden_commitment_refs = [], allowed_actions = getLegalActions c,
     decision_deadline_block_height = None, recovery_deadline_block_height = Some 244,
     successor_template_hashes = [], combined_entropy = ce, deck_commitment_hash = dh,
     concealed_deck = None, prior_state_hash = Some ZERO_HASH, state_hash = ZERO_HASH \<rparr>"

lemma rec_state_simps [simp]:
  "state_class (rec_state gid rsh c ps vis act pot ce dh) = c"
  "round_state.game_id (rec_state gid rsh c ps vis act pot ce dh) = gid"
  "players (rec_state gid rsh c ps vis act pot ce dh) = ps"
  "visible_cards (rec_state gid rsh c ps vis act pot ce dh) = vis"
  "acting_player_seat (rec_state gid rsh c ps vis act pot ce dh) = act"
  "pot_value (rec_state gid rsh c ps vis act pot ce dh) = pot"
  "combined_entropy (rec_state gid rsh c ps vis act pot ce dh) = ce"
  "deck_commitment_hash (rec_state gid rsh c ps vis act pot ce dh) = dh"
  by (simp_all add: rec_state_def)

text \<open>A seated player of the session after committing and after revealing.\<close>

definition rec_player :: "seat \<Rightarrow> string \<Rightarrow> hash256 option \<Rightarrow> hash256 option \<Rightarrow> player_state" where
  "rec_player st pk c e = (joined_player st pk 1000)\<lparr>
     participation_status := (if e = None then Joined else Active),
     entropy_committed := (c \<noteq> None), entropy_commitment_hash := c,
     entropy_revealed := (e \<noteq> None), entropy_value := e \<rparr>"

abbreviation pk0 where "pk0 \<equiv> PUBKEYS ! 0"
abbreviation pk1 where "pk1 \<equiv> PUBKEYS ! 1"

lemma recorded_joins:
  fixes gid rsh
  defines "S \<equiv> rec_state gid rsh S1_SEAT_OPEN"
  shows "applyAction (initialState gid rsh 244) (recorder_base gid n (Some 0) (Join_Payload pk0 1000)) defaultRuleSet 100
      = ok (S [rec_player 0 pk0 None None] [] None 0 None None)"
    and "applyAction (S [rec_player 0 pk0 None None] [] None 0 None None)
        (recorder_base gid n (Some 1) (Join_Payload pk1 1000)) defaultRuleSet 100
      = ok (S [rec_player 0 pk0 None None, rec_player 1 pk1 None None] [] None 0 None None)"
    and "applyAction (S [rec_player 0 pk0 None None, rec_player 1 pk1 None None] [] None 0 None None)
        (recorder_base gid n None TableLock_Payload) defaultRuleSet 100
      = ok (rec_state gid rsh S3_ENTROPY_COMMIT_WINDOW [rec_player 0 pk0 None None, rec_player 1 pk1 None None] [] None 0 None None)"
  unfolding S_def
  by (simp_all add: applyAction_def recorder_base_def initialState_def rec_state_def applyJoin_def applyTableLock_def
      defaultRuleSet_def rec_player_def joined_player_def asSeat_eq safe_nat_def MAX_SAFE_INTEGER_def)

lemma recorded_commits:
  fixes gid rsh
  defines "S \<equiv> \<lambda>c ps. rec_state gid rsh c ps [] None 0 None None"
  shows "applyAction (S S3_ENTROPY_COMMIT_WINDOW [rec_player 0 pk0 None None, rec_player 1 pk1 None None])
        (recorder_base gid n (Some 0) (EntropyCommit_Payload c)) defaultRuleSet 100
      = ok (S S3_ENTROPY_COMMIT_WINDOW [rec_player 0 pk0 (Some c) None, rec_player 1 pk1 None None])"
    and "applyAction (S S3_ENTROPY_COMMIT_WINDOW [rec_player 0 pk0 (Some c) None, rec_player 1 pk1 None None])
        (recorder_base gid n (Some 1) (EntropyCommit_Payload d)) defaultRuleSet 100
      = ok (S S4_ENTROPY_REVEAL_WINDOW [rec_player 0 pk0 (Some c) None, rec_player 1 pk1 (Some d) None])"
    and "applyAction (S S4_ENTROPY_REVEAL_WINDOW [rec_player 0 pk0 (Some c) None, rec_player 1 pk1 (Some d) None])
        (recorder_base gid n (Some 0) (EntropyReveal_Payload e)) defaultRuleSet 100
      = ok (S S4_ENTROPY_REVEAL_WINDOW [rec_player 0 pk0 (Some c) (Some e), rec_player 1 pk1 (Some d) None])"
    and "applyAction (S S4_ENTROPY_REVEAL_WINDOW [rec_player 0 pk0 (Some c) (Some e), rec_player 1 pk1 (Some d) None])
        (recorder_base gid n (Some 1) (EntropyReveal_Payload f)) defaultRuleSet 100
      = ok (S S5_DECK_COMMITTED [rec_player 0 pk0 (Some c) (Some e), rec_player 1 pk1 (Some d) (Some f)])"
  unfolding S_def
  by (simp_all add: applyAction_def recorder_base_def rec_state_def applyEntropyCommit_def applyEntropyReveal_def
      rec_player_def joined_player_def Let_def splice_at_def)

lemma recorded_play:
  fixes gid rsh ce dh
  defines "S \<equiv> \<lambda>c ps vis act pot. rec_state gid rsh c ps vis act pot ce dh"
  assumes "ps = [rec_player 0 pk0 c0 e0, rec_player 1 pk1 c1 e1]"
  shows "applyAction (S S5_DECK_COMMITTED ps [] None 0) (recorder_base gid n None (CardReveal_Payload r)) defaultRuleSet 100
      = ok (S S6_CARD_REVEAL_FIRST ps [proof_card r] None 0)"
    and "applyAction (S S6_CARD_REVEAL_FIRST ps [c] None 0) (recorder_base gid n None (CardReveal_Payload r)) defaultRuleSet 100
      = ok (S S8_BET_DECISION ps [c, proof_card r] (Some 0) 0)"
    and "applyAction (S S8_BET_DECISION ps vis (Some 0) 0) (recorder_base gid n (Some 0) (Bet_Payload 10)) defaultRuleSet 100
      = ok (S S9_CARD_REVEAL_THIRD ps vis (Some 0) 10)"
    and "applyAction (S S9_CARD_REVEAL_THIRD ps [c, d] (Some 0) 10) (recorder_base gid n None (CardReveal_Payload r)) defaultRuleSet 100
      = ok (S S10_SETTLED_ROUND ps [c, d, proof_card r] (Some 0) 10)"
  unfolding S_def assms(2)
  by (simp_all add: applyAction_def recorder_base_def rec_state_def applyCardReveal_def applyBet_def
      rec_player_def joined_player_def Let_def defaultRuleSet_def addToPot_def asSatoshis_eq safe_nat_def
      isSafeInteger_def MAX_SAFE_INTEGER_def)

text \<open>The checks of the gate on the recorded actions.\<close>

definition E0 :: "byte list" where "E0 = replicate 32 2"
definition E1 :: "byte list" where "E1 = replicate 32 4"
definition P0 :: "byte list" where "P0 = replicate 32 1"
definition P1 :: "byte list" where "P1 = replicate 32 3"

lemma recorder_hex:
  "fromHex (ENTROPIES ! 0) = ok E0" "fromHex (ENTROPIES ! 1) = ok E1"
  "fromHex (PLAYER_IDS ! 0) = ok P0" "fromHex (PLAYER_IDS ! 1) = ok P1"
  "fromHex pk0 = ok (2 # P0)" "fromHex pk1 = ok (2 # P1)"
  "hex_string 64 (ENTROPIES ! 0)" "hex_string 64 (ENTROPIES ! 1)"
  by code_simp+

lemma recorder_lengths: "length E0 = 32" "length E1 = 32" "length P0 = 32" "length P1 = 32"
  by (simp_all add: E0_def E1_def P0_def P1_def)

lemma commit_check:
  "length b = 32 \<Longrightarrow> verify_checks sha s (recorder_base gid n st (EntropyCommit_Payload (toHex b))) rs = Some (ok ())"
  using hex_string_toHex[of b] by (simp add: verify_checks_def recorder_base_def check_entropy_commit_def)

lemma reveal_check:
  assumes sha: "\<And>x. length (sha x) = 32" and g: "fromHex gid = ok g" "length g = 32"
    and p: "find (\<lambda>p. seat p = st) (players s) = Some p" "round_state.game_id s = gid"
    and c: "entropy_commitment_hash p = Some (toHex (sha (entropy_preimage e pid g)))"
    and k: "fromHex (value_signing_pubkey p) = ok (2 # pid)" "length pid = 32"
    and e: "fromHex en = ok e" "length e = 32" "hex_string 64 en"
  shows "verify_checks sha s (recorder_base gid n (Some st) (EntropyReveal_Payload en)) rs = Some (ok ())"
  by (simp add: verify_checks_def recorder_base_def check_entropy_reveal_def p c e k g player_id_bytes_def
      commitEntropy_eq constantTimeEquals_iff)

lemma recorder_commitments_ok:
  assumes "length g = 32"
  shows "recorder_commitments sha g
      = ok [toHex (sha (entropy_preimage E0 P0 g)), toHex (sha (entropy_preimage E1 P1 g))]"
proof -
  have "enumerate 0 ENTROPIES = [(0, ENTROPIES ! 0), (1, ENTROPIES ! 1)]" by (simp add: ENTROPIES_def)
  then show ?thesis
    by (simp add: recorder_commitments_def recorder_hex[unfolded One_nat_def] commitEntropy_eq recorder_lengths assms)
qed

lemma recorder_combined:
  "res_bind (map_res fromHex ENTROPIES) (combineEntropy sha) = ok (sha (combined_preimage [E0, E1]))"
proof -
  have e: "ENTROPIES = [ENTROPIES ! 0, ENTROPIES ! 1]" by (simp add: ENTROPIES_def)
  have "map_res fromHex ENTROPIES = ok [E0, E1]"
    by (subst e) (simp add: recorder_hex(1,2)[unfolded One_nat_def])
  then show ?thesis
    by (simp add: combineEntropy_ok_iff recorder_lengths safe_nat_def MAX_SAFE_INTEGER_def)
qed

lemma recorder_transcript_ok:
  assumes sha: "\<And>x. length (sha x) = 32" and "hex_string 64 gid" and "recorder_transcript sha gid = Some (ok acts)"
  obtains g d where "fromHex gid = ok g" and "length g = 32"
    and "buildDeckCommitment sha (sha (combined_preimage [E0, E1])) 52 1 = Some (ok d)"
    and "acts = recorder_actions gid [toHex (sha (entropy_preimage E0 P0 g)), toHex (sha (entropy_preimage E1 P1 g))] d"
proof -
  obtain g where g: "fromHex gid = ok g" "length g = 32"
    using lower_hex_toHex[of gid] assms(2) by (auto simp: hex_string_def)
  from assms(3) obtain d where "buildDeckCommitment sha (sha (combined_preimage [E0, E1])) 52 1 = Some (ok d)"
    "acts = recorder_actions gid [toHex (sha (entropy_preimage E0 P0 g)), toHex (sha (entropy_preimage E1 P1 g))] d"
    by (auto simp: recorder_transcript_def g recorder_commitments_ok recorder_combined pres_bind_eq_Inr)
  then show thesis using g by (intro that)
qed

text \<open>The last entropy reveal fixes the deck the recorder computed.\<close>

lemma recorded_materialise:
  fixes c0 c1 :: "hash256 option"
  assumes sha: "\<And>x. length (sha x) = 32"
    and d: "buildDeckCommitment sha (sha (combined_preimage [E0, E1])) 52 1 = Some (ok d)"
  defines "ps \<equiv> [rec_player 0 pk0 c0 (Some (ENTROPIES ! 0)), rec_player 1 pk1 c1 (Some (ENTROPIES ! 1))]"
    and "ce \<equiv> Some (toHex (sha (combined_preimage [E0, E1])))" and "dh \<equiv> Some (toHex (deckCommitmentHash d))"
  shows "materialiseDeckCommitment sha (rec_state gid rsh S5_DECK_COMMITTED ps [] None 0 None None) defaultRuleSet
      = Some (ok (rec_state gid rsh S5_DECK_COMMITTED ps [] None 0 ce dh))"
    and "session_deck sha defaultRuleSet (rec_state gid rsh c ps vis act pot ce dh) d"
proof -
  have col: "collect_entropies (sort_key seat ps) = ok (Some [E0, E1])"
    by (simp add: ps_def rec_player_def joined_player_def recorder_hex[unfolded One_nat_def])
  have com: "combineEntropy sha [E0, E1] = ok (sha (combined_preimage [E0, E1]))"
    by (simp add: combineEntropy_ok_iff recorder_lengths safe_nat_def MAX_SAFE_INTEGER_def)
  have h: "asHash256 (toHex b) = ok (toHex b)" if "length b = 32" for b
    using hex_string_toHex[of b] that by (simp add: asHash256_def)
  have rs: "deck_format defaultRuleSet = 52" "shuffle_algorithm_version defaultRuleSet = 1"
    by (simp_all add: defaultRuleSet_def)
  have hd: "deckCommitmentHash d = sha (deck_preimage (map dc_commitment (perPosition d)))"
    using buildDeckCommitment_ok[of sha, OF sha d] by (simp add: deck_built_def)
  show "session_deck sha defaultRuleSet (rec_state gid rsh c ps vis act pot ce dh) d"
    unfolding session_deck_def rec_state_simps using col com d rs ce_def dh_def by auto
  show "materialiseDeckCommitment sha (rec_state gid rsh S5_DECK_COMMITTED ps [] None 0 None None) defaultRuleSet
      = Some (ok (rec_state gid rsh S5_DECK_COMMITTED ps [] None 0 ce dh))"
    unfolding materialiseDeckCommitment_def rec_state_simps col rs
    by (simp add: com d h hd sha ce_def dh_def) (simp add: rec_state_def)
qed

lemma card_check:
  assumes sha: "\<And>x. length (sha x) = 32" and d: "session_deck sha defaultRuleSet s d"
    and b: "buildDeckCommitment sha c 52 1 = Some (ok d)" and "i < 52"
  shows "verify_checks sha s (recorder_base gid n st (CardReveal_Payload (recorder_reveal (perPosition d ! i))))
     defaultRuleSet = Some (ok ())"
proof -
  have "dc_position (perPosition d ! i) = i"
    using buildDeckCommitment_ok[OF sha b] assms(4) by (auto simp: deck_built_def Let_def)
  then have "recorder_reveal (perPosition d ! i) = honest_reveal d i R2 Clubs"
    by (simp add: recorder_reveal_def honest_reveal_def Let_def)
  then show ?thesis
    using honest_reveal_check[of sha, OF sha d, of i R2 Clubs] assms(4)
    by (simp add: verify_checks_def recorder_base_def defaultRuleSet_def)
qed

lemma recorder_key_lengths: "length pk0 = 66" "length pk1 = 66"
  by code_simp+

lemma recorded_settle:
  assumes "ps = [rec_player 0 pk0 c0 e0, rec_player 1 pk1 c1 e1]"
  obtains t where "applyAction (rec_state gid rsh S10_SETTLED_ROUND ps [a, b, c] (Some 0) 10 ce dh)
      (recorder_base gid n (Some 0) Settle_Payload) defaultRuleSet 100 = ok t"
    and "state_class t = S11_ROTATE_TURN" and "total_value t = 2010"
    and "players t \<noteq> []" and "list_all long_id (players t)"
proof -
  obtain oc b0 where oc: "classifyInBetweenRound [a, b, c] = ok (oc, b0)"
    using classify_ok_iff[of "[a, b, c]"] by auto
  define pd where "pd = fst (computeValueTransfer oc 10 (settlement_rules defaultRuleSet))"
  have pd: "computeValueTransfer oc 10 (settlement_rules defaultRuleSet) = (pd, - pd)" "\<bar>pd\<bar> \<le> 100" "pd \<le> 10"
    using classify_not_pass[OF oc] by (cases oc; simp add: pd_def defaultRuleSet_def)+
  let ?s = "rec_state gid rsh S10_SETTLED_ROUND ps [a, b, c] (Some 0) 10 ce dh"
  have "applySettle ?s defaultRuleSet = ok (enter S11_ROTATE_TURN (?s\<lparr> pot_value := 10 - pd, players := map (credit 0 pd) ps \<rparr>))"
    unfolding applySettle_ok_iff using oc pd
    by (auto simp: assms rec_player_def joined_player_def safe_nat_def MAX_SAFE_INTEGER_def)
  then have "applyAction ?s (recorder_base gid n (Some 0) Settle_Payload) defaultRuleSet 100
      = ok (enter S11_ROTATE_TURN (?s\<lparr> pot_value := 10 - pd, players := map (credit 0 pd) ps \<rparr>))"
    by (simp add: applyAction_def recorder_base_def)
  then show thesis
    by (rule that) (simp_all add: total_value_def assms rec_player_def joined_player_def credit_def long_id_def
        recorder_key_lengths[unfolded One_nat_def])
qed

lemma nth_pair: "[x, y] ! 0 = x" "[x, y] ! 1 = y"
  by simp_all

lemma plain_check:
  "payload_type p \<notin> {EntropyCommit, EntropyReveal, CardReveal} \<Longrightarrow>
     verify_checks sha s (recorder_base gid n st p) rs = Some (ok ())"
  by (cases p) (simp_all add: verify_checks_def recorder_base_def)

text \<open>The session in three parts: the joins and commitments, the two reveals, and the round.\<close>

lemma verifier_accepts:
  "verifyAndApply sha s a rs 100 = Some (ok t) \<Longrightarrow>
     verifier_loop sha rs s i (a # as) = verifier_loop sha rs t (Suc i) as"
  by simp

abbreviation rec_open where
  "rec_open gid rsh c ps \<equiv> rec_state gid rsh c ps [] None 0 None None"

lemma recorded_setup:
  assumes "length b = 32" and "length b' = 32"
  shows "verifier_loop sha defaultRuleSet (initialState gid rsh 244) 0
      (recorder_base gid 1 (Some 0) (Join_Payload pk0 1000) # recorder_base gid 2 (Some 1) (Join_Payload pk1 1000)
       # recorder_base gid 3 None TableLock_Payload # recorder_base gid 4 (Some 0) (EntropyCommit_Payload (toHex b))
       # recorder_base gid 5 (Some 1) (EntropyCommit_Payload (toHex b')) # as)
    = verifier_loop sha defaultRuleSet (rec_open gid rsh S4_ENTROPY_REVEAL_WINDOW
        [rec_player 0 pk0 (Some (toHex b)) None, rec_player 1 pk1 (Some (toHex b')) None]) 5 as"
proof -
  let ?p0 = "rec_player 0 pk0" and ?p1 = "rec_player 1 pk1"
  note pass = gate_pass[of sha _ _ defaultRuleSet 100]
  have "verifyAndApply sha (initialState gid rsh 244) (recorder_base gid 1 (Some 0) (Join_Payload pk0 1000))
      defaultRuleSet 100 = Some (ok (rec_open gid rsh S1_SEAT_OPEN [?p0 None None]))"
    by (rule pass[OF plain_check recorded_joins(1)]) simp_all
  moreover have "verifyAndApply sha (rec_open gid rsh S1_SEAT_OPEN [?p0 None None])
      (recorder_base gid 2 (Some 1) (Join_Payload pk1 1000)) defaultRuleSet 100
      = Some (ok (rec_open gid rsh S1_SEAT_OPEN [?p0 None None, ?p1 None None]))"
    by (rule pass[OF plain_check recorded_joins(2)]) simp_all
  moreover have "verifyAndApply sha (rec_open gid rsh S1_SEAT_OPEN [?p0 None None, ?p1 None None])
      (recorder_base gid 3 None TableLock_Payload) defaultRuleSet 100
      = Some (ok (rec_open gid rsh S3_ENTROPY_COMMIT_WINDOW [?p0 None None, ?p1 None None]))"
    by (rule pass[OF plain_check recorded_joins(3)]) simp_all
  moreover have "verifyAndApply sha (rec_open gid rsh S3_ENTROPY_COMMIT_WINDOW [?p0 None None, ?p1 None None])
      (recorder_base gid 4 (Some 0) (EntropyCommit_Payload (toHex b))) defaultRuleSet 100
      = Some (ok (rec_open gid rsh S3_ENTROPY_COMMIT_WINDOW [?p0 (Some (toHex b)) None, ?p1 None None]))"
    by (rule pass[OF commit_check recorded_commits(1)]) (simp_all add: assms)
  moreover have "verifyAndApply sha (rec_open gid rsh S3_ENTROPY_COMMIT_WINDOW [?p0 (Some (toHex b)) None, ?p1 None None])
      (recorder_base gid 5 (Some 1) (EntropyCommit_Payload (toHex b'))) defaultRuleSet 100
      = Some (ok (rec_open gid rsh S4_ENTROPY_REVEAL_WINDOW [?p0 (Some (toHex b)) None, ?p1 (Some (toHex b')) None]))"
    by (rule pass[OF commit_check recorded_commits(2)]) (simp_all add: assms)
  ultimately show ?thesis by (simp only: verifier_accepts) (simp add: eval_nat_numeral)
qed

text \<open>The players and the deck fields once both entropies are known.\<close>

abbreviation rec_players where
  "rec_players sha g \<equiv>
     [rec_player 0 pk0 (Some (toHex (sha (entropy_preimage E0 P0 g)))) (Some (ENTROPIES ! 0)),
      rec_player 1 pk1 (Some (toHex (sha (entropy_preimage E1 P1 g)))) (Some (ENTROPIES ! 1))]"

abbreviation rec_dealt where
  "rec_dealt sha gid rsh g d c vis act pot \<equiv> rec_state gid rsh c (rec_players sha g) vis act pot
     (Some (toHex (sha (combined_preimage [E0, E1])))) (Some (toHex (deckCommitmentHash d)))"

lemma recorded_reveals:
  assumes sha: "\<And>x. length (sha x) = 32" and g: "fromHex gid = ok g" "length g = 32"
    and d: "buildDeckCommitment sha (sha (combined_preimage [E0, E1])) 52 1 = Some (ok d)"
  shows "verifier_loop sha defaultRuleSet (rec_open gid rsh S4_ENTROPY_REVEAL_WINDOW
        [rec_player 0 pk0 (Some (toHex (sha (entropy_preimage E0 P0 g)))) None,
         rec_player 1 pk1 (Some (toHex (sha (entropy_preimage E1 P1 g)))) None]) i
      (recorder_base gid m (Some 0) (EntropyReveal_Payload (ENTROPIES ! 0))
       # recorder_base gid n (Some 1) (EntropyReveal_Payload (ENTROPIES ! 1)) # as)
    = verifier_loop sha defaultRuleSet (rec_dealt sha gid rsh g d S5_DECK_COMMITTED [] None 0) (Suc (Suc i)) as"
    (is "verifier_loop _ _ (rec_open _ _ _ [?p0 None, ?p1 None]) _ _ = _")
proof -
  let ?e0 = "Some (ENTROPIES ! 0)"
  have "verify_checks sha (rec_open gid rsh S4_ENTROPY_REVEAL_WINDOW [?p0 None, ?p1 None])
      (recorder_base gid m (Some 0) (EntropyReveal_Payload (ENTROPIES ! 0))) defaultRuleSet = Some (ok ())"
    by (rule reveal_check[of sha, OF sha g, where p = "?p0 None" and pid = P0 and e = E0])
       (simp_all add: rec_player_def joined_player_def recorder_hex recorder_lengths)
  then have "verifyAndApply sha (rec_open gid rsh S4_ENTROPY_REVEAL_WINDOW [?p0 None, ?p1 None])
      (recorder_base gid m (Some 0) (EntropyReveal_Payload (ENTROPIES ! 0))) defaultRuleSet 100
      = Some (ok (rec_open gid rsh S4_ENTROPY_REVEAL_WINDOW [?p0 ?e0, ?p1 None]))"
    by (rule gate_pass[OF _ recorded_commits(3)]) simp
  moreover have "verify_checks sha (rec_open gid rsh S4_ENTROPY_REVEAL_WINDOW [?p0 ?e0, ?p1 None])
      (recorder_base gid n (Some 1) (EntropyReveal_Payload (ENTROPIES ! 1))) defaultRuleSet = Some (ok ())"
    by (rule reveal_check[of sha, OF sha g, where p = "?p1 None" and pid = P1 and e = E1])
       (simp_all add: rec_player_def joined_player_def recorder_hex[unfolded One_nat_def] recorder_lengths)
  then have "verifyAndApply sha (rec_open gid rsh S4_ENTROPY_REVEAL_WINDOW [?p0 ?e0, ?p1 None])
      (recorder_base gid n (Some 1) (EntropyReveal_Payload (ENTROPIES ! 1))) defaultRuleSet 100
      = Some (ok (rec_dealt sha gid rsh g d S5_DECK_COMMITTED [] None 0))"
    unfolding verifyAndApply_def recorded_commits(4)
    by (simp only: pres_bind_simps rec_state_simps simp_thms if_True recorded_materialise(1)[of sha, OF sha d])
  ultimately show ?thesis by (simp only: verifier_accepts)
qed

lemma recorded_round:
  fixes sha g d gid rsh
  assumes sha: "\<And>x. length (sha x) = 32"
    and d: "buildDeckCommitment sha (sha (combined_preimage [E0, E1])) 52 1 = Some (ok d)"
  defines "r \<equiv> \<lambda>i. recorder_reveal (perPosition d ! i)" and "D \<equiv> rec_dealt sha gid rsh g d"
  obtains t where "verifier_loop sha defaultRuleSet (D S5_DECK_COMMITTED [] None 0) i
      [recorder_base gid n1 None (CardReveal_Payload (r 0)), recorder_base gid n2 None (CardReveal_Payload (r 1)),
       recorder_base gid n3 (Some 0) (Bet_Payload 10), recorder_base gid n4 None (CardReveal_Payload (r 2)),
       recorder_base gid n5 (Some 0) Settle_Payload] = Some (Inr t)"
    and "state_class t = S11_ROTATE_TURN" and "total_value t = 2010"
    and "players t \<noteq> []" and "list_all long_id (players t)"
proof -
  note play = recorded_play[OF refl, of gid rsh]
  note card = card_check[of sha, OF sha recorded_materialise(2)[of sha, OF sha d] d]
  let ?c = "\<lambda>i. proof_card (r i)"
  have "verifyAndApply sha (D S5_DECK_COMMITTED [] None 0) (recorder_base gid n1 None (CardReveal_Payload (r 0)))
      defaultRuleSet 100 = Some (ok (D S6_CARD_REVEAL_FIRST [?c 0] None 0))"
    unfolding D_def r_def by (rule gate_pass[OF card play(1)]) simp_all
  moreover have "verifyAndApply sha (D S6_CARD_REVEAL_FIRST [?c 0] None 0) (recorder_base gid n2 None (CardReveal_Payload (r 1)))
      defaultRuleSet 100 = Some (ok (D S8_BET_DECISION [?c 0, ?c 1] (Some 0) 0))"
    unfolding D_def r_def by (rule gate_pass[OF card play(2)]) simp_all
  moreover have "verifyAndApply sha (D S8_BET_DECISION [?c 0, ?c 1] (Some 0) 0) (recorder_base gid n3 (Some 0) (Bet_Payload 10))
      defaultRuleSet 100 = Some (ok (D S9_CARD_REVEAL_THIRD [?c 0, ?c 1] (Some 0) 10))"
    unfolding D_def by (rule gate_pass[OF plain_check play(3)]) simp_all
  moreover have "verifyAndApply sha (D S9_CARD_REVEAL_THIRD [?c 0, ?c 1] (Some 0) 10)
      (recorder_base gid n4 None (CardReveal_Payload (r 2))) defaultRuleSet 100
      = Some (ok (D S10_SETTLED_ROUND [?c 0, ?c 1, ?c 2] (Some 0) 10))"
    unfolding D_def r_def by (rule gate_pass[OF card play(4)]) simp_all
  moreover obtain t where t: "applyAction (D S10_SETTLED_ROUND [?c 0, ?c 1, ?c 2] (Some 0) 10)
      (recorder_base gid n5 (Some 0) Settle_Payload) defaultRuleSet 100 = ok t"
    "state_class t = S11_ROTATE_TURN" "total_value t = 2010" "players t \<noteq> []" "list_all long_id (players t)"
    unfolding D_def by (rule recorded_settle[OF refl])
  moreover have "verifyAndApply sha (D S10_SETTLED_ROUND [?c 0, ?c 1, ?c 2] (Some 0) 10)
      (recorder_base gid n5 (Some 0) Settle_Payload) defaultRuleSet 100 = Some (ok t)"
    by (rule gate_pass[OF plain_check t(1)]) (simp_all add: D_def)
  ultimately show thesis
    by (intro that[of t]) (simp_all only: verifier_accepts verifier_loop.simps(1) simp_thms)
qed

text \<open>C33. The recorder and the verifier fit together: whatever the game id and the digest, the twelve
  actions that the recorder drives, with the deck it computes from both entropies, are accepted one
  after the other by the verifier's gate under the same rule set and end in \<open>S11_ROTATE_TURN\<close> with the
  two stakes and the bet accounted for; the verifier nevertheless ends in an uncaught error.\<close>
theorem recorded_session_is_accepted:
  assumes sha: "\<And>x. length (sha x) = 32" and gid: "hex_string 64 gid"
    and rec: "recorder_transcript sha gid = Some (ok acts)"
  shows "(\<exists>s. verifier_loop sha defaultRuleSet (initialState gid rsh 244) 0 acts = Some (Inr s)
      \<and> state_class s = S11_ROTATE_TURN \<and> total_value s = 2010)
    \<and> length acts = 12 \<and> verifier_main sha gid rsh 244 acts = Some Fatal"
proof -
  obtain g d where g: "fromHex gid = ok g" "length g = 32"
    and d: "buildDeckCommitment sha (sha (combined_preimage [E0, E1])) 52 1 = Some (ok d)"
    and acts: "acts = recorder_actions gid [toHex (sha (entropy_preimage E0 P0 g)), toHex (sha (entropy_preimage E1 P1 g))] d"
    by (rule recorder_transcript_ok[of sha, OF sha gid rec])
  obtain t where t: "verifier_loop sha defaultRuleSet (rec_dealt sha gid rsh g d S5_DECK_COMMITTED [] None 0) 7
      [recorder_base gid 8 None (CardReveal_Payload (recorder_reveal (perPosition d ! 0))),
       recorder_base gid 9 None (CardReveal_Payload (recorder_reveal (perPosition d ! 1))),
       recorder_base gid 10 (Some 0) (Bet_Payload 10),
       recorder_base gid 11 None (CardReveal_Payload (recorder_reveal (perPosition d ! 2))),
       recorder_base gid 12 (Some 0) Settle_Payload] = Some (Inr t)"
    "state_class t = S11_ROTATE_TURN" "total_value t = 2010" "players t \<noteq> []" "list_all long_id (players t)"
    by (rule recorded_round[of sha, OF sha d])
  have "acts = recorder_base gid 1 (Some 0) (Join_Payload pk0 1000) # recorder_base gid 2 (Some 1) (Join_Payload pk1 1000)
      # recorder_base gid 3 None TableLock_Payload # recorder_base gid 4 (Some 0) (EntropyCommit_Payload (toHex (sha (entropy_preimage E0 P0 g))))
      # recorder_base gid 5 (Some 1) (EntropyCommit_Payload (toHex (sha (entropy_preimage E1 P1 g))))
      # recorder_base gid 6 (Some 0) (EntropyReveal_Payload (ENTROPIES ! 0)) # recorder_base gid 7 (Some 1) (EntropyReveal_Payload (ENTROPIES ! 1))
      # [recorder_base gid 8 None (CardReveal_Payload (recorder_reveal (perPosition d ! 0))),
       recorder_base gid 9 None (CardReveal_Payload (recorder_reveal (perPosition d ! 1))),
       recorder_base gid 10 (Some 0) (Bet_Payload 10),
       recorder_base gid 11 None (CardReveal_Payload (recorder_reveal (perPosition d ! 2))),
       recorder_base gid 12 (Some 0) Settle_Payload]" (is "_ = ?list")
    unfolding acts recorder_actions_def by (simp add: eval_nat_numeral)
  moreover have "verifier_loop sha defaultRuleSet (initialState gid rsh 244) 0 ?list = Some (Inr t)"
    unfolding recorded_setup[OF sha sha] recorded_reveals[of sha, OF sha g d] using t(1) by (simp add: eval_nat_numeral)
  ultimately have run: "verifier_loop sha defaultRuleSet (initialState gid rsh 244) 0 acts = Some (Inr t)"
    and len: "length acts = 12" by simp_all
  have "verifier_main sha gid rsh 244 acts = Some Fatal"
    using run no_hash_with_long_ids[OF t(4,5)] gid
    by (auto simp: verifier_main_def asGameId_def asRuleSetHash_def asBlockHeight_def split: sum.split)
  then show ?thesis using run len t(2,3) by blast
qed

lemma recorder_shuffle:
  "\<exists>deck. shuffleCanonicalDeck head_digest (head_digest (combined_preimage [E0, E1])) 52 = Some (ok deck)"
proof -
  have "(case shuffleCanonicalDeck head_digest (head_digest (combined_preimage [E0, E1])) 52 of
      Some (Inr d) \<Rightarrow> True | _ \<Rightarrow> False)" by code_simp
  then show ?thesis by (auto split: option.splits sum.splits)
qed

lemma recorded_session_is_accepted_witness:
  "\<exists>acts. recorder_transcript head_digest (replicate 64 CHR ''a'') = Some (ok acts) \<and> length acts = 12
     \<and> verifier_main head_digest (replicate 64 CHR ''a'') (replicate 64 CHR ''0'') 244 acts = Some Fatal"
proof -
  let ?gid = "replicate 64 CHR ''a''"
  have h: "hex_string 64 ?gid" by (rule hex_string_replicate) simp
  then obtain g where g: "fromHex ?gid = ok g" "length g = 32"
    using lower_hex_toHex[of ?gid] by (auto simp: hex_string_def)
  obtain d where d: "buildDeckCommitment head_digest (head_digest (combined_preimage [E0, E1])) 52 1 = Some (ok d)"
    using buildDeckCommitment_total[of head_digest, OF head_digest_length] recorder_shuffle by blast
  obtain acts where a: "recorder_transcript head_digest ?gid = Some (ok acts)"
    unfolding recorder_transcript_def g(1) pres_bind_simps recorder_commitments_ok[OF g(2)] recorder_combined d by blast
  from recorded_session_is_accepted[of head_digest, OF head_digest_length h a, of "replicate 64 CHR ''0''"] a
  show ?thesis by blast
qed

end
