(* ===== verification/Wire.thy ===== *)
theory Wire
  imports Bytes
begin

text \<open>
  The binary frames of \<open>packages/wire-ts/src\<close>: the constants and enumerations of \<open>types.ts\<close> and the
  codec of \<open>frame.ts\<close>. A frame is magic, version, type, length, checksum and payload, in that order.
  \<open>sha\<close> stands for \<open>crypto.subtle.digest('SHA-256', _)\<close>; the asynchronous functions are modelled by
  their result, and an error class is a constructor of \<open>wire_error\<close> with the numbers of its message.
  A frame's type is a number: \<open>decode\<close> casts whatever the header holds to \<open>MsgType\<close>.
\<close>

section \<open>Constants and codes\<close>

definition Magic :: "byte list" where
  "Magic = [0x43, 0x41, 0x52, 0x44]"

definition VERSION_1_0 :: int where
  "VERSION_1_0 = 0x0100"

definition HEADER_SIZE :: int where
  "HEADER_SIZE = 16"

definition MAX_PAYLOAD_SIZE :: int where
  "MAX_PAYLOAD_SIZE = 32 * 1024 * 1024"

datatype msg_type =
    Msg_Version | Msg_Verack | Msg_Ping | Msg_Pong | Msg_Getaddr | Msg_Addr | Msg_Inv
    | Msg_Getdata | Msg_Object | Msg_NotFound | Msg_Reject | Msg_TableAnnounce | Msg_SeatCommit
    | Msg_TableStart | Msg_ActionCommit | Msg_ActionReveal | Msg_RoundResult
    | Msg_TranscriptHash | Msg_TableClose | Msg_TimeoutNotice | Msg_JoinTable | Msg_Ready
    | Msg_Action | Msg_Commitment | Msg_Reveal | Msg_CardReveal | Msg_Fold
    | Msg_TranscriptRequest | Msg_TableState | Msg_ActionAccepted | Msg_PeerAction
    | Msg_TranscriptResponse | Msg_ErrorReply

fun msg_type_code :: "msg_type \<Rightarrow> int" where
  "msg_type_code Msg_Version = 0x0001"
| "msg_type_code Msg_Verack = 0x0002"
| "msg_type_code Msg_Ping = 0x0003"
| "msg_type_code Msg_Pong = 0x0004"
| "msg_type_code Msg_Getaddr = 0x0005"
| "msg_type_code Msg_Addr = 0x0006"
| "msg_type_code Msg_Inv = 0x0100"
| "msg_type_code Msg_Getdata = 0x0101"
| "msg_type_code Msg_Object = 0x0102"
| "msg_type_code Msg_NotFound = 0x0103"
| "msg_type_code Msg_Reject = 0x0104"
| "msg_type_code Msg_TableAnnounce = 0x0200"
| "msg_type_code Msg_SeatCommit = 0x0201"
| "msg_type_code Msg_TableStart = 0x0202"
| "msg_type_code Msg_ActionCommit = 0x0203"
| "msg_type_code Msg_ActionReveal = 0x0204"
| "msg_type_code Msg_RoundResult = 0x0205"
| "msg_type_code Msg_TranscriptHash = 0x0206"
| "msg_type_code Msg_TableClose = 0x0207"
| "msg_type_code Msg_TimeoutNotice = 0x0208"
| "msg_type_code Msg_JoinTable = 0x0300"
| "msg_type_code Msg_Ready = 0x0301"
| "msg_type_code Msg_Action = 0x0302"
| "msg_type_code Msg_Commitment = 0x0303"
| "msg_type_code Msg_Reveal = 0x0304"
| "msg_type_code Msg_CardReveal = 0x0305"
| "msg_type_code Msg_Fold = 0x0306"
| "msg_type_code Msg_TranscriptRequest = 0x0307"
| "msg_type_code Msg_TableState = 0x0380"
| "msg_type_code Msg_ActionAccepted = 0x0381"
| "msg_type_code Msg_PeerAction = 0x0382"
| "msg_type_code Msg_TranscriptResponse = 0x0383"
| "msg_type_code Msg_ErrorReply = 0x03fe"

datatype reject_code =
    Reject_Malformed | Reject_InvalidChecksum | Reject_UnsupportedVersion
    | Reject_MessageTooLarge | Reject_UnknownType | Reject_StaleObject | Reject_DuplicateObject
    | Reject_InvalidObjectHash | Reject_RateLimited | Reject_BadBinding

fun reject_code_number :: "reject_code \<Rightarrow> int" where
  "reject_code_number Reject_Malformed = 0x01"
| "reject_code_number Reject_InvalidChecksum = 0x02"
| "reject_code_number Reject_UnsupportedVersion = 0x03"
| "reject_code_number Reject_MessageTooLarge = 0x04"
| "reject_code_number Reject_UnknownType = 0x05"
| "reject_code_number Reject_StaleObject = 0x06"
| "reject_code_number Reject_DuplicateObject = 0x07"
| "reject_code_number Reject_InvalidObjectHash = 0x08"
| "reject_code_number Reject_RateLimited = 0x09"
| "reject_code_number Reject_BadBinding = 0x0a"

section \<open>Frames\<close>

record frame =
  fr_version :: int
  fr_type :: int
  fr_payload :: "byte list"

datatype wire_error =
    BadMagicError
  | BadChecksumError
  | PayloadTooLargeError int
  | ShortFrameError int int

definition checksumOf :: "(byte list \<Rightarrow> byte list) \<Rightarrow> byte list \<Rightarrow> byte list" where
  "checksumOf sha p = take 4 (sha p)"

definition encode :: "(byte list \<Rightarrow> byte list) \<Rightarrow> frame \<Rightarrow> wire_error + byte list" where
  "encode sha f =
     (if int (length (fr_payload f)) > MAX_PAYLOAD_SIZE
      then Inl (PayloadTooLargeError (int (length (fr_payload f))))
      else Inr (Magic @ le_bytes 2 (fr_version f) @ le_bytes 2 (fr_type f)
                @ le_bytes 4 (int (length (fr_payload f)))
                @ checksumOf sha (fr_payload f) @ fr_payload f))"

text \<open>\<open>view.getUint16(k, true)\<close> and \<open>getUint32\<close> read \<open>n\<close> bytes at offset \<open>k\<close>.\<close>

definition get_le :: "nat \<Rightarrow> nat \<Rightarrow> byte list \<Rightarrow> int" where
  "get_le n k buf = le_value (take n (drop k buf))"

definition decode :: "(byte list \<Rightarrow> byte list) \<Rightarrow> byte list \<Rightarrow> wire_error + (frame \<times> int)" where
  "decode sha buf =
     (if int (length buf) < HEADER_SIZE then Inl (ShortFrameError (int (length buf)) HEADER_SIZE)
      else if buf ! 0 \<noteq> Magic ! 0 \<or> buf ! 1 \<noteq> Magic ! 1 \<or> buf ! 2 \<noteq> Magic ! 2 \<or> buf ! 3 \<noteq> Magic ! 3
      then Inl BadMagicError
      else let ver = get_le 2 4 buf; typ = get_le 2 6 buf; len = get_le 4 8 buf in
        if len > MAX_PAYLOAD_SIZE then Inl (PayloadTooLargeError len)
        else let total = HEADER_SIZE + len in
          if int (length buf) < total then Inl (ShortFrameError (int (length buf)) total)
          else let p = drop (nat HEADER_SIZE) (take (nat total) buf);
                   want = checksumOf sha p in
            if list_ex (\<lambda>i. buf ! (12 + i) \<noteq> want ! i) [0..<4] then Inl BadChecksumError
            else Inr (\<lparr> fr_version = ver, fr_type = typ, fr_payload = p \<rparr>, total))"

section \<open>Decoding the header\<close>

lemma list_of_four: "length m = 4 \<Longrightarrow> m = [m ! 0, m ! 1, m ! 2, m ! 3]"
  by (rule nth_equalityI) (auto simp: less_Suc_eq numeral_eq_Suc)

lemma checksum_loop:
  assumes "length c = 4" and "length w = 4"
  shows "list_ex (\<lambda>i. c ! i \<noteq> w ! i) [0..<4] \<longleftrightarrow> c \<noteq> w"
  using assms by (auto simp: list_ex_iff intro: nth_equalityI)

lemma length_checksumOf: "length (sha p) = 32 \<Longrightarrow> length (checksumOf sha p) = 4"
  by (simp add: checksumOf_def)

lemma decode_header:
  assumes "length m = 4" "length a = 2" "length b = 2" "length l = 4" "length c = 4"
    and "\<And>p. length (sha p) = 32"
  shows "decode sha (m @ a @ b @ l @ c @ rest) =
    (if m \<noteq> Magic then Inl BadMagicError
     else if le_value l > MAX_PAYLOAD_SIZE then Inl (PayloadTooLargeError (le_value l))
     else if int (length rest) < le_value l
     then Inl (ShortFrameError (16 + int (length rest)) (16 + le_value l))
     else if c \<noteq> checksumOf sha (take (nat (le_value l)) rest) then Inl BadChecksumError
     else Inr (\<lparr> fr_version = le_value a, fr_type = le_value b,
                 fr_payload = take (nat (le_value l)) rest \<rparr>, 16 + le_value l))"
proof -
  let ?buf = "m @ a @ b @ l @ c @ rest"
  have len: "int (length ?buf) = 16 + int (length rest)" using assms by simp
  have get: "get_le 2 4 ?buf = le_value a" "get_le 2 6 ?buf = le_value b" "get_le 4 8 ?buf = le_value l"
    using assms(1-5) by (simp_all add: get_le_def)
  have l0: "0 \<le> le_value l" using le_value_bounds by simp
  then have p: "drop (nat 16) (take (nat (16 + le_value l)) ?buf) = take (nat (le_value l)) rest"
    using assms(1-5) by (simp add: nat_add_distrib)
  have m: "(?buf ! 0 \<noteq> Magic ! 0 \<or> ?buf ! 1 \<noteq> Magic ! 1 \<or> ?buf ! 2 \<noteq> Magic ! 2 \<or> ?buf ! 3 \<noteq> Magic ! 3)
      \<longleftrightarrow> m \<noteq> Magic"
    using list_of_four[OF assms(1)] assms(1) by (auto simp: nth_append Magic_def)
  have ck: "length (checksumOf sha q) = 4" for q by (intro length_checksumOf assms(6))
  have nth: "?buf ! (12 + i) = c ! i" if "i < 4" for i
    using assms(1-5) that by (simp add: nth_append)
  have c: "list_ex (\<lambda>i. ?buf ! (12 + i) \<noteq> checksumOf sha q ! i) [0..<4] \<longleftrightarrow> c \<noteq> checksumOf sha q" for q
    using checksum_loop[OF assms(5) ck] nth by (auto simp: list_ex_iff)
  have "\<not> 16 + int (length rest) < 16" by simp
  then show ?thesis
    unfolding decode_def Let_def get HEADER_SIZE_def len m p c add_less_cancel_left
    by (simp only: if_False)
qed
lemma header_parts:
  assumes "16 \<le> length buf"
  shows "buf = take 4 buf @ take 2 (drop 4 buf) @ take 2 (drop 6 buf) @ take 4 (drop 8 buf)
     @ take 4 (drop 12 buf) @ drop 16 buf"
proof -
  have "drop k buf = take j (drop k buf) @ drop (k + j) buf" for j k
    using append_take_drop_id[of j "drop k buf"] by (simp add: add.commute)
  from this[of 0 4] this[of 4 2] this[of 6 2] this[of 8 4] this[of 12 4]
  show ?thesis by simp
qed

definition wire_frame :: "frame \<Rightarrow> bool" where
  "wire_frame f \<longleftrightarrow> 0 \<le> fr_version f \<and> fr_version f < 2 ^ 16 \<and> 0 \<le> fr_type f \<and> fr_type f < 2 ^ 16"

lemma encode_ok_iff:
  "encode sha f = Inr bs \<longleftrightarrow> int (length (fr_payload f)) \<le> MAX_PAYLOAD_SIZE
     \<and> bs = Magic @ le_bytes 2 (fr_version f) @ le_bytes 2 (fr_type f)
              @ le_bytes 4 (int (length (fr_payload f))) @ checksumOf sha (fr_payload f) @ fr_payload f"
  by (auto simp: encode_def)

lemma length_Magic [simp]: "length Magic = 4"
  by (simp add: Magic_def)

lemma payload_length_fits: "int (length q) \<le> MAX_PAYLOAD_SIZE \<Longrightarrow> le_value (le_bytes 4 (int (length q))) = int (length q)"
  by (rule le_value_small) (simp_all add: MAX_PAYLOAD_SIZE_def)

lemma decode_encoded:
  assumes "\<And>p. length (sha p) = 32" and "encode sha f = Inr bs"
  shows "decode sha (bs @ rest) =
    Inr (\<lparr> fr_version = fr_version f mod 2 ^ 16, fr_type = fr_type f mod 2 ^ 16, fr_payload = fr_payload f \<rparr>,
         int (length bs))"
proof -
  let ?p = "fr_payload f"
  have p: "int (length ?p) \<le> MAX_PAYLOAD_SIZE" and bs: "bs = Magic @ le_bytes 2 (fr_version f) @ le_bytes 2 (fr_type f)
      @ le_bytes 4 (int (length ?p)) @ checksumOf sha ?p @ ?p"
    using assms(2) unfolding encode_ok_iff by blast+
  have c: "length (checksumOf sha ?p) = 4" by (intro length_checksumOf assms(1))
  show ?thesis
    unfolding bs append_assoc
    by (subst decode_header[OF length_Magic length_le_bytes length_le_bytes length_le_bytes c assms(1)])
       (unfold payload_length_fits[OF p], use p c in \<open>simp add: le_value_le_bytes\<close>)
qed

lemma decode_only_encoded:
  assumes sha: "\<And>p. length (sha p) = 32" and dec: "decode sha buf = Inr (f, n)"
  shows "wire_frame f \<and> 0 \<le> n \<and> n \<le> int (length buf) \<and> encode sha f = Inr (take (nat n) buf)"
proof -
  have l: "16 \<le> length buf" using dec by (auto simp: decode_def HEADER_SIZE_def split: if_splits)
  define m a b ln c rest where d: "m = take 4 buf" "a = take 2 (drop 4 buf)" "b = take 2 (drop 6 buf)"
    "ln = take 4 (drop 8 buf)" "c = take 4 (drop 12 buf)" "rest = drop 16 buf"
  have buf: "buf = m @ a @ b @ ln @ c @ rest" using header_parts[OF l] unfolding d .
  have lens: "length m = 4" "length a = 2" "length b = 2" "length ln = 4" "length c = 4"
    using l by (simp_all add: d)
  have v: "0 \<le> le_value ln" "0 \<le> le_value a" "le_value a < 2 ^ 16" "0 \<le> le_value b" "le_value b < 2 ^ 16"
    using le_value_bounds[of ln] le_value_bounds[of a] le_value_bounds[of b] lens by simp_all
  from dec[unfolded buf decode_header[OF lens sha]]
  have h: "m = Magic" "le_value ln \<le> MAX_PAYLOAD_SIZE" "le_value ln \<le> int (length rest)"
    "c = checksumOf sha (take (nat (le_value ln)) rest)" "n = 16 + le_value ln"
    "f = \<lparr> fr_version = le_value a, fr_type = le_value b, fr_payload = take (nat (le_value ln)) rest \<rparr>"
    by (auto split: if_splits)
  have pl: "int (length (fr_payload f)) = le_value ln" using h(3,6) v(1) by simp
  have "take (nat n) buf = m @ a @ b @ ln @ c @ fr_payload f"
    unfolding buf h(5) using lens v(1) h(6) by (simp add: nat_add_distrib)
  also have "\<dots> = Magic @ le_bytes 2 (fr_version f) @ le_bytes 2 (fr_type f)
      @ le_bytes 4 (int (length (fr_payload f))) @ checksumOf sha (fr_payload f) @ fr_payload f"
    unfolding pl using h lens by (simp add: le_bytes_le_value)
  finally have "encode sha f = Inr (take (nat n) buf)"
    unfolding encode_ok_iff pl using h(2) by blast
  moreover have "n \<le> int (length buf)" unfolding buf h(5) using h(3) lens by simp
  ultimately show ?thesis using v h(5,6) by (simp add: wire_frame_def)
qed

lemma decode_short:
  assumes "\<And>p. length (sha p) = 32" and "encode sha f = Inr bs" and "k < length bs"
  shows "decode sha (take k bs) = Inl (ShortFrameError (int k) (if k < 16 then 16 else int (length bs)))"
proof (cases "k < 16")
  case True
  then show ?thesis using assms(3) by (simp add: decode_def HEADER_SIZE_def)
next
  case False
  let ?p = "fr_payload f"
  have p: "int (length ?p) \<le> MAX_PAYLOAD_SIZE" and bs: "bs = Magic @ le_bytes 2 (fr_version f) @ le_bytes 2 (fr_type f)
      @ le_bytes 4 (int (length ?p)) @ checksumOf sha ?p @ ?p"
    using assms(2) unfolding encode_ok_iff by blast+
  have c: "length (checksumOf sha ?p) = 4" by (intro length_checksumOf assms(1))
  have lb: "length bs = 16 + length ?p" using c by (simp add: bs)
  have t: "take k bs = Magic @ le_bytes 2 (fr_version f) @ le_bytes 2 (fr_type f)
      @ le_bytes 4 (int (length ?p)) @ checksumOf sha ?p @ take (k - 16) ?p"
    using False c by (simp add: bs)
  have k: "int (length (take (k - 16) ?p)) < int (length ?p)" "16 + int (length (take (k - 16) ?p)) = int k"
    using False assms(3) lb by auto
  have k': "int k - 16 < int (length ?p)" using False assms(3) lb by linarith
  show ?thesis
    unfolding t
    by (subst decode_header[OF length_Magic length_le_bytes length_le_bytes length_le_bytes c assms(1)])
       (unfold payload_length_fits[OF p], use p k False lb k' in simp)
qed

text \<open>C30. The frame decoder accepts exactly the encodings: it returns a frame and a count just when the
  frame's header numbers are 16-bit values and the first that many bytes are the encoding of the frame,
  so no other byte string is ever taken for it.\<close>
theorem wire_frames_exact:
  assumes "\<And>p. length (sha p) = 32"
  shows "decode sha buf = Inr (f, n) \<longleftrightarrow>
    wire_frame f \<and> 0 \<le> n \<and> n \<le> int (length buf) \<and> encode sha f = Inr (take (nat n) buf)"
proof
  assume "wire_frame f \<and> 0 \<le> n \<and> n \<le> int (length buf) \<and> encode sha f = Inr (take (nat n) buf)"
  then have h: "wire_frame f" "0 \<le> n" "n \<le> int (length buf)" "encode sha f = Inr (take (nat n) buf)" by blast+
  have "decode sha (take (nat n) buf @ drop (nat n) buf) = Inr (f, n)"
    unfolding decode_encoded[OF assms h(4)] using h(1-3) by (simp add: wire_frame_def)
  then show "decode sha buf = Inr (f, n)" by simp
qed (rule decode_only_encoded[OF assms])

text \<open>A digest to compute with: the contents, padded.\<close>

definition wire_digest :: "byte list \<Rightarrow> byte list" where
  "wire_digest p = take 32 (p @ replicate 32 0)"

lemma length_wire_digest: "length (wire_digest p) = 32"
  by (simp add: wire_digest_def)

lemma wire_frames_exact_witness:
  "encode wire_digest \<lparr> fr_version = VERSION_1_0, fr_type = msg_type_code Msg_Ping, fr_payload = [7, 8] \<rparr>
     = Inr (take 18 [0x43, 0x41, 0x52, 0x44, 0, 1, 3, 0, 2, 0, 0, 0, 7, 8, 0, 0, 7, 8, 99])"
proof -
  have "decode wire_digest [0x43, 0x41, 0x52, 0x44, 0, 1, 3, 0, 2, 0, 0, 0, 7, 8, 0, 0, 7, 8, 99]
    = Inr (\<lparr> fr_version = VERSION_1_0, fr_type = msg_type_code Msg_Ping, fr_payload = [7, 8] \<rparr>, 18)"
    by code_simp
  from this[unfolded wire_frames_exact[OF length_wire_digest]] show ?thesis by simp
qed

lemma decode_altered:
  assumes sha: "\<And>p. length (sha p) = 32" and enc: "encode sha f = Inr bs"
    and q: "length q = length (fr_payload f)" "checksumOf sha q \<noteq> checksumOf sha (fr_payload f)"
  shows "decode sha (take 16 bs @ q @ rest) = Inl BadChecksumError"
proof -
  let ?p = "fr_payload f"
  have p: "int (length ?p) \<le> MAX_PAYLOAD_SIZE" and bs: "bs = Magic @ le_bytes 2 (fr_version f) @ le_bytes 2 (fr_type f)
      @ le_bytes 4 (int (length ?p)) @ checksumOf sha ?p @ ?p"
    using enc unfolding encode_ok_iff by blast+
  have c: "length (checksumOf sha ?p) = 4" by (intro length_checksumOf sha)
  have t: "take 16 bs @ q @ rest = Magic @ le_bytes 2 (fr_version f) @ le_bytes 2 (fr_type f)
      @ le_bytes 4 (int (length ?p)) @ checksumOf sha ?p @ q @ rest"
    using c by (simp add: bs)
  show ?thesis
    unfolding t
    by (subst decode_header[OF length_Magic length_le_bytes length_le_bytes length_le_bytes c sha])
       (unfold payload_length_fits[OF p], use p q in auto)
qed

text \<open>What goes wrong on the way is told apart: a frame cut short is reported with the bytes at hand
  and the bytes needed (the header when not even that has arrived, the whole frame afterwards), and a
  frame whose payload was replaced fails its checksum unless the first four digest bytes collide.\<close>
theorem wire_errors_are_told_apart:
  assumes "\<And>p. length (sha p) = 32" and "encode sha f = Inr bs"
    and "k < length bs" and "length q = length (fr_payload f)"
    and "checksumOf sha q \<noteq> checksumOf sha (fr_payload f)"
  shows "decode sha (take k bs) = Inl (ShortFrameError (int k) (if k < 16 then 16 else int (length bs)))
    \<and> decode sha (take 16 bs @ q @ rest) = Inl BadChecksumError"
  using decode_short[OF assms(1-3)] decode_altered[OF assms(1,2,4,5)] by blast

lemma wire_errors_are_told_apart_witness:
  "decode wire_digest [0x43, 0x41, 0x52, 0x44, 0, 1, 3, 0, 1, 0, 0, 0, 7, 0, 0, 0]
     = Inl (ShortFrameError 16 17)"
proof -
  let ?f = "\<lparr> fr_version = VERSION_1_0, fr_type = msg_type_code Msg_Ping, fr_payload = [7] \<rparr>"
  let ?bs = "[0x43, 0x41, 0x52, 0x44, 0, 1, 3, 0, 1, 0, 0, 0, 7, 0, 0, 0, 7] :: byte list"
  have e: "encode wire_digest ?f = Inr ?bs" by code_simp
  have q: "checksumOf wire_digest [8] \<noteq> checksumOf wire_digest (fr_payload ?f)" by code_simp
  have "decode wire_digest (take 16 ?bs) = Inl (ShortFrameError (int 16) 17)"
    using wire_errors_are_told_apart[OF length_wire_digest e _ _ q, of 16] by simp
  then show ?thesis by simp
qed

end
