(* ===== verification/Client.thy ===== *)
theory Client
  imports Transcript_Tools Wire
begin

text \<open>
  \<open>apps/client-web/src/store.ts\<close>: the table store of the browser client. The module variables
  \<open>nonceCounter\<close> and \<open>relay\<close> are fields of the store; \<open>ts_sent\<close> lists the actions handed to
  \<open>relay.sendAction\<close>. An operation returns the new store and, when an exception reaches its caller, that
  exception. Of \<open>lastError\<close> the code is kept (not the clock reading and the message). The asynchronous
  \<open>connect\<close> is split where it waits: \<open>connect_begin\<close> runs up to the \<open>await\<close>, \<open>connect_done\<close> and
  \<open>connect_failed\<close> are its two continuations. \<open>JSON.parse\<close> with the cast that follows it is a parameter:
  \<open>parse_state\<close> and \<open>parse_error\<close> are absent where it throws.
\<close>

section \<open>Constants\<close>

definition GAME_ID :: game_id where
  "GAME_ID = replicate 62 CHR ''0'' @ ''aa''"

definition RULE_HASH :: rule_set_hash where
  "RULE_HASH = replicate 64 CHR ''b''"

definition RECOVERY_DEADLINE :: block_height where
  "RECOVERY_DEADLINE = 244"

definition PUB_0 :: pubkey33 where
  "PUB_0 = ''02'' @ concat (replicate 32 ''00'')"

definition PUB_1 :: pubkey33 where
  "PUB_1 = ''02'' @ concat (replicate 32 ''01'')"

definition store_rules :: rule_set where
  "store_rules = \<lparr>
     game_type = In_between, player_count_min = 2, player_count_max = 4, stake_amount = 1000,
     min_bet = 1, max_bet = 100, decision_timeout_blocks = 6, recovery_timeout_blocks = 144,
     invitation_window_blocks = 18, default_action_by_state = [(''S8_BET_DECISION'', ''pass'')],
     penalty_schedule = \<lparr> non_reveal = 100, bad_reveal = 200, consecutive_cards = 50, equal_cards = 100 \<rparr>,
     deck_format = 52, shuffle_algorithm_version = 1,
     settlement_rules = \<lparr> in_between_win_multiplier = 1, in_between_loss_multiplier = 1,
       consecutive_cards_penalty = 50, equal_cards_penalty = 100 \<rparr>,
     recovery_rules = \<lparr> refund_stakes_to_funders = True, apply_non_reveal_penalty = True,
       apply_bad_reveal_penalty = True \<rparr>,
     serialisation_version = 1 \<rparr>"

definition startState :: round_state where
  "startState = initialState GAME_ID RULE_HASH RECOVERY_DEADLINE"

definition pubkeyForSeat :: "seat \<Rightarrow> pubkey33" where
  "pubkeyForSeat st = (if st = 0 then PUB_0 else PUB_1)"

section \<open>The store\<close>

datatype connection_mode = Offline | Connecting | Online | Errored

record table_store =
  ts_state :: round_state
  ts_ruleSet :: rule_set
  ts_height :: block_height
  ts_lastError :: "error_code option"
  ts_settlement :: "settlement_result option"
  ts_connection :: connection_mode
  ts_relayUrl :: "string option"
  ts_nonce :: nat
  ts_relay :: bool
  ts_sent :: "signed_action list"

type_synonym store_op = "table_store \<Rightarrow> table_store \<times> failure option"

definition empty_store :: table_store where
  "empty_store = \<lparr> ts_state = startState, ts_ruleSet = store_rules, ts_height = 100,
     ts_lastError = None, ts_settlement = None, ts_connection = Offline, ts_relayUrl = None,
     ts_nonce = 0, ts_relay = False, ts_sent = [] \<rparr>"

text \<open>\<open>reset\<close> leaves what was already sent alone.\<close>

definition reset :: store_op where
  "reset st = (empty_store\<lparr> ts_sent := ts_sent st \<rparr>, None)"

definition setHeight :: "int \<Rightarrow> store_op" where
  "setHeight h st = (case asBlockHeight h of Inl e \<Rightarrow> (st, Some e) | Inr v \<Rightarrow> (st\<lparr> ts_height := v \<rparr>, None))"

definition connect_begin :: "string \<Rightarrow> store_op" where
  "connect_begin url st =
     (st\<lparr> ts_relay := True, ts_connection := Connecting, ts_relayUrl := Some url \<rparr>, None)"

definition connect_done :: store_op where
  "connect_done st = (st\<lparr> ts_connection := Online \<rparr>, None)"

definition connect_failed :: store_op where
  "connect_failed st = (st\<lparr> ts_connection := Errored, ts_lastError := Some STATE_NOT_FOUND \<rparr>, None)"

definition disconnect :: store_op where
  "disconnect st = (st\<lparr> ts_relay := False, ts_connection := Offline, ts_relayUrl := None \<rparr>, None)"

definition store_apply :: "signed_action \<Rightarrow> bool \<Rightarrow> store_op" where
  "store_apply a computeSettle st =
     (if ts_relay st then (st\<lparr> ts_sent := ts_sent st @ [a] \<rparr>, None)
      else case applyAction (ts_state st) a (ts_ruleSet st) (ts_height st) of
          Inl (Rejected c) \<Rightarrow> (st\<lparr> ts_lastError := Some c \<rparr>, None)
        | Inl e \<Rightarrow> (st, Some e)
        | Inr nxt \<Rightarrow>
            if computeSettle \<and> state_class (ts_state st) = S10_SETTLED_ROUND
            then (case computeSettlement (ts_state st) (ts_ruleSet st) of
                Inl (Thrown f) \<Rightarrow> (st, Some (Thrown f))
              | Inl (Rejected _) \<Rightarrow> (st\<lparr> ts_state := nxt, ts_lastError := None \<rparr>, None)
              | Inr r \<Rightarrow> (st\<lparr> ts_state := nxt, ts_lastError := None, ts_settlement := Some r \<rparr>, None))
            else (st\<lparr> ts_state := nxt, ts_lastError := None \<rparr>, None))"

text \<open>The failure of \<open>relay.sendAction\<close>, later.\<close>

definition send_failed :: store_op where
  "send_failed st = (st\<lparr> ts_lastError := Some STATE_NOT_FOUND \<rparr>, None)"

text \<open>An action with the next nonce; the payload may throw after the counter was advanced.\<close>

definition submit :: "seat option \<Rightarrow> action_payload result \<Rightarrow> bool \<Rightarrow> store_op" where
  "submit seat_of p computeSettle st =
     (let n = Suc (ts_nonce st); st' = st\<lparr> ts_nonce := n \<rparr>
      in case p of
           Inl e \<Rightarrow> (st', Some e)
         | Inr pl \<Rightarrow> store_apply \<lparr>
             act_game_id = round_state.game_id (ts_state st), act_round_number = 0,
             referenced_state_hash = replicate 64 CHR ''0'', action_nonce = nonce_text n,
             act_seat = seat_of, authorising_signature = ''sig'',
             successor_state_commitment = replicate 64 CHR ''0'', payload = pl \<rparr> computeSettle st')"

definition seatJoin :: "seat \<Rightarrow> store_op" where
  "seatJoin st s = submit (Some st) (ok (Join_Payload (pubkeyForSeat st) (stake_amount (ts_ruleSet s)))) False s"

definition tableLock :: store_op where
  "tableLock = submit None (ok TableLock_Payload) False"

definition entropyCommit :: "seat \<Rightarrow> store_op" where
  "entropyCommit st = submit (Some st) (ok (EntropyCommit_Payload (concat (replicate 32 ''11'')))) False"

definition entropyReveal :: "seat \<Rightarrow> store_op" where
  "entropyReveal st = submit (Some st) (ok (EntropyReveal_Payload (concat (replicate 32 ''22'')))) False"

definition revealCard :: "int \<Rightarrow> store_op" where
  "revealCard ord = submit None (res_bind (cardFromOrdinal ord) (\<lambda>c. ok (CardReveal_Payload
     \<lparr> proof_position = ord, proof_card = c, proof_card_nonce = concat (replicate 32 ''33''),
       proof_deck_nonce = concat (replicate 32 ''44'') \<rparr>))) False"

definition acting_or_zero :: "table_store \<Rightarrow> seat" where
  "acting_or_zero st = (case acting_player_seat (ts_state st) of None \<Rightarrow> 0 | Some s \<Rightarrow> s)"

definition placeBet :: "satoshis \<Rightarrow> store_op" where
  "placeBet amount st = submit (Some (acting_or_zero st)) (ok (Bet_Payload amount)) False st"

definition store_pass :: store_op where
  "store_pass st = submit (Some (acting_or_zero st)) (ok Pass_Payload) False st"

definition store_settle :: "seat \<Rightarrow> store_op" where
  "store_settle st = submit (Some st) (ok Settle_Payload) True"

section \<open>Events of the relay\<close>

datatype relay_event =
    Relay_Open
  | Relay_Close
  | Relay_Error
  | Relay_Frame frame

definition handleFrame ::
  "(byte list \<Rightarrow> round_state option) \<Rightarrow> (byte list \<Rightarrow> error_code option) \<Rightarrow> frame \<Rightarrow> store_op"
where
  "handleFrame parse_state parse_error f st =
     (if fr_type f = msg_type_code Msg_TableState
      then (case parse_state (fr_payload f) of
              Some nxt \<Rightarrow> (st\<lparr> ts_state := nxt, ts_lastError := None \<rparr>, None)
            | None \<Rightarrow> (st\<lparr> ts_lastError := Some SERIALISATION_ERROR \<rparr>, None))
      else if fr_type f = msg_type_code Msg_ErrorReply
      then (case parse_error (fr_payload f) of
              Some c \<Rightarrow> (st\<lparr> ts_lastError := Some c \<rparr>, None)
            | None \<Rightarrow> (st\<lparr> ts_lastError := Some SERIALISATION_ERROR \<rparr>, None))
      else (st, None))"

definition onRelayEvent ::
  "(byte list \<Rightarrow> round_state option) \<Rightarrow> (byte list \<Rightarrow> error_code option) \<Rightarrow> relay_event \<Rightarrow> store_op"
where
  "onRelayEvent parse_state parse_error ev st =
     (case ev of
        Relay_Open \<Rightarrow> (st\<lparr> ts_connection := Online \<rparr>, None)
      | Relay_Close \<Rightarrow> (st\<lparr> ts_connection := Offline \<rparr>, None)
      | Relay_Error \<Rightarrow> (st\<lparr> ts_connection := Errored, ts_lastError := Some STATE_NOT_FOUND \<rparr>, None)
      | Relay_Frame f \<Rightarrow> handleFrame parse_state parse_error f st)"

section \<open>What can happen to the store\<close>

text \<open>The operations of the user interface, the connection changes and the events of the relay, and the
  stores a sequence of them leads to. A thrown exception leaves the store the operation had set.\<close>

datatype client_event =
    Ev_Reset
  | Ev_SetHeight int
  | Ev_SeatJoin seat
  | Ev_TableLock
  | Ev_EntropyCommit seat
  | Ev_EntropyReveal seat
  | Ev_RevealCard int
  | Ev_PlaceBet satoshis
  | Ev_Pass
  | Ev_Settle seat
  | Ev_ConnectBegin string
  | Ev_ConnectDone
  | Ev_ConnectFailed
  | Ev_Disconnect
  | Ev_SendFailed
  | Ev_Relay relay_event

fun client_op ::
  "(byte list \<Rightarrow> round_state option) \<Rightarrow> (byte list \<Rightarrow> error_code option) \<Rightarrow> client_event \<Rightarrow> store_op"
where
  "client_op _ _ Ev_Reset = reset"
| "client_op _ _ (Ev_SetHeight h) = setHeight h"
| "client_op _ _ (Ev_SeatJoin st) = seatJoin st"
| "client_op _ _ Ev_TableLock = tableLock"
| "client_op _ _ (Ev_EntropyCommit st) = entropyCommit st"
| "client_op _ _ (Ev_EntropyReveal st) = entropyReveal st"
| "client_op _ _ (Ev_RevealCard ord) = revealCard ord"
| "client_op _ _ (Ev_PlaceBet b) = placeBet b"
| "client_op _ _ Ev_Pass = store_pass"
| "client_op _ _ (Ev_Settle st) = store_settle st"
| "client_op _ _ (Ev_ConnectBegin url) = connect_begin url"
| "client_op _ _ Ev_ConnectDone = connect_done"
| "client_op _ _ Ev_ConnectFailed = connect_failed"
| "client_op _ _ Ev_Disconnect = disconnect"
| "client_op _ _ Ev_SendFailed = send_failed"
| "client_op ps pe (Ev_Relay ev) = onRelayEvent ps pe ev"

definition client_run ::
  "(byte list \<Rightarrow> round_state option) \<Rightarrow> (byte list \<Rightarrow> error_code option) \<Rightarrow>
   client_event list \<Rightarrow> table_store \<Rightarrow> table_store"
where
  "client_run ps pe evs st = foldl (\<lambda>s ev. fst (client_op ps pe ev s)) st evs"

fun table_event :: "client_event \<Rightarrow> bool" where
  "table_event (Ev_SeatJoin _) = True"
| "table_event Ev_TableLock = True"
| "table_event (Ev_EntropyCommit _) = True"
| "table_event (Ev_EntropyReveal _) = True"
| "table_event (Ev_RevealCard _) = True"
| "table_event (Ev_PlaceBet _) = True"
| "table_event Ev_Pass = True"
| "table_event (Ev_Settle _) = True"
| "table_event _ = False"

fun local_event :: "client_event \<Rightarrow> bool" where
  "local_event Ev_Reset = True"
| "local_event (Ev_SetHeight _) = True"
| "local_event Ev_Disconnect = True"
| "local_event ev = table_event ev"

section \<open>A client that never connects\<close>

text \<open>What the payloads the client builds do to the class and the round.\<close>

fun client_payload :: "action_payload \<Rightarrow> bool" where
  "client_payload (Join_Payload _ _) = True"
| "client_payload TableLock_Payload = True"
| "client_payload (EntropyCommit_Payload _) = True"
| "client_payload (EntropyReveal_Payload _) = True"
| "client_payload (CardReveal_Payload _) = True"
| "client_payload (Bet_Payload _) = True"
| "client_payload Pass_Payload = True"
| "client_payload Settle_Payload = True"
| "client_payload _ = False"

definition settled_as :: "round_state \<Rightarrow> settlement_result \<Rightarrow> bool" where
  "settled_as s r \<longleftrightarrow> state_class s = S11_ROTATE_TURN \<and> resulting_pot_value r = pot_value s
     \<and> resulting_balances r = map stake_at_risk (players s)
     \<and> Some (sr_acting_player_seat r) = acting_player_seat s"

definition local_store :: "table_store \<Rightarrow> bool" where
  "local_store st \<longleftrightarrow> \<not> ts_relay st \<and> ts_sent st = [] \<and> ts_connection st = Offline
     \<and> ts_ruleSet st = store_rules \<and> reachable store_rules (ts_state st)
     \<and> round_number (ts_state st) = 0
     \<and> state_class (ts_state st) \<notin> {S12_TABLE_CLOSE, RECOVERED}
     \<and> (\<forall>r. ts_settlement st = Some r \<longrightarrow> settled_as (ts_state st) r)"

lemma client_step_class:
  assumes "estep rs h s a s'" and "client_payload (payload a)" and "round_number s = 0"
    and "state_class s \<notin> {S12_TABLE_CLOSE, RECOVERED}"
  shows "round_number s' = 0 \<and> state_class s' \<notin> {S12_TABLE_CLOSE, RECOVERED}
    \<and> state_class s \<noteq> S11_ROTATE_TURN"
  using assms
proof (cases rule: estep.cases)
  case (card r c)
  then show ?thesis using assms(3) reveal_class_cases[OF card(4)] by auto
qed (auto split: if_splits)

lemma preview_settled:
  assumes "computeSettlement s rs = ok r" and "applySettle s rs = ok s'"
  shows "settled_as s' r"
  using assms unfolding computeSettlement_ok_iff applySettle_ok_iff settled_as_def by force

lemma local_apply:
  assumes st: "local_store st" and p: "client_payload (payload a)"
    and c: "computeSettle \<longrightarrow> payload a = Settle_Payload"
  shows "local_store (fst (store_apply a computeSettle st))"
proof (cases "applyAction (ts_state st) a (ts_ruleSet st) (ts_height st)")
  case (Inl e)
  then show ?thesis using st by (cases e) (auto simp: store_apply_def local_store_def)
next
  case (Inr nxt)
  let ?s = "ts_state st"
  note old = st[unfolded local_store_def]
  have acc: "applyAction ?s a store_rules (ts_height st) = ok nxt" using Inr old by simp
  then have step: "estep store_rules (ts_height st) ?s a nxt" by (simp add: applyAction_iff_estep)
  have "reachable store_rules nxt" using reachable.step[OF _ acc] old by simp
  moreover have cls: "round_number nxt = 0" "state_class nxt \<notin> {S12_TABLE_CLOSE, RECOVERED}"
    "state_class ?s \<noteq> S11_ROTATE_TURN"
    using client_step_class[OF step p] old by auto
  moreover have none: "ts_settlement st = None"
    using old cls(3) by (cases "ts_settlement st") (auto simp: settled_as_def)
  moreover have "settled_as nxt r" if "computeSettlement ?s store_rules = ok r" "computeSettle" for r
  proof (rule preview_settled[OF that(1)])
    show "applySettle ?s store_rules = ok nxt"
      using acc c that(2) by (auto simp: applyAction_def split: if_splits)
  qed
  ultimately show ?thesis
    using old Inr by (auto simp: store_apply_def local_store_def split: sum.splits failure.splits)
qed

lemma local_submit:
  assumes "local_store st" and "\<And>pl. p = ok pl \<Longrightarrow> client_payload pl"
    and "c \<longrightarrow> p = ok Settle_Payload"
  shows "local_store (fst (submit seat_of p c st))"
proof (cases p)
  case (Inl e)
  then show ?thesis using assms(1) by (simp add: submit_def local_store_def)
next
  case (Inr pl)
  have "local_store (st\<lparr> ts_nonce := n \<rparr>)" for n using assms(1) by (simp add: local_store_def)
  then show ?thesis unfolding submit_def Let_def Inr
    using assms(2)[OF Inr] assms(3) Inr by (auto intro!: local_apply)
qed

lemma local_start: "ts_sent st = [] \<Longrightarrow> local_store (empty_store\<lparr> ts_sent := ts_sent st \<rparr>)"
  by (simp add: local_store_def empty_store_def startState_def reachable.start)
     (simp add: initialState_def)

lemmas table_op_defs = seatJoin_def tableLock_def entropyCommit_def entropyReveal_def
  revealCard_def placeBet_def store_pass_def store_settle_def

lemma local_step:
  assumes st: "local_store st" and ev: "local_event ev"
  shows "local_store (fst (client_op ps pe ev st))"
proof (cases "table_event ev")
  case True
  show ?thesis
    using True by (cases ev) (auto simp: table_op_defs res_bind_eq_Inr intro!: local_submit st)
next
  case False
  have "local_store (fst (reset st))"
    using st local_start[of st] by (simp add: reset_def local_store_def)
  moreover have "local_store (fst (setHeight h st))" for h
    using st by (auto simp: setHeight_def local_store_def split: sum.splits)
  moreover have "local_store (fst (disconnect st))"
    using st by (simp add: disconnect_def local_store_def)
  ultimately show ?thesis using False ev by (cases ev) auto
qed

lemma local_run:
  "local_store st \<Longrightarrow> \<forall>ev \<in> set evs. local_event ev \<Longrightarrow> local_store (client_run ps pe evs st)"
  by (induction evs arbitrary: st) (auto simp: client_run_def local_step)

text \<open>C35. A client that never connects plays exactly one round of the reference game: whatever the user
  presses, in whatever order, with resets, disconnects and height changes between, no action leaves the
  client; its state is reachable from a fresh table under the client's rules, is in round 0 and is never a
  closed or recovered table (the client has no control for \<open>RotateTurn\<close>, \<open>TableClose\<close>, \<open>Fold\<close>,
  \<open>Timeout\<close> or \<open>Recovery\<close>); and a settlement it shows is that of the state it shows: same pot, same
  balances, same acting seat, in the state the settlement led to.\<close>
theorem offline_client_plays_one_round:
  assumes "\<forall>ev \<in> set evs. local_event ev" and "client_run ps pe evs empty_store = st"
  shows "reachable store_rules (ts_state st) \<and> round_number (ts_state st) = 0
    \<and> state_class (ts_state st) \<notin> {S12_TABLE_CLOSE, RECOVERED} \<and> ts_sent st = []
    \<and> (\<forall>r. ts_settlement st = Some r \<longrightarrow> settled_as (ts_state st) r)"
proof -
  have "local_store (empty_store\<lparr> ts_sent := ts_sent empty_store \<rparr>)"
    by (rule local_start) (simp add: empty_store_def)
  then have "local_store empty_store" by simp
  from local_run[OF this assms(1), of ps pe] show ?thesis
    unfolding assms(2) by (simp add: local_store_def)
qed

definition offline_round :: "client_event list" where
  "offline_round = [Ev_SeatJoin 0, Ev_SeatJoin 1, Ev_TableLock, Ev_EntropyCommit 0, Ev_EntropyCommit 1,
     Ev_EntropyReveal 0, Ev_EntropyReveal 1, Ev_RevealCard 0, Ev_RevealCard 8, Ev_PlaceBet 100,
     Ev_RevealCard 17, Ev_SetHeight 101, Ev_Settle 0]"

lemma offline_round_plays:
  "let st = client_run (\<lambda>_. None) (\<lambda>_. None) offline_round empty_store
   in state_class (ts_state st) = S11_ROTATE_TURN \<and> map stake_at_risk (players (ts_state st)) = [1100, 1000]
    \<and> map_option resulting_balances (ts_settlement st) = Some [1100, 1000]"
  unfolding offline_round_def by code_simp

lemma offline_client_plays_one_round_witness:
  "\<exists>st r. client_run (\<lambda>_. None) (\<lambda>_. None) offline_round empty_store = st
     \<and> ts_settlement st = Some r \<and> settled_as (ts_state st) r \<and> resulting_balances r = [1100, 1000]"
proof -
  let ?st = "client_run (\<lambda>_. None) (\<lambda>_. None) offline_round empty_store"
  have "\<forall>ev \<in> set offline_round. local_event ev" by (simp add: offline_round_def)
  then have "\<forall>r. ts_settlement ?st = Some r \<longrightarrow> settled_as (ts_state ?st) r"
    using offline_client_plays_one_round[of offline_round "\<lambda>_. None" "\<lambda>_. None" ?st] by blast
  moreover obtain r where "ts_settlement ?st = Some r" "resulting_balances r = [1100, 1000]"
    using offline_round_plays unfolding Let_def by (auto simp: map_option_eq_Some)
  ultimately show ?thesis by blast
qed

section \<open>A connected client\<close>

fun mirror_event :: "client_event \<Rightarrow> bool" where
  "mirror_event (Ev_SetHeight _) = True"
| "mirror_event Ev_ConnectDone = True"
| "mirror_event Ev_ConnectFailed = True"
| "mirror_event Ev_SendFailed = True"
| "mirror_event (Ev_Relay _) = True"
| "mirror_event ev = table_event ev"

text \<open>The states the relay sent, oldest first.\<close>

fun relayed_state :: "(byte list \<Rightarrow> round_state option) \<Rightarrow> client_event \<Rightarrow> round_state list" where
  "relayed_state ps (Ev_Relay (Relay_Frame f)) =
     (if fr_type f = msg_type_code Msg_TableState
      then (case ps (fr_payload f) of None \<Rightarrow> [] | Some s \<Rightarrow> [s]) else [])"
| "relayed_state ps _ = []"

definition mirrors :: "round_state list \<Rightarrow> table_store \<Rightarrow> table_store \<Rightarrow> bool" where
  "mirrors states st st' \<longleftrightarrow> ts_relay st' \<and> ts_state st' = last (ts_state st # states)
     \<and> ts_settlement st' = ts_settlement st \<and> ts_nonce st \<le> ts_nonce st'
     \<and> (\<exists>acts ns. ts_sent st' = ts_sent st @ acts \<and> map action_nonce acts = map nonce_text ns
          \<and> sorted_wrt (<) ns \<and> set ns \<subseteq> {ts_nonce st <.. ts_nonce st'})"

lemma mirrors_trans:
  assumes "mirrors xs s1 s2" and "mirrors ys s2 s3"
  shows "mirrors (xs @ ys) s1 s3"
proof -
  obtain as1 n1 as2 n2 where
    "ts_sent s2 = ts_sent s1 @ as1" "map action_nonce as1 = map nonce_text n1" "sorted_wrt (<) n1"
    "set n1 \<subseteq> {ts_nonce s1 <.. ts_nonce s2}"
    "ts_sent s3 = ts_sent s2 @ as2" "map action_nonce as2 = map nonce_text n2" "sorted_wrt (<) n2"
    "set n2 \<subseteq> {ts_nonce s2 <.. ts_nonce s3}"
    using assms by (auto simp: mirrors_def)
  moreover have "ts_nonce s1 \<le> ts_nonce s2" "ts_nonce s2 \<le> ts_nonce s3"
    using assms by (simp_all add: mirrors_def)
  ultimately have "ts_sent s3 = ts_sent s1 @ as1 @ as2"
    "map action_nonce (as1 @ as2) = map nonce_text (n1 @ n2)" "sorted_wrt (<) (n1 @ n2)"
    "set (n1 @ n2) \<subseteq> {ts_nonce s1 <.. ts_nonce s3}"
    by (auto simp: sorted_wrt_append subset_iff intro: le_less_trans)
  moreover have "last (ts_state s1 # xs @ ys) = last (last (ts_state s1 # xs) # ys)"
    by (cases ys; cases xs) auto
  ultimately show ?thesis using assms unfolding mirrors_def by (metis order_trans)
qed

lemma mirrors_same:
  "ts_relay st \<Longrightarrow> ts_settlement st' = ts_settlement st \<Longrightarrow> ts_nonce st \<le> ts_nonce st' \<Longrightarrow>
   ts_sent st' = ts_sent st \<Longrightarrow> ts_relay st' = ts_relay st \<Longrightarrow>
   ts_state st' = last (ts_state st # states) \<Longrightarrow> mirrors states st st'"
  by (auto simp: mirrors_def intro: exI[where x = "[]"])

lemma mirrors_submit: "ts_relay st \<Longrightarrow> mirrors [] st (fst (submit seat_of p c st))"
proof (cases p)
  case (Inr pl)
  assume "ts_relay st"
  then show ?thesis unfolding mirrors_def
    by (auto simp: submit_def store_apply_def Inr Let_def intro!: exI[where x = "[Suc (ts_nonce st)]"])
qed (auto simp: submit_def intro!: mirrors_same)

lemma mirrors_step:
  assumes st: "ts_relay st" and ev: "mirror_event ev"
  shows "mirrors (relayed_state ps ev) st (fst (client_op ps pe ev st))"
proof (cases "table_event ev")
  case True
  then show ?thesis by (cases ev) (simp_all add: table_op_defs mirrors_submit[OF st])
next
  case False
  have "mirrors (relayed_state ps (Ev_Relay e)) st (fst (onRelayEvent ps pe e st))" for e
    by (cases e; rule mirrors_same[OF st])
       (auto simp: onRelayEvent_def handleFrame_def split: option.splits)
  moreover have "mirrors [] st (fst (setHeight h st))" for h
    by (rule mirrors_same[OF st]) (auto simp: setHeight_def split: sum.splits)
  ultimately show ?thesis using False ev
    by (cases ev) (auto intro!: mirrors_same[OF st] simp: connect_done_def connect_failed_def send_failed_def)
qed

text \<open>C36. A connected client is a mirror of the relay: while its relay object is set, no operation of the
  user interface and no failure changes the table state or the settlement. The state shown is the last one
  a \<open>TableState\<close> frame carried (the state at the start if there was none), and the actions are handed to
  the relay in the order the user took them, each under a nonce above all earlier ones.\<close>
theorem connected_client_mirrors_relay:
  assumes "ts_relay st" and "\<forall>ev \<in> set evs. mirror_event ev" and "client_run ps pe evs st = st'"
  shows "ts_state st' = last (ts_state st # concat (map (relayed_state ps) evs))
    \<and> ts_settlement st' = ts_settlement st
    \<and> (\<exists>acts ns. ts_sent st' = ts_sent st @ acts \<and> map action_nonce acts = map nonce_text ns
         \<and> sorted_wrt (<) ns \<and> set ns \<subseteq> {ts_nonce st <.. ts_nonce st'})"
proof -
  have "mirrors (concat (map (relayed_state ps) evs)) st (client_run ps pe evs st)"
    using assms(1,2)
  proof (induction evs arbitrary: st)
    case Nil
    then show ?case by (simp add: client_run_def mirrors_same)
  next
    case (Cons ev evs)
    let ?st = "fst (client_op ps pe ev st)"
    have step: "mirrors (relayed_state ps ev) st ?st" using mirrors_step Cons.prems by simp
    then have "ts_relay ?st" by (simp add: mirrors_def)
    from mirrors_trans[OF step Cons.IH[OF this]] Cons.prems show ?case by (simp add: client_run_def)
  qed
  then show ?thesis unfolding assms(3) by (simp add: mirrors_def)
qed

lemma connected_client_mirrors_relay_witness:
  "ts_state (client_run (\<lambda>_. Some (startState\<lparr> pot_value := 7 \<rparr>)) (\<lambda>_. None)
      [Ev_SeatJoin 0, Ev_Relay (Relay_Frame \<lparr> fr_version = 1, fr_type = msg_type_code Msg_TableState,
         fr_payload = [] \<rparr>), Ev_Pass]
      (fst (connect_begin ''ws'' empty_store))) = startState\<lparr> pot_value := 7 \<rparr>"
  using connected_client_mirrors_relay[OF _ _ refl, of "fst (connect_begin ''ws'' empty_store)"
      "[Ev_SeatJoin 0, Ev_Relay (Relay_Frame \<lparr> fr_version = 1, fr_type = msg_type_code Msg_TableState,
         fr_payload = [] \<rparr>), Ev_Pass]" "\<lambda>_. Some (startState\<lparr> pot_value := 7 \<rparr>)" "\<lambda>_. None"]
  by (simp add: connect_begin_def)

end
