(* ===== verification/Typing.thy ===== *)
theory Typing
  imports Client
begin

text \<open>
  The branded types of \<open>primitives.ts\<close> as predicates on the values that carry the brands, over the
  interfaces of \<open>player.ts\<close>, \<open>cards.ts\<close>, \<open>actions.ts\<close>, \<open>game-state.ts\<close>, \<open>rule-set.ts\<close> and
  \<open>settlement.ts\<close>. A value has a brand when its validating constructor returns it. The engine asserts
  brands with casts in several places; this theory shows which of them its states really carry.
\<close>

section \<open>Brands\<close>

definition is_hash :: "string \<Rightarrow> bool" where
  "is_hash h \<longleftrightarrow> asHash256 h = ok h"

definition is_key :: "string \<Rightarrow> bool" where
  "is_key h \<longleftrightarrow> asPubkey33 h = ok h"

definition is_height :: "int \<Rightarrow> bool" where
  "is_height n \<longleftrightarrow> asBlockHeight n = ok n"

definition is_seat :: "int \<Rightarrow> bool" where
  "is_seat n \<longleftrightarrow> asSeat n = ok n"

definition is_satoshis :: "int \<Rightarrow> bool" where
  "is_satoshis n \<longleftrightarrow> asSatoshis n = ok n"

definition is_player_id :: "string \<Rightarrow> bool" where
  "is_player_id h \<longleftrightarrow> asPlayerId h = ok h"

lemma brand_iff:
  "is_hash h \<longleftrightarrow> hex_string 64 h" "is_key h \<longleftrightarrow> compressed_pubkey_hex h" "is_seat n \<longleftrightarrow> safe_nat n"
  "is_satoshis n \<longleftrightarrow> safe_nat n" "is_player_id h \<longleftrightarrow> hex_string 64 h"
  "asGameId h = ok g \<longleftrightarrow> hex_string 64 h \<and> g = h" "asRuleSetHash h = ok g \<longleftrightarrow> hex_string 64 h \<and> g = h"
  "asActionNonce h = ok g \<longleftrightarrow> hex_string 64 h \<and> g = h" "asRoundNumber n = ok k \<longleftrightarrow> safe_nat n \<and> k = n"
  "asBlockHeight n = ok k \<longleftrightarrow> is_height n \<and> k = n"
  by (auto simp: is_hash_def is_key_def is_seat_def is_satoshis_def is_player_id_def is_height_def
        asHash256_def asPubkey33_def asPlayerId_def asGameId_def asRuleSetHash_def asActionNonce_def
        asBlockHeight_def number_constructors)

section \<open>The interfaces\<close>

definition typed_rules :: "rule_set \<Rightarrow> bool" where
  "typed_rules rs \<longleftrightarrow> is_satoshis (stake_amount rs) \<and> is_satoshis (min_bet rs) \<and> is_satoshis (max_bet rs)"

text \<open>A player without its \<open>player_id\<close>.\<close>

definition typed_player :: "player_state \<Rightarrow> bool" where
  "typed_player p \<longleftrightarrow> is_seat (seat p) \<and> is_key (value_signing_pubkey p) \<and> is_satoshis (stake_at_risk p)
     \<and> pred_option is_hash (entropy_commitment_hash p) \<and> pred_option is_hash (entropy_value p)"

definition typed_concealed :: "concealed_card \<Rightarrow> bool" where
  "typed_concealed c \<longleftrightarrow> is_hash (card_commitment (commitment c)) \<and> is_hash (card_nonce (commitment c))
     \<and> is_key (holder_pubkey c)"

definition typed_state :: "round_state \<Rightarrow> bool" where
  "typed_state s \<longleftrightarrow> asGameId (game_id s) = ok (game_id s)
     \<and> asRuleSetHash (rule_set_hash s) = ok (rule_set_hash s)
     \<and> asRoundNumber (round_number s) = ok (round_number s)
     \<and> pred_option is_seat (acting_player_seat s)
     \<and> list_all typed_player (players s) \<and> is_satoshis (pot_value s)
     \<and> list_all is_hash (hidden_commitment_refs s)
     \<and> pred_option is_height (decision_deadline_block_height s)
     \<and> pred_option is_height (recovery_deadline_block_height s)
     \<and> list_all is_hash (successor_template_hashes s)
     \<and> pred_option is_hash (combined_entropy s) \<and> pred_option is_hash (deck_commitment_hash s)
     \<and> pred_option (list_all typed_concealed) (concealed_deck s)
     \<and> pred_option is_hash (prior_state_hash s) \<and> is_hash (state_hash s)"

fun typed_payload :: "action_payload \<Rightarrow> bool" where
  "typed_payload (Join_Payload pk stake) \<longleftrightarrow> is_key pk \<and> is_satoshis stake"
| "typed_payload (EntropyCommit_Payload h) \<longleftrightarrow> is_hash h"
| "typed_payload (EntropyReveal_Payload h) \<longleftrightarrow> is_hash h"
| "typed_payload (CardReveal_Payload r) \<longleftrightarrow> is_hash (proof_card_nonce r) \<and> is_hash (proof_deck_nonce r)"
| "typed_payload (DealConcealed_Payload cs) \<longleftrightarrow> list_all typed_concealed cs"
| "typed_payload (Bet_Payload b) \<longleftrightarrow> is_satoshis b"
| "typed_payload (Timeout_Payload d st) \<longleftrightarrow> is_seat st"
| "typed_payload _ \<longleftrightarrow> True"

definition typed_action :: "signed_action \<Rightarrow> bool" where
  "typed_action a \<longleftrightarrow> asGameId (act_game_id a) = ok (act_game_id a)
     \<and> asRoundNumber (act_round_number a) = ok (act_round_number a)
     \<and> is_hash (referenced_state_hash a) \<and> asActionNonce (action_nonce a) = ok (action_nonce a)
     \<and> pred_option is_seat (act_seat a) \<and> is_hash (successor_state_commitment a)
     \<and> typed_payload (payload a)"

definition typed_result :: "settlement_result \<Rightarrow> bool" where
  "typed_result r \<longleftrightarrow> is_hash (round_state_hash r) \<and> is_satoshis (sr_bet_amount r)
     \<and> is_seat (sr_acting_player_seat r) \<and> is_satoshis (amount_won_or_lost r)
     \<and> is_satoshis (resulting_pot_value r) \<and> list_all is_satoshis (resulting_balances r)"

section \<open>Preservation\<close>

lemma list_all_update: "list_all P xs \<Longrightarrow> P x \<Longrightarrow> list_all P (xs[i := x])"
  unfolding list_all_iff by (rule ball_list_updateI)

lemma typed_nth: "list_all typed_player ps \<Longrightarrow> find_index Q ps = Some i \<Longrightarrow> typed_player (ps ! i)"
  using find_index_in_set by (fastforce simp: list_all_iff)

lemma typed_joined:
  "is_seat st \<Longrightarrow> is_key pk \<Longrightarrow> is_satoshis stake \<Longrightarrow> typed_player (joined_player st pk stake)"
  by (simp add: typed_player_def joined_player_def)

lemma typed_surrender: "typed_concealed c \<Longrightarrow> typed_concealed (surrender_card pk c)"
  by (simp add: surrender_card_def typed_concealed_def)

lemma typed_credit:
  "typed_player p \<Longrightarrow> (seat p = acting \<Longrightarrow> is_satoshis (stake_at_risk p + d)) \<Longrightarrow> typed_player (credit acting d p)"
  by (auto simp: credit_def typed_player_def)

lemma typed_start:
  assumes "asGameId g = ok gid" and "asRuleSetHash h = ok rsh" and "asBlockHeight n = ok dl"
  shows "typed_state (initialState gid rsh dl)"
  using assms
  by (simp add: typed_state_def initialState_def brand_iff ZERO_HASH_def hex_string_replicate)

lemma typed_reveal_actor: "typed_state s \<Longrightarrow> pred_option is_seat (reveal_actor s)"
  by (cases "players s") (auto simp: reveal_actor_def typed_state_def typed_player_def)

lemma typed_next_seat:
  assumes "list_all typed_player ps" and "ps \<noteq> []"
  shows "is_seat (next_seat (sort (map seat ps)) acting)"
proof -
  have "sort (map seat ps) \<noteq> []" using assms(2) by (metis length_0_conv length_map length_sort)
  then have "next_seat (sort (map seat ps)) acting \<in> seat ` set ps"
    using next_seat_in by fastforce
  then show ?thesis using assms(1) by (auto simp: list_all_iff typed_player_def)
qed

text \<open>What an accepted step does to the fields that steps change.\<close>

definition typed_varying :: "round_state \<Rightarrow> bool" where
  "typed_varying s \<longleftrightarrow> safe_nat (round_number s) \<and> pred_option is_seat (acting_player_seat s)
     \<and> list_all typed_player (players s) \<and> is_satoshis (pot_value s)
     \<and> pred_option (list_all typed_concealed) (concealed_deck s)"

lemma typed_varying_estep:
  assumes step: "estep rs h s a s'" and s: "typed_state s" and a: "typed_payload (payload a)"
    and rs: "typed_rules rs"
  shows "typed_varying s'"
proof -
  have old: "typed_varying s" using s by (simp add: typed_state_def typed_varying_def brand_iff)
  note pl = old[unfolded typed_varying_def, THEN conjunct2, THEN conjunct2, THEN conjunct1]
  show ?thesis using step
  proof (cases rule: estep.cases)
    case (join pk)
    then have "typed_player (joined_player (join_seat s a) pk (stake_amount rs))"
      using a rs by (intro typed_joined) (simp_all add: typed_rules_def brand_iff)
    then show ?thesis using old join by (simp add: typed_varying_def)
  next
    case (commit ch st i ps c)
    then have "list_all typed_player ps"
      unfolding commit(8) using a by (intro list_all_update[OF pl])
        (use typed_nth[OF pl commit(6)] in \<open>simp_all add: typed_player_def\<close>)
    then show ?thesis using old commit by (simp add: typed_varying_def)
  next
    case (reveal e st i ps c)
    then have "list_all typed_player ps"
      unfolding reveal(9) using a by (intro list_all_update[OF pl])
        (use typed_nth[OF pl reveal(6)] in \<open>simp_all add: typed_player_def\<close>)
    then show ?thesis using old reveal by (simp add: typed_varying_def)
  next
    case (card r c)
    then show ?thesis using old typed_reveal_actor[OF s] by (simp add: typed_varying_def)
  next
    case (deal cs)
    then show ?thesis using old a by (simp add: typed_varying_def)
  next
    case (surrender st deck i pk ps)
    then have "list_all typed_player ps"
      by (simp only: surrender) (intro list_all_update[OF pl],
          use typed_nth[OF pl surrender(7)] in \<open>simp add: typed_player_def\<close>)
    moreover have "list_all typed_concealed (map (surrender_card pk) deck)"
      using old surrender by (auto simp: typed_varying_def list_all_iff intro: typed_surrender)
    ultimately show ?thesis using old surrender by (simp add: typed_varying_def)
  next
    case (settle acting oc t pd qd)
    then have "list_all typed_player (map (credit acting pd) (players s))"
      using pl by (auto simp: list_all_iff brand_iff intro!: typed_credit)
    then show ?thesis using old settle by (simp add: typed_varying_def brand_iff)
  next
    case (rotate seats n)
    then have "is_seat n" using typed_next_seat[OF pl] by fastforce
    then show ?thesis using old rotate by (simp add: typed_varying_def)
  qed (use old in \<open>simp_all add: typed_varying_def brand_iff\<close>)
qed

lemma typed_state_estep:
  assumes "estep rs h s a s'" and "typed_state s" and "typed_payload (payload a)" and "typed_rules rs"
  shows "typed_state s'"
  using typed_varying_estep[OF assms] frame_estep[OF assms(1)] assms(2)
  by (simp add: typed_state_def typed_varying_def brand_iff)

text \<open>The player identifiers are keys, so they are never 32-byte identifiers.\<close>

definition keys_as_ids :: "round_state \<Rightarrow> bool" where
  "keys_as_ids s \<longleftrightarrow> map player_id (players s) = map value_signing_pubkey (players s)"

lemma keys_as_ids_estep: "estep rs h s a s' \<Longrightarrow> keys_as_ids s \<Longrightarrow> keys_as_ids s'"
  by (erule estep_E) (auto simp: keys_as_ids_def joined_player_def credit_def map_list_update_same)

lemma key_no_player_id: "is_key h \<Longrightarrow> \<not> is_player_id h"
  by (auto simp: brand_iff compressed_pubkey_hex_def hex_string_def)

interpretation typed_engine: guarded_machine
  "\<lambda>s i. if typed_payload (payload (fst i)) then engine_step rs s i else throw ''typed_payload''"
  "\<lambda>s. typed_rules rs \<longrightarrow> typed_state s \<and> keys_as_ids s" for rs
  by unfold_locales
     (auto simp: engine_step_iff split: if_splits intro: typed_state_estep keys_as_ids_estep)

lemma typed_run:
  "list_all (typed_payload \<circ> payload \<circ> fst) ins \<Longrightarrow>
   run_machine (\<lambda>s i. if typed_payload (payload (fst i)) then engine_step rs s i else throw ''typed_payload'') s ins
   = run_machine (engine_step rs) s ins"
  by (induction ins arbitrary: s) (auto intro!: res_bind_cong)

lemma typed_settlement:
  assumes s: "typed_state s" and r: "computeSettlement s rs = ok r"
  shows "typed_result r"
proof -
  from r obtain acting oc t pd qd where r:
    "acting_player_seat s = Some acting" "safe_nat (pot_value s + qd)" "safe_nat \<bar>pd\<bar>"
    "\<forall>p \<in> set (players s). seat p = acting \<longrightarrow> safe_nat (stake_at_risk p + pd)"
    "r = \<lparr> round_state_hash = state_hash s, outcome = oc, sr_bet_amount = pot_value s,
           sr_acting_player_seat = acting, amount_won_or_lost = \<bar>pd\<bar>,
           resulting_pot_value = pot_value s + qd,
           resulting_balances = map stake_at_risk (map (credit acting pd) (players s)) \<rparr>"
    unfolding computeSettlement_ok_iff by blast
  then have "list_all typed_player (map (credit acting pd) (players s))"
    using s by (auto simp: list_all_iff typed_state_def brand_iff intro!: typed_credit)
  then have "list_all is_satoshis (map stake_at_risk (map (credit acting pd) (players s)))"
    by (auto simp: list_all_iff typed_player_def)
  then show ?thesis using r s by (simp add: typed_result_def typed_state_def brand_iff)
qed

text \<open>C34. Typed sessions stay typed: from a table opened with validated identifiers and deadline, under
  a rule set with a valid stake, whatever typed actions are accepted at whatever heights, every branded
  field of the state and of the settlement preview holds a value its validating constructor accepts, with
  one exception: the \<open>player_id\<close> of a player is the 33-byte key it joined with, which \<open>asPlayerId\<close> rejects.\<close>
theorem typed_sessions_stay_typed:
  assumes "asGameId g = ok gid" and "asRuleSetHash k = ok rsh" and "asBlockHeight n = ok dl"
    and "typed_rules rs" and "list_all (typed_action \<circ> fst) ins"
    and "run_machine (engine_step rs) (initialState gid rsh dl) ins = ok s"
  shows "typed_state s \<and> (\<forall>r. computeSettlement s rs = ok r \<longrightarrow> typed_result r)
    \<and> (\<forall>p \<in> set (players s). player_id p = value_signing_pubkey p \<and> \<not> is_player_id (player_id p))"
proof -
  have "list_all (typed_payload \<circ> payload \<circ> fst) ins"
    using assms(5) by (auto simp: list_all_iff typed_action_def)
  note run = assms(6)[folded typed_run[OF this]]
  have "typed_state (initialState gid rsh dl) \<and> keys_as_ids (initialState gid rsh dl)"
    using typed_start[OF assms(1-3)] by (simp add: keys_as_ids_def initialState_def)
  then have s: "typed_state s" "keys_as_ids s"
    using typed_engine.run_inv[OF _ run] assms(4) by blast+
  moreover have "is_key (value_signing_pubkey p)" if "p \<in> set (players s)" for p
    using s(1) that by (auto simp: typed_state_def list_all_iff typed_player_def)
  moreover have "player_id p = value_signing_pubkey p" if "p \<in> set (players s)" for p
    using s(2) that by (auto simp: keys_as_ids_def)
  ultimately show ?thesis
    using typed_settlement key_no_player_id by simp
qed

definition typed_demo_action :: "seat option \<Rightarrow> action_payload \<Rightarrow> signed_action \<times> block_height" where
  "typed_demo_action st p = (\<lparr> act_game_id = GAME_ID, act_round_number = 0, referenced_state_hash = ZERO_HASH,
     action_nonce = ZERO_HASH, act_seat = st, authorising_signature = ''sig'',
     successor_state_commitment = ZERO_HASH, payload = p \<rparr>, 100)"

definition typed_demo :: "(signed_action \<times> block_height) list" where
  "typed_demo =
     [typed_demo_action (Some 0) (Join_Payload PUB_0 1000), typed_demo_action (Some 1) (Join_Payload PUB_1 1000),
      typed_demo_action None TableLock_Payload,
      typed_demo_action (Some 1) (EntropyCommit_Payload (concat (replicate 32 ''11'')))]"

lemma typed_sessions_stay_typed_witness:
  "\<exists>s. run_machine (engine_step store_rules) (initialState GAME_ID RULE_HASH RECOVERY_DEADLINE) typed_demo = ok s
     \<and> typed_state s \<and> map (is_player_id \<circ> player_id) (players s) = [False, False]"
proof -
  let ?run = "run_machine (engine_step store_rules) (initialState GAME_ID RULE_HASH RECOVERY_DEADLINE) typed_demo"
  have "case ?run of Inl _ \<Rightarrow> False | Inr s \<Rightarrow> map seat (players s) = [0, 1]" by code_simp
  then obtain s where s: "?run = ok s" "map seat (players s) = [0, 1]" by (cases ?run) auto
  have ids: "asGameId GAME_ID = ok GAME_ID" "asRuleSetHash RULE_HASH = ok RULE_HASH"
    "asBlockHeight RECOVERY_DEADLINE = ok RECOVERY_DEADLINE" "typed_rules store_rules"
    by code_simp+
  have "is_hash ZERO_HASH" "asActionNonce ZERO_HASH = ok ZERO_HASH" "is_key PUB_0" "is_key PUB_1"
    "is_hash (concat (replicate 32 ''11''))" "is_seat 0" "is_seat 1" "is_satoshis 1000"
    "asRoundNumber 0 = ok 0"
    by code_simp+
  then have typed: "list_all (typed_action \<circ> fst) typed_demo"
    using ids(1) by (simp add: typed_demo_def typed_demo_action_def typed_action_def)
  from typed_sessions_stay_typed[OF ids typed s(1)] s show ?thesis
    by (auto simp: map_eq_Cons_conv)
qed

end
