(* ===== verification/Conceal.thy ===== *)
theory Conceal
  imports Canonical
begin

text \<open>
  \<open>packages/crypto-cards/src/conceal.ts\<close>: sealing a card payload for its holder. The curve library
  (\<open>@noble/secp256k1\<close>) and the browser's \<open>SubtleCrypto\<close> are parameters, the fields of \<open>conceal_lib\<close>; the
  fresh private key and the nonce a call draws are arguments. An asynchronous function is its result, a
  rejected promise a thrown failure. \<open>toBuffer\<close> copies its argument, so it is the identity on byte lists.
\<close>

section \<open>The libraries\<close>

record 'k conceal_lib =
  getPublicKey :: "byte list \<Rightarrow> byte list result"
  getSharedSecret :: "byte list \<Rightarrow> byte list \<Rightarrow> byte list result"
  hkdfKey :: "byte list \<Rightarrow> byte list \<Rightarrow> byte list \<Rightarrow> 'k"
  gcmSeal :: "'k \<Rightarrow> byte list \<Rightarrow> byte list \<Rightarrow> byte list"
  gcmOpen :: "'k \<Rightarrow> byte list \<Rightarrow> byte list \<Rightarrow> byte list result"

section \<open>The code\<close>

record concealed_envelope =
  ephemeralPubkey :: "byte list"
  env_nonce :: "byte list"
  env_ciphertext :: "byte list"

definition GCM_NONCE_BYTES :: nat where
  "GCM_NONCE_BYTES = 12"

definition ecdhSharedX :: "'k conceal_lib \<Rightarrow> byte list \<Rightarrow> byte list \<Rightarrow> byte list result" where
  "ecdhSharedX C priv pub = res_bind (getSharedSecret C priv pub) (\<lambda>shared. ok (drop 1 shared))"

definition conceal_salt :: "byte list" where
  "conceal_salt = utf8 ''cardtable/v1/conceal''"

definition deriveAesKey :: "'k conceal_lib \<Rightarrow> byte list \<Rightarrow> byte list \<Rightarrow> byte list \<Rightarrow> 'k" where
  "deriveAesKey C shared ephemeralPub holderPub =
     hkdfKey C shared conceal_salt (ephemeralPub @ holderPub)"

definition encryptForHolder ::
  "'k conceal_lib \<Rightarrow> byte list \<Rightarrow> byte list \<Rightarrow> byte list \<Rightarrow> byte list \<Rightarrow> concealed_envelope result"
where
  "encryptForHolder C ephemeralPriv iv plaintext holderPubkey =
     (if length holderPubkey \<noteq> 33 then throw ''encryptForHolder''
      else res_bind (getPublicKey C ephemeralPriv) (\<lambda>ephemeralPub.
        res_bind (ecdhSharedX C ephemeralPriv holderPubkey) (\<lambda>shared.
          let key = deriveAesKey C shared ephemeralPub holderPubkey
          in ok \<lparr> ephemeralPubkey = ephemeralPub, env_nonce = iv,
                  env_ciphertext = gcmSeal C key iv plaintext \<rparr>)))"

definition decryptForHolder ::
  "'k conceal_lib \<Rightarrow> concealed_envelope \<Rightarrow> byte list \<Rightarrow> byte list result"
where
  "decryptForHolder C envelope holderPriv =
     (if length holderPriv \<noteq> 32 then throw ''decryptForHolder''
      else if length (ephemeralPubkey envelope) \<noteq> 33 then throw ''decryptForHolder''
      else if length (env_nonce envelope) \<noteq> GCM_NONCE_BYTES then throw ''decryptForHolder''
      else res_bind (getPublicKey C holderPriv) (\<lambda>holderPub.
        res_bind (ecdhSharedX C holderPriv (ephemeralPubkey envelope)) (\<lambda>shared.
          let key = deriveAesKey C shared (ephemeralPubkey envelope) holderPub
          in gcmOpen C key (env_nonce envelope) (env_ciphertext envelope))))"

section \<open>What the libraries document\<close>

text \<open>Compressed public keys have 33 bytes; both ends of a key exchange between two valid private keys
  compute the same point; and AES-GCM, which is deterministic once key and nonce are fixed, opens a
  ciphertext to a text exactly if it is the sealing of that text.\<close>

definition library_laws :: "'k conceal_lib \<Rightarrow> bool" where
  "library_laws C \<longleftrightarrow>
     (\<forall>k pub. getPublicKey C k = ok pub \<longrightarrow> length pub = 33) \<and>
     (\<forall>a b pa pb. getPublicKey C a = ok pa \<longrightarrow> getPublicKey C b = ok pb \<longrightarrow>
        (\<exists>pt. getSharedSecret C a pb = ok pt \<and> getSharedSecret C b pa = ok pt)) \<and>
     (\<forall>k iv pt c. gcmOpen C k iv c = ok pt \<longleftrightarrow> c = gcmSeal C k iv pt)"

lemma exchange:
  assumes "library_laws C" and "getPublicKey C a = ok pa" and "getPublicKey C b = ok pb"
  obtains x where "ecdhSharedX C a pb = ok x" and "ecdhSharedX C b pa = ok x"
proof -
  obtain pt where "getSharedSecret C a pb = ok pt" "getSharedSecret C b pa = ok pt"
    using assms unfolding library_laws_def by blast
  then show thesis by (intro that) (simp_all add: ecdhSharedX_def)
qed

text \<open>Two assumptions on the primitives, each about the keys and inputs a statement names. HKDF does not
  collide on the given inputs (shared secret, salt, context); and authenticated encryption fails closed
  between the given keys: what was sealed under one of them does not open under another.\<close>

definition kdf_separates :: "'k conceal_lib \<Rightarrow> (byte list \<times> byte list \<times> byte list) set \<Rightarrow> bool" where
  "kdf_separates C S \<longleftrightarrow> inj_on (\<lambda>(x, salt, info). hkdfKey C x salt info) S"

definition keys_separate :: "'k conceal_lib \<Rightarrow> 'k set \<Rightarrow> bool" where
  "keys_separate C K \<longleftrightarrow> (\<forall>k \<in> K. \<forall>k' \<in> K. k \<noteq> k' \<longrightarrow> (\<forall>iv pt pt'. gcmOpen C k' iv (gcmSeal C k iv pt) \<noteq> ok pt'))"

text \<open>What the code feeds to HKDF for a shared secret and the two public keys.\<close>

definition kdf_input :: "byte list \<Rightarrow> byte list \<Rightarrow> byte list \<Rightarrow> byte list \<times> byte list \<times> byte list" where
  "kdf_input shared ephemeralPub holderPub = (shared, utf8 ''cardtable/v1/conceal'', ephemeralPub @ holderPub)"

lemma sealed_needs_key:
  assumes "kdf_separates C {kdf_input x e p, kdf_input x' e p'}"
    and "keys_separate C {deriveAesKey C x e p, deriveAesKey C x' e p'}"
    and "gcmOpen C (deriveAesKey C x' e p') iv (gcmSeal C (deriveAesKey C x e p) iv pt) = ok pt'"
  shows "x' = x \<and> p' = p"
proof -
  have "deriveAesKey C x e p = deriveAesKey C x' e p'"
    using assms(2,3) unfolding keys_separate_def by blast
  then have "(\<lambda>(x, salt, info). hkdfKey C x salt info) (kdf_input x e p)
      = (\<lambda>(x, salt, info). hkdfKey C x salt info) (kdf_input x' e p')"
    by (simp add: deriveAesKey_def conceal_salt_def kdf_input_def)
  then have "kdf_input x e p = kdf_input x' e p'"
    by (rule inj_onD[OF assms(1)[unfolded kdf_separates_def]]) simp_all
  then show ?thesis by (simp add: kdf_input_def)
qed

text \<open>C37. A concealed card is opened by its holder alone. For two valid private keys, a payload sealed for
  the holder's public key gives an envelope with a 33-byte ephemeral key and the nonce drawn; the holder's
  private key opens it to that payload, and among all ciphertexts under that ephemeral key and nonce it is
  the only one that opens to it. Nobody else opens it: a key derived as the code derives it, from any
  guess at the exchanged secret and any public key, opens the ciphertext only if the guess is the secret
  of the exchange and the public key the holder's; and another private key whose public key is not the
  holder's does not open the envelope. Both hold as far as HKDF does not collide on the two inputs and
  sealing under one of the two keys does not open under the other.\<close>
theorem concealed_card_for_holder_alone:
  assumes laws: "library_laws C" and eph: "getPublicKey C ephemeralPriv = ok ephemeralPub"
    and holder: "getPublicKey C holderPriv = ok holderPub" "length holderPriv = 32"
    and iv: "length iv = GCM_NONCE_BYTES"
  shows "\<exists>env secret. encryptForHolder C ephemeralPriv iv plaintext holderPub = ok env
    \<and> ecdhSharedX C holderPriv ephemeralPub = ok secret
    \<and> ephemeralPubkey env = ephemeralPub \<and> length ephemeralPub = 33 \<and> env_nonce env = iv
    \<and> (\<forall>c pt. decryptForHolder C (env\<lparr> env_ciphertext := c \<rparr>) holderPriv = ok pt
             \<longleftrightarrow> encryptForHolder C ephemeralPriv iv pt holderPub = ok (env\<lparr> env_ciphertext := c \<rparr>))
    \<and> decryptForHolder C env holderPriv = ok plaintext
    \<and> (\<forall>guess pub pt. kdf_separates C {kdf_input secret ephemeralPub holderPub, kdf_input guess ephemeralPub pub}
         \<longrightarrow> keys_separate C {deriveAesKey C secret ephemeralPub holderPub, deriveAesKey C guess ephemeralPub pub}
         \<longrightarrow> gcmOpen C (deriveAesKey C guess ephemeralPub pub) iv (env_ciphertext env) = ok pt
         \<longrightarrow> guess = secret \<and> pub = holderPub)
    \<and> (\<forall>otherPriv otherPub other pt. getPublicKey C otherPriv = ok otherPub \<longrightarrow> otherPub \<noteq> holderPub
         \<longrightarrow> ecdhSharedX C otherPriv ephemeralPub = ok other
         \<longrightarrow> kdf_separates C {kdf_input secret ephemeralPub holderPub, kdf_input other ephemeralPub otherPub}
         \<longrightarrow> keys_separate C {deriveAesKey C secret ephemeralPub holderPub, deriveAesKey C other ephemeralPub otherPub}
         \<longrightarrow> decryptForHolder C env otherPriv \<noteq> ok pt)"
proof -
  obtain x where x: "ecdhSharedX C ephemeralPriv holderPub = ok x" "ecdhSharedX C holderPriv ephemeralPub = ok x"
    using exchange[OF laws eph holder(1)] .
  have len: "length ephemeralPub = 33" "length holderPub = 33"
    using laws eph holder(1) unfolding library_laws_def by blast+
  have opens: "gcmOpen C k iv c = ok pt \<longleftrightarrow> c = gcmSeal C k iv pt" for k iv c pt
    using laws unfolding library_laws_def by blast
  let ?k = "deriveAesKey C x ephemeralPub holderPub"
  have enc: "encryptForHolder C ephemeralPriv iv pt holderPub
      = ok \<lparr> ephemeralPubkey = ephemeralPub, env_nonce = iv, env_ciphertext = gcmSeal C ?k iv pt \<rparr>" for pt
    using len eph x by (simp add: encryptForHolder_def)
  have dec: "decryptForHolder C \<lparr> ephemeralPubkey = ephemeralPub, env_nonce = iv, env_ciphertext = c \<rparr> holderPriv
      = gcmOpen C ?k iv c" for c
    using len holder iv x by (simp add: decryptForHolder_def)
  have other: "gcmOpen C (deriveAesKey C y ephemeralPub p) iv c = ok pt"
    if "decryptForHolder C \<lparr> ephemeralPubkey = ephemeralPub, env_nonce = iv, env_ciphertext = c \<rparr> priv = ok pt"
      "getPublicKey C priv = ok p" "ecdhSharedX C priv ephemeralPub = ok y" for priv p y c pt
    using that by (simp add: decryptForHolder_def split: if_splits)
  show ?thesis unfolding enc
    by (rule exI, rule exI[of _ x], intro conjI allI impI refl)
       (use x(2) len dec opens in \<open>auto dest!: other dest: sealed_needs_key\<close>)
qed

text \<open>A toy library: exclusive or for the exchange, the key as a prefix for the cipher.\<close>

definition toy_lib :: "byte list conceal_lib" where
  "toy_lib = \<lparr>
     getPublicKey = (\<lambda>k. if length k = 32 then ok (2 # k) else throw ''getPublicKey''),
     getSharedSecret = (\<lambda>k p. if length k = 32 \<and> length p = 33
        then ok (2 # map2 (\<lambda>x y. x XOR y) k (drop 1 p)) else throw ''getSharedSecret''),
     hkdfKey = (\<lambda>x salt info. x @ salt @ info),
     gcmSeal = (\<lambda>k iv pt. k @ iv @ pt),
     gcmOpen = (\<lambda>k iv c. if take (length (k @ iv)) c = k @ iv then ok (drop (length (k @ iv)) c)
        else throw ''decrypt'') \<rparr>"

lemma map2_commute: "(\<And>x y. f x y = f y x) \<Longrightarrow> map2 f xs ys = map2 f ys xs"
  by (induction xs ys rule: list_induct2') auto

lemma toy_laws: "library_laws toy_lib"
proof -
  have "c = k @ iv @ pt \<longleftrightarrow> take (length (k @ iv)) c = k @ iv \<and> drop (length (k @ iv)) c = pt" for c k iv pt :: "byte list"
    by (metis append_assoc append_eq_conv_conj)
  moreover have "map2 (\<lambda>x y. x XOR y) a b = map2 (\<lambda>x y. x XOR y) b a" for a b :: "byte list"
    by (rule map2_commute) (rule xor.commute)
  ultimately show ?thesis by (auto simp: library_laws_def toy_lib_def)
qed

lemma toy_separates:
  assumes "length x = 32" and "length y = 32"
  shows "kdf_separates toy_lib {kdf_input x e p, kdf_input y e q}"
    and "length p = length q \<Longrightarrow> keys_separate toy_lib {deriveAesKey toy_lib x e p, deriveAesKey toy_lib y e q}"
proof -
  show "kdf_separates toy_lib {kdf_input x e p, kdf_input y e q}"
    unfolding kdf_separates_def
  proof (rule inj_onI)
    fix s t
    assume "s \<in> {kdf_input x e p, kdf_input y e q}" and "t \<in> {kdf_input x e p, kdf_input y e q}"
      and "(case s of (x, salt, info) \<Rightarrow> hkdfKey toy_lib x salt info)
        = (case t of (x, salt, info) \<Rightarrow> hkdfKey toy_lib x salt info)"
    then show "s = t"
      using assms by (elim insertE emptyE) (simp_all add: kdf_input_def toy_lib_def)
  qed
  have apart: "gcmOpen toy_lib k' iv (gcmSeal toy_lib k iv pt) \<noteq> ok pt'"
    if "length k = length k'" "k \<noteq> k'" for k k' iv pt pt'
    using that by (simp add: toy_lib_def)
  assume "length p = length q"
  then have "length (deriveAesKey toy_lib x e p) = length (deriveAesKey toy_lib y e q)"
    using assms by (simp add: deriveAesKey_def toy_lib_def)
  then show "keys_separate toy_lib {deriveAesKey toy_lib x e p, deriveAesKey toy_lib y e q}"
    unfolding keys_separate_def by (auto simp: apart)
qed

lemma concealed_card_for_holder_alone_witness:
  "\<exists>env. encryptForHolder toy_lib (replicate 32 7) (replicate 12 1) [5, 6] (2 # replicate 32 9) = ok env
     \<and> decryptForHolder toy_lib env (replicate 32 9) = ok [5, 6]
     \<and> decryptForHolder toy_lib env (replicate 32 8) \<noteq> ok [5, 6]"
proof -
  have pub: "getPublicKey toy_lib (replicate 32 7) = ok (2 # replicate 32 7)"
    "getPublicKey toy_lib (replicate 32 9) = ok (2 # replicate 32 9)"
    "getPublicKey toy_lib (replicate 32 8) = ok (2 # replicate 32 8)"
    by (simp_all add: toy_lib_def)
  obtain env secret where e: "encryptForHolder toy_lib (replicate 32 7) (replicate 12 1) [5, 6] (2 # replicate 32 9) = ok env"
      "decryptForHolder toy_lib env (replicate 32 9) = ok [5, 6]"
    and other: "\<forall>otherPriv otherPub other pt. getPublicKey toy_lib otherPriv = ok otherPub \<longrightarrow> otherPub \<noteq> 2 # replicate 32 9
         \<longrightarrow> ecdhSharedX toy_lib otherPriv (2 # replicate 32 7) = ok other
         \<longrightarrow> kdf_separates toy_lib {kdf_input secret (2 # replicate 32 7) (2 # replicate 32 9), kdf_input other (2 # replicate 32 7) otherPub}
         \<longrightarrow> keys_separate toy_lib {deriveAesKey toy_lib secret (2 # replicate 32 7) (2 # replicate 32 9),
                deriveAesKey toy_lib other (2 # replicate 32 7) otherPub}
         \<longrightarrow> decryptForHolder toy_lib env otherPriv \<noteq> ok pt"
    and s: "ecdhSharedX toy_lib (replicate 32 9) (2 # replicate 32 7) = ok secret"
    using concealed_card_for_holder_alone[OF toy_laws, of "replicate 32 7" "2 # replicate 32 7" "replicate 32 9"
        "2 # replicate 32 9" "replicate 12 1" "[5, 6]"] pub
    by (auto simp: GCM_NONCE_BYTES_def)
  obtain o8 where o: "ecdhSharedX toy_lib (replicate 32 8) (2 # replicate 32 7) = ok o8"
    by (simp add: ecdhSharedX_def toy_lib_def)
  have l: "length secret = 32" "length o8 = 32"
    using s o by (auto simp: ecdhSharedX_def toy_lib_def)
  have "decryptForHolder toy_lib env (replicate 32 8) \<noteq> ok [5, 6]"
    using other pub(3) o toy_separates[OF l] by (simp add: numeral_eq_Suc)
  then show ?thesis using e by blast
qed

end
