(* ===== verification/Relay_Client.thy ===== *)
theory Relay_Client
  imports Client
begin

text \<open>
  \<open>apps/client-web/src/relay-client.ts\<close>: the WebSocket adapter of the browser client. The socket is the
  browser's: of it the client sees \<open>readyState\<close> and calls \<open>send\<close>. What reaches the socket is \<open>rc_posted\<close>,
  the events emitted are \<open>rc_emitted\<close> (each goes to every subscribed listener; what a listener throws is
  swallowed). \<open>opening\<close> is the promise of \<open>connect\<close>. \<open>sendFrame\<close> is split at its \<open>await\<close>: the guard runs
  before the checksum is computed, the post after it, on the client of that moment. \<open>stringify\<close> stands
  for \<open>JSON.stringify\<close>.
\<close>

section \<open>The client\<close>

datatype ready_state = Ws_Connecting | Ws_Open | Ws_Closing | Ws_Closed

datatype promise = Pending | Resolved | Rejected_Promise

record relay_client =
  rc_url :: string
  rc_socket :: "ready_state option"
  rc_listeners :: "nat list"
  rc_opening :: "promise option"
  rc_posted :: "byte list list"
  rc_emitted :: "relay_event list"

definition new_relay_client :: "string \<Rightarrow> relay_client" where
  "new_relay_client url = \<lparr> rc_url = url, rc_socket = None, rc_listeners = [], rc_opening = None,
     rc_posted = [], rc_emitted = [] \<rparr>"

definition relay_subscribe :: "nat \<Rightarrow> relay_client \<Rightarrow> relay_client" where
  "relay_subscribe fn rc = rc\<lparr> rc_listeners := List.insert fn (rc_listeners rc) \<rparr>"

definition relay_unsubscribe :: "nat \<Rightarrow> relay_client \<Rightarrow> relay_client" where
  "relay_unsubscribe fn rc = rc\<lparr> rc_listeners := remove1 fn (rc_listeners rc) \<rparr>"

definition relay_emit :: "relay_event \<Rightarrow> relay_client \<Rightarrow> relay_client" where
  "relay_emit ev rc = rc\<lparr> rc_emitted := rc_emitted rc @ [ev] \<rparr>"

text \<open>\<open>connect\<close> with the promise it returns. The constructor of the socket may throw; the executor
  then clears \<open>opening\<close>, but the assignment of the promise to \<open>opening\<close> comes after the executor.\<close>

definition relay_connect :: "bool \<Rightarrow> relay_client \<Rightarrow> relay_client \<times> promise" where
  "relay_connect constructs rc =
     (if rc_socket rc = Some Ws_Open then (rc, Resolved)
      else case rc_opening rc of
             Some p \<Rightarrow> (rc, p)
           | None \<Rightarrow>
               if \<not> constructs then (rc\<lparr> rc_opening := Some Rejected_Promise \<rparr>, Rejected_Promise)
               else (rc\<lparr> rc_socket := Some Ws_Connecting, rc_opening := Some Pending \<rparr>, Pending))"

text \<open>The handlers; \<open>settled\<close> is the flag of the promise their socket was made for.\<close>

definition relay_onopen :: "relay_client \<Rightarrow> relay_client" where
  "relay_onopen rc = relay_emit Relay_Open (rc\<lparr> rc_opening := None \<rparr>)"

definition relay_onclose :: "relay_client \<Rightarrow> relay_client" where
  "relay_onclose rc = relay_emit Relay_Close rc"

definition relay_onerror :: "bool \<Rightarrow> relay_client \<Rightarrow> relay_client" where
  "relay_onerror settled rc =
     (let rc' = relay_emit Relay_Error rc in if \<not> settled then rc'\<lparr> rc_opening := None \<rparr> else rc')"

definition relay_close :: "relay_client \<Rightarrow> relay_client" where
  "relay_close rc = (if rc_socket rc = None then rc else rc\<lparr> rc_socket := None \<rparr>)"

section \<open>Sending\<close>

definition sendFrame_guard :: "relay_client \<Rightarrow> unit result" where
  "sendFrame_guard rc = (if rc_socket rc \<noteq> Some Ws_Open then throw ''RelayClient.sendFrame'' else ok ())"

text \<open>A socket that is closing or closed discards what it is sent.\<close>

definition sendFrame_post ::
  "(byte list \<Rightarrow> byte list) \<Rightarrow> frame \<Rightarrow> relay_client \<Rightarrow> relay_client \<times> failure option"
where
  "sendFrame_post sha f rc =
     (case encode sha f of
        Inl _ \<Rightarrow> (rc, Some (Thrown ''encode''))
      | Inr bs \<Rightarrow>
          (case rc_socket rc of
             None \<Rightarrow> (rc, Some (Thrown ''TypeError''))
           | Some r \<Rightarrow> if r = Ws_Open then (rc\<lparr> rc_posted := rc_posted rc @ [bs] \<rparr>, None) else (rc, None)))"

definition sendFrame ::
  "(byte list \<Rightarrow> byte list) \<Rightarrow> frame \<Rightarrow> relay_client \<Rightarrow> relay_client \<times> failure option"
where
  "sendFrame sha f rc =
     (case sendFrame_guard rc of Inl e \<Rightarrow> (rc, Some e) | Inr _ \<Rightarrow> sendFrame_post sha f rc)"

definition action_frame :: "(signed_action \<Rightarrow> string) \<Rightarrow> signed_action \<Rightarrow> frame" where
  "action_frame stringify a = \<lparr> fr_version = VERSION_1_0, fr_type = msg_type_code Msg_Action,
     fr_payload = utf8 (stringify a) \<rparr>"

definition sendAction ::
  "(byte list \<Rightarrow> byte list) \<Rightarrow> (signed_action \<Rightarrow> string) \<Rightarrow> signed_action \<Rightarrow> relay_client \<Rightarrow>
   relay_client \<times> failure option"
where
  "sendAction sha stringify a = sendFrame sha (action_frame stringify a)"

definition requestTranscript ::
  "(byte list \<Rightarrow> byte list) \<Rightarrow> relay_client \<Rightarrow> relay_client \<times> failure option"
where
  "requestTranscript sha = sendFrame sha \<lparr> fr_version = VERSION_1_0,
     fr_type = msg_type_code Msg_TranscriptRequest, fr_payload = [] \<rparr>"

definition relay_ping ::
  "(byte list \<Rightarrow> byte list) \<Rightarrow> byte list \<Rightarrow> relay_client \<Rightarrow> relay_client \<times> failure option"
where
  "relay_ping sha p = sendFrame sha \<lparr> fr_version = VERSION_1_0,
     fr_type = msg_type_code Msg_Ping, fr_payload = p \<rparr>"

section \<open>Receiving\<close>

datatype ws_data = Ws_Text string | Ws_Binary "byte list"

definition message_event :: "(byte list \<Rightarrow> byte list) \<Rightarrow> ws_data \<Rightarrow> relay_event" where
  "message_event sha data =
     (case data of
        Ws_Text _ \<Rightarrow> Relay_Error
      | Ws_Binary bs \<Rightarrow> (case decode sha bs of Inl _ \<Rightarrow> Relay_Error | Inr (f, _) \<Rightarrow> Relay_Frame f))"

definition handleMessage :: "(byte list \<Rightarrow> byte list) \<Rightarrow> ws_data \<Rightarrow> relay_client \<Rightarrow> relay_client" where
  "handleMessage sha data rc = relay_emit (message_event sha data) rc"

section \<open>Frames over the socket\<close>

lemma sendFrame_open:
  assumes "rc_socket rc = Some Ws_Open" and "encode sha f = Inr bs"
  shows "sendFrame sha f rc = (rc\<lparr> rc_posted := rc_posted rc @ [bs] \<rparr>, None)"
  using assms by (simp add: sendFrame_def sendFrame_guard_def sendFrame_post_def)

lemma sendFrame_not_open:
  "rc_socket rc \<noteq> Some Ws_Open \<Longrightarrow> sendFrame sha f rc = (rc, Some (Thrown ''RelayClient.sendFrame''))"
  by (simp add: sendFrame_def sendFrame_guard_def)

text \<open>What an encoded frame becomes at the other end.\<close>

lemma message_of_encoded:
  assumes "\<And>p. length (sha p) = 32" and "encode sha f = Inr bs" and "wire_frame f"
  shows "message_event sha (Ws_Binary bs) = Relay_Frame f"
  using decode_encoded[OF assms(1,2), of "[]"] assms(3)
  by (simp add: message_event_def wire_frame_def)

lemma action_frame_wire: "wire_frame (action_frame stringify a)"
  by (simp add: wire_frame_def action_frame_def VERSION_1_0_def)

lemma action_frame_encodes:
  assumes "int (length (utf8 (stringify a))) \<le> MAX_PAYLOAD_SIZE"
  obtains bs where "encode sha (action_frame stringify a) = Inr bs"
  using assms by (auto simp: encode_def action_frame_def)

text \<open>An action sent over an open socket arrives as one \<open>Action\<close> frame with the action's text, and the
  store's failure branch is taken exactly if the socket is not open or the text is too long.\<close>

lemma sent_action_arrives:
  assumes sha: "\<And>p. length (sha p) = 32" and rc: "rc_socket rc = Some Ws_Open"
    and size: "int (length (utf8 (stringify a))) \<le> MAX_PAYLOAD_SIZE"
  shows "\<exists>bs. sendAction sha stringify a rc = (rc\<lparr> rc_posted := rc_posted rc @ [bs] \<rparr>, None)
    \<and> message_event sha (Ws_Binary bs) = Relay_Frame (action_frame stringify a)
    \<and> text_decoder (fr_payload (action_frame stringify a)) = Some (stringify a)"
proof -
  obtain bs where "encode sha (action_frame stringify a) = Inr bs"
    by (rule action_frame_encodes[of stringify a, OF size])
  then show ?thesis
    using sendFrame_open[OF rc] message_of_encoded[OF sha _ action_frame_wire]
    by (auto simp: sendAction_def text_decoder_utf8 action_frame_def)
qed

lemma send_fails_iff:
  "snd (sendAction sha stringify a rc) \<noteq> None \<longleftrightarrow>
     rc_socket rc \<noteq> Some Ws_Open \<or> int (length (utf8 (stringify a))) > MAX_PAYLOAD_SIZE"
  by (auto simp: sendAction_def sendFrame_def sendFrame_guard_def sendFrame_post_def encode_def
        action_frame_def)

text \<open>From the relay's frame to the table on screen: a \<open>TableState\<close> frame the relay encodes sets the
  state its payload parses to.\<close>

lemma table_state_arrives:
  assumes sha: "\<And>p. length (sha p) = 32"
    and f: "fr_type f = msg_type_code Msg_TableState" "wire_frame f" "encode sha f = Inr bs"
    and s: "parse_state (fr_payload f) = Some s"
  shows "ts_state (fst (onRelayEvent parse_state parse_error (message_event sha (Ws_Binary bs)) st)) = s"
  using message_of_encoded[OF sha f(3,2)] f(1) s by (simp add: onRelayEvent_def handleFrame_def)

section \<open>The promise of \<open>connect\<close>\<close>

text \<open>A socket constructor that throws leaves its rejected promise in \<open>opening\<close>: every later
  \<open>connect\<close> of that client returns the same rejection and makes no socket.\<close>

lemma rejected_connect_sticks:
  assumes "rc_socket rc = None" and "rc_opening rc = None"
  shows "relay_connect c (fst (relay_connect False rc)) = (fst (relay_connect False rc), Rejected_Promise)"
  using assms by (simp add: relay_connect_def)

lemma failed_connect_can_be_retried:
  assumes "rc_socket rc = None" and "rc_opening rc = None"
  shows "snd (relay_connect True (relay_close (relay_onerror False (fst (relay_connect True rc))))) = Pending"
  using assms by (simp add: relay_connect_def relay_onerror_def relay_emit_def relay_close_def)

end
