(* ===== verification/Replay.thy ===== *)
theory Replay
  imports Verify Scenario "HOL-Library.List_Lexorder" "HOL-Library.Char_ord" "HOL-Library.Product_Lexorder"
begin

text \<open>
  \<open>replay.ts\<close>, \<open>ordering.ts\<close> and \<open>timeout.ts\<close> of \<open>packages/state-engine/src\<close>: replaying a
  transcript with the bare engine and through the cryptographic gate, the rule that picks the winner
  of two conflicting transactions, and the eligibility of the three branches of a state.
\<close>

section \<open>Replay\<close>

text \<open>The arguments of the two replay functions. An entry of \<open>actions\<close> is never \<open>undefined\<close> here.\<close>

record replay_args =
  ra_game_id :: game_id
  ra_rule_set_hash :: rule_set_hash
  ra_rule_set :: rule_set
  ra_recovery_deadline :: block_height
  ra_actions :: "signed_action list"
  ra_block_heights :: "block_height list"

text \<open>\<open>block_heights[i] ?? block_heights[block_heights.length - 1]\<close>.\<close>

definition height_candidate :: "block_height list \<Rightarrow> nat \<Rightarrow> block_height option" where
  "height_candidate hs i =
     (if i < length hs then Some (hs ! i) else if hs = [] then None else Some (last hs))"

text \<open>The loops from index \<open>i\<close> on. A rejection is passed on with its code.\<close>

fun replay_loop ::
  "rule_set \<Rightarrow> block_height list \<Rightarrow> nat \<Rightarrow> round_state \<Rightarrow> signed_action list \<Rightarrow> round_state result" where
  "replay_loop rs hs i s [] = ok s"
| "replay_loop rs hs i s (a # as) =
     (case height_candidate hs i of
        None \<Rightarrow> err SERIALISATION_ERROR
      | Some h \<Rightarrow>
          (case applyAction s a rs h of
             Inl e \<Rightarrow> Inl e
           | Inr s' \<Rightarrow> replay_loop rs hs (Suc i) s' as))"

definition replay :: "replay_args \<Rightarrow> round_state result" where
  "replay args =
     replay_loop (ra_rule_set args) (ra_block_heights args) 0
       (initialState (ra_game_id args) (ra_rule_set_hash args) (ra_recovery_deadline args))
       (ra_actions args)"

fun replay_verified_loop ::
  "(byte list \<Rightarrow> byte list) \<Rightarrow> rule_set \<Rightarrow> block_height list \<Rightarrow> nat \<Rightarrow> round_state \<Rightarrow> signed_action list \<Rightarrow> round_state result option"
where
  "replay_verified_loop sha rs hs i s [] = Some (ok s)"
| "replay_verified_loop sha rs hs i s (a # as) =
     (case height_candidate hs i of
        None \<Rightarrow> Some (err SERIALISATION_ERROR)
      | Some h \<Rightarrow>
          (case verifyAndApply sha s a rs h of
             None \<Rightarrow> None
           | Some (Inl e) \<Rightarrow> Some (Inl e)
           | Some (Inr s') \<Rightarrow> replay_verified_loop sha rs hs (Suc i) s' as))"

definition replayWithVerification :: "(byte list \<Rightarrow> byte list) \<Rightarrow> replay_args \<Rightarrow> round_state result option" where
  "replayWithVerification sha args =
     replay_verified_loop sha (ra_rule_set args) (ra_block_heights args) 0
       (initialState (ra_game_id args) (ra_rule_set_hash args) (ra_recovery_deadline args))
       (ra_actions args)"

definition chainsFrom :: "round_state option \<Rightarrow> round_state \<Rightarrow> bool" where
  "chainsFrom prior nxt =
     (case prior of
        None \<Rightarrow> prior_state_hash nxt = None
      | Some p \<Rightarrow> prior_state_hash nxt = Some (state_hash p))"

text \<open>The inputs of the machines that the two loops run: each action with its height.\<close>

fun timed :: "block_height list \<Rightarrow> nat \<Rightarrow> signed_action list \<Rightarrow> (signed_action \<times> block_height) list" where
  "timed hs i [] = []"
| "timed hs i (a # as) = (a, the (height_candidate hs i)) # timed hs (Suc i) as"

lemma height_some: "hs \<noteq> [] \<Longrightarrow> height_candidate hs i = Some (the (height_candidate hs i))"
  by (simp add: height_candidate_def)

lemma replay_loop_eq:
  "hs \<noteq> [] \<Longrightarrow> replay_loop rs hs i s as = run_machine (engine_step rs) s (timed hs i as)"
proof (induction as arbitrary: i s)
  case (Cons a as)
  obtain h where h: "height_candidate hs i = Some h" using height_some[OF Cons.prems] by blast
  show ?case
    using Cons.IH[OF Cons.prems] by (cases "applyAction s a rs h") (simp_all add: h engine_step_def)
qed simp

lemma replay_verified_loop_eq:
  "hs \<noteq> [] \<Longrightarrow> replay_verified_loop sha rs hs i s as = gate_run sha rs s (timed hs i as)"
proof (induction as arbitrary: i s)
  case (Cons a as)
  obtain h where h: "height_candidate hs i = Some h" using height_some[OF Cons.prems] by blast
  show ?case
    using Cons.IH[OF Cons.prems] by (simp add: h pres_bind_def split: option.split sum.split)
qed simp

lemma replay_loop_no_heights:
  "replay_loop rs [] i s as = (if as = [] then ok s else err SERIALISATION_ERROR)"
  "replay_verified_loop sha rs [] i s as = Some (if as = [] then ok s else err SERIALISATION_ERROR)"
  by (cases as; simp add: height_candidate_def)+

section \<open>Conflicts\<close>

record candidate_snapshot =
  snap_txid :: tx_id
  observed_by_quorum :: bool
  confirmed_in_block :: bool

definition pickConflictWinner :: "candidate_snapshot \<Rightarrow> candidate_snapshot \<Rightarrow> candidate_snapshot" where
  "pickConflictWinner a b =
     (if confirmed_in_block a \<noteq> confirmed_in_block b then (if confirmed_in_block a then a else b)
      else if observed_by_quorum a \<noteq> observed_by_quorum b then (if observed_by_quorum a then a else b)
      else if snap_txid a < snap_txid b then a else b)"

text \<open>
  The contract of a deterministic pairwise choice: it picks one of the two, the one with the smaller
  key. Whoever folds it over a set of candidates gets the same winner in any order.
\<close>

locale pairwise_choice =
  fixes pick :: "'a \<Rightarrow> 'a \<Rightarrow> 'a" and key :: "'a \<Rightarrow> 'k :: linorder"
  assumes pick_one: "pick a b = a \<or> pick a b = b"
    and pick_key: "key (pick a b) = min (key a) (key b)"
begin

lemma fold_mem: "foldl pick a as \<in> set (a # as)"
proof (induction as arbitrary: a)
  case (Cons b as)
  then show ?case using pick_one[of a b] Cons.IH[of "pick a b"] by (elim disjE) auto
qed simp

lemma fold_key: "key (foldl pick a as) = Min (key ` set (a # as))"
proof (induction as arbitrary: a)
  case (Cons b as)
  have "Min (key ` set (pick a b # as)) = Min (key ` set (a # b # as))"
    by (cases "as = []") (simp_all add: pick_key min.assoc)
  then show ?case using Cons.IH[of "pick a b"] by simp
qed simp

lemma fold_order_irrelevant:
  assumes "set (a # as) = set (b # bs)" and "inj_on key (set (a # as))"
  shows "foldl pick a as = foldl pick b bs"
proof -
  have "key (foldl pick a as) = key (foldl pick b bs)" unfolding fold_key assms(1) ..
  then show ?thesis
    by (rule inj_onD[OF assms(2)]) (use fold_mem[of a as] fold_mem[of b bs] assms(1) in auto)
qed

end

text \<open>Confirmed before unconfirmed, then observed before unobserved, then the smaller txid.\<close>

definition conflict_key :: "candidate_snapshot \<Rightarrow> bool \<times> bool \<times> tx_id" where
  "conflict_key c = (\<not> confirmed_in_block c, \<not> observed_by_quorum c, snap_txid c)"

interpretation conflict: pairwise_choice pickConflictWinner conflict_key
  by unfold_locales (auto simp: pickConflictWinner_def conflict_key_def min_def less_eq_prod_def less_prod_def)

section \<open>Timeouts\<close>

record eligible =
  canCooperate :: bool
  canTimeout :: bool
  canRecover :: bool

definition eligibility :: "round_state \<Rightarrow> block_height \<Rightarrow> eligible" where
  "eligibility s currentHeight = \<lparr>
     canCooperate = (allowed_actions s \<noteq> []),
     canTimeout = (case decision_deadline_block_height s of None \<Rightarrow> False | Some d \<Rightarrow> currentHeight \<ge> d),
     canRecover = (case recovery_deadline_block_height s of None \<Rightarrow> False | Some d \<Rightarrow> currentHeight \<ge> d) \<rparr>"

definition validateTimeoutOrdering :: "int \<Rightarrow> int \<Rightarrow> bool" where
  "validateTimeoutOrdering decisionBlocks recoveryBlocks \<longleftrightarrow>
     decisionBlocks < recoveryBlocks \<and> decisionBlocks > 0 \<and> recoveryBlocks > 0"

section \<open>Properties\<close>

text \<open>C26. An audited transcript is a legal game: if a transcript replays through the cryptographic gate,
  it replays in the bare engine to the same state up to the two deck fields that only the gate fills,
  and that state is one the gate can reach.\<close>
theorem verified_replay_is_replay:
  assumes "replayWithVerification sha args = Some (ok s)"
  shows "replay args = ok (s\<lparr> combined_entropy := None, deck_commitment_hash := None \<rparr>)
    \<and> verified sha (ra_rule_set args) s"
proof (cases "ra_block_heights args = []")
  case True
  with assms have "s = initialState (ra_game_id args) (ra_rule_set_hash args) (ra_recovery_deadline args)
      \<and> ra_actions args = []"
    by (auto simp: replayWithVerification_def replay_loop_no_heights split: if_splits)
  then show ?thesis
    using True forget_initial
    by (auto simp: replay_def replay_loop_no_heights forget_deck_def intro: verified.start)
next
  case False
  let ?s0 = "initialState (ra_game_id args) (ra_rule_set_hash args) (ra_recovery_deadline args)"
  have g: "gate_run sha (ra_rule_set args) ?s0 (timed (ra_block_heights args) 0 (ra_actions args)) = Some (ok s)"
    using assms replay_verified_loop_eq[OF False] by (simp add: replayWithVerification_def)
  from gate_run_engine[OF g] gate_run_verified[OF verified.start g] show ?thesis
    by (simp add: replay_def replay_loop_eq[OF False] forget_initial) (simp add: forget_deck_def)
qed

lemma verified_replay_is_replay_witness:
  "\<exists>s. replay \<lparr> ra_game_id = gate_id, ra_rule_set_hash = gate_id, ra_rule_set = gate_rules,
       ra_recovery_deadline = 500, ra_actions = map fst gate_inputs, ra_block_heights = [100] \<rparr> = ok s
     \<and> state_class s = S5_DECK_COMMITTED"
proof -
  let ?args = "\<lparr> ra_game_id = gate_id, ra_rule_set_hash = gate_id, ra_rule_set = gate_rules,
       ra_recovery_deadline = 500, ra_actions = map fst gate_inputs, ra_block_heights = [100] \<rparr>"
  obtain s d where s: "gate_run head_digest gate_rules gate_start gate_inputs = Some (ok s)"
    "state_class s = S5_DECK_COMMITTED" by (rule gate_accepts)
  have "timed [100] 0 (map fst gate_inputs) = gate_inputs"
    by (simp add: gate_inputs_def height_candidate_def)
  then have "replayWithVerification head_digest ?args = Some (ok s)"
    using s(1) replay_verified_loop_eq[of "[100]"] by (simp add: replayWithVerification_def gate_start_def)
  from verified_replay_is_replay[OF this] s(2) show ?thesis by auto
qed

text \<open>The eligibility helper agrees with the engine: in every reachable state the recovery branch is
  reported spendable exactly when the engine accepts a recovery of this session, the timeout branch is
  never reported spendable, and cooperation is reported unless the session is recovered or closed.\<close>
theorem eligibility_agrees_with_engine:
  assumes "reachable rs s" and "act_game_id a = game_id s" and "act_type a = Recovery"
  shows "(canRecover (eligibility s h) \<longleftrightarrow> (\<exists>s'. applyAction s a rs h = ok s'))
    \<and> \<not> canTimeout (eligibility s h)
    \<and> (\<not> canCooperate (eligibility s h) \<longrightarrow> state_class s \<in> {S12_TABLE_CLOSE, RECOVERED})"
proof -
  obtain x where p: "payload a = Recovery_Payload x" using assms(3) by (cases "payload a") auto
  have "class_ok s" using reachable_class_ok[OF assms(1)] .
  then show ?thesis
    using no_decision_deadline[OF assms(1)] assms(2) p
    by (cases "state_class s")
       (auto simp: eligibility_def applyAction_def applyRecovery_def class_ok_def split: option.splits)
qed

lemma eligibility_agrees_with_engine_witness:
  "\<not> canRecover (eligibility (demo_at 9) 499) \<and> canRecover (eligibility (demo_at 9) 500)"
proof -
  have "canRecover (eligibility (demo_at 9) h) = (\<exists>s'. applyAction (demo_at 9)
      (demo_action None (Recovery_Payload [])) demo_rules h = ok s')" for h
  proof (rule conjunct1[OF eligibility_agrees_with_engine[OF demo_reachable]])
    show "act_game_id (demo_action None (Recovery_Payload [])) = game_id (demo_at 9)" by code_simp
    show "act_type (demo_action None (Recovery_Payload [])) = Recovery" by (simp add: demo_action_def)
  qed
  moreover have "isl (applyAction (demo_at 9) (demo_action None (Recovery_Payload [])) demo_rules 499)"
    "\<not> isl (applyAction (demo_at 9) (demo_action None (Recovery_Payload [])) demo_rules 500)" by code_simp+
  ultimately show ?thesis by (auto simp: isl_def) (metis sum.exhaust)
qed

end
