(* ===== verification/Simulators.thy ===== *)
theory Simulators
  imports Replay Transactions "HOL-Library.AList"
begin

text \<open>
  \<open>tools/tx-simulator/src/simulate.ts\<close> (conflicting bets and the mempool) and
  \<open>tools/deck-simulator/src/simulate.ts\<close> (honest and forged reveals of a deck).
\<close>

section \<open>Competing transactions\<close>

record bet_candidate_spec =
  spec_candidateId :: string
  spec_prevTxidHex :: string
  spec_prevVout :: int
  spec_betValueSats :: int
  spec_lockingScriptHex :: "string option"
  spec_observedByQuorum :: "bool option"
  spec_confirmedInBlock :: "bool option"

record built_candidate =
  candidateId :: string
  built_txidHex :: string
  built_tx :: bsv_transaction
  snapshot :: candidate_snapshot

text \<open>A byte that is not a number is stored as \<open>0\<close>.\<close>

fun sim_pairs :: "string \<Rightarrow> byte list" where
  "sim_pairs (a # b # cs) =
     (case parseInt16 [a, b] of None \<Rightarrow> 0 | Some v \<Rightarrow> u8 v) # sim_pairs cs"
| "sim_pairs _ = []"

definition sim_hexToBytes :: "string \<Rightarrow> byte list result" where
  "sim_hexToBytes hex =
     (let clean = (if take 2 hex = ''0x'' then drop 2 hex else hex)
      in if length clean mod 2 \<noteq> 0 then throw ''hexToBytes'' else ok (sim_pairs clean))"

text \<open>An absent or empty script is the placeholder.\<close>

definition buildBetCandidate :: "(byte list \<Rightarrow> byte list) \<Rightarrow> bet_candidate_spec \<Rightarrow> built_candidate result" where
  "buildBetCandidate sha sp =
     res_bind (case spec_lockingScriptHex sp of
                 None \<Rightarrow> ok [0x51]
               | Some h \<Rightarrow> if h = [] then ok [0x51] else sim_hexToBytes h) (\<lambda>script.
     res_bind (sim_hexToBytes (spec_prevTxidHex sp)) (\<lambda>prev.
       (let tx = \<lparr> version = 1,
                   inputs = [\<lparr> prevTxid = prev, prevVout = spec_prevVout sp, unlockingScript = [],
                               sequence = 0xffffffff \<rparr>],
                   outputs = [\<lparr> tx_value = spec_betValueSats sp, lockingScript = script \<rparr>],
                   lockTime = 0 \<rparr>
        in res_bind (txidHex sha tx) (\<lambda>display.
           res_bind (asTxId display) (\<lambda>tid.
             ok \<lparr> candidateId = spec_candidateId sp, built_txidHex = display, built_tx = tx,
                  snapshot = \<lparr> snap_txid = tid,
                    observed_by_quorum = (case spec_observedByQuorum sp of None \<Rightarrow> False | Some b \<Rightarrow> b),
                    confirmed_in_block = (case spec_confirmedInBlock sp of None \<Rightarrow> False | Some b \<Rightarrow> b) \<rparr> \<rparr>)))))"

definition resolveConflict :: "built_candidate list \<Rightarrow> built_candidate result" where
  "resolveConflict candidates =
     (case candidates of
        [] \<Rightarrow> throw ''resolveConflict''
      | c # cs \<Rightarrow>
          (let winnerSnap = foldl pickConflictWinner (snapshot c) (map snapshot cs)
           in case find (\<lambda>d. snap_txid (snapshot d) = snap_txid winnerSnap) candidates of
                None \<Rightarrow> throw ''resolveConflict''
              | Some winner \<Rightarrow> ok winner))"

definition txidLess :: "built_candidate \<Rightarrow> built_candidate \<Rightarrow> bool" where
  "txidLess a b \<longleftrightarrow> snap_txid (snapshot a) < snap_txid (snapshot b)"

section \<open>The mempool\<close>

text \<open>The \<open>Map\<close> in insertion order.\<close>

type_synonym mempool = "(string \<times> bsv_transaction) list"

definition mempool_add :: "mempool \<Rightarrow> built_candidate \<Rightarrow> mempool" where
  "mempool_add mp c = AList.update (built_txidHex c) (built_tx c) mp"

definition mempool_has :: "mempool \<Rightarrow> string \<Rightarrow> bool" where
  "mempool_has mp t = (map_of mp t \<noteq> None)"

definition mempool_evict :: "mempool \<Rightarrow> string \<Rightarrow> bool \<times> mempool" where
  "mempool_evict mp t = (mempool_has mp t, AList.delete t mp)"

definition mempool_list :: "mempool \<Rightarrow> string list" where
  "mempool_list mp = sort (map fst mp)"

definition mempool_size :: "mempool \<Rightarrow> nat" where
  "mempool_size mp = length mp"

record rebroadcast_result =
  wasEvicted :: bool
  rebroadcast :: bool

definition rebroadcastIfEvicted :: "mempool \<Rightarrow> built_candidate \<Rightarrow> rebroadcast_result \<times> mempool" where
  "rebroadcastIfEvicted mp c =
     (if mempool_has mp (built_txidHex c) then (\<lparr> wasEvicted = False, rebroadcast = False \<rparr>, mp)
      else (\<lparr> wasEvicted = True, rebroadcast = True \<rparr>, mempool_add mp c))"

definition txSizeBytes :: "built_candidate \<Rightarrow> nat result" where
  "txSizeBytes c = res_bind (encodeBsvTransaction (built_tx c)) (\<lambda>bs. ok (length bs))"

definition internalTxid :: "(byte list \<Rightarrow> byte list) \<Rightarrow> built_candidate \<Rightarrow> byte list result" where
  "internalTxid sha c = computeTxId sha (built_tx c)"

section \<open>The deck simulator\<close>

datatype reveal_kind = Honest | Forged

record reveal_outcome =
  ro_position :: int
  ro_ordinal :: int
  ro_cardNonceHex :: string
  ro_deckNonceHex :: string
  ro_commitmentHex :: string
  ro_verifies :: bool
  ro_kind :: reveal_kind

record deck_sim_result =
  combinedEntropyHex :: string
  deckCommitmentHashHex :: string
  sim_deckSize :: int
  sim_algorithm :: int
  sim_shuffledDeck :: "int list"
  reveals :: "reveal_outcome list"

definition DEFAULT_DECK_SIZE :: int where "DEFAULT_DECK_SIZE = 52"
definition DEFAULT_ALGO :: int where "DEFAULT_ALGO = 1"

definition buildDeck :: "(byte list \<Rightarrow> byte list) \<Rightarrow> string list \<Rightarrow> int \<Rightarrow> int \<Rightarrow> deck_commitment result option" where
  "buildDeck sha entropiesHex deckSize v =
     (if entropiesHex = [] then Some (throw ''buildDeck'')
      else pres_bind (Some (map_res fromHex entropiesHex)) (\<lambda>es.
           pres_bind (Some (combineEntropy sha es)) (\<lambda>combined.
             buildDeckCommitment sha combined deckSize v)))"

text \<open>\<open>dc.perPosition[position]\<close>, or \<open>undefined\<close>.\<close>

definition position_at :: "deck_commitment \<Rightarrow> int \<Rightarrow> deck_card option" where
  "position_at dc pos =
     (if 0 \<le> pos \<and> pos < int (length (perPosition dc)) then Some (perPosition dc ! nat pos) else None)"

definition honestReveal :: "(byte list \<Rightarrow> byte list) \<Rightarrow> deck_commitment \<Rightarrow> int \<Rightarrow> reveal_outcome result" where
  "honestReveal sha dc pos =
     (case position_at dc pos of
        None \<Rightarrow> throw ''honestReveal''
      | Some p \<Rightarrow>
          res_bind (verifyRevealProof sha (dc_commitment p)
            \<lparr> op_position = int (dc_position p), op_ordinal = dc_ordinal p,
              op_cardNonce = dc_cardNonce p, op_deckNonce = dc_deckNonce p \<rparr>) (\<lambda>verifies.
          ok \<lparr> ro_position = int (dc_position p), ro_ordinal = dc_ordinal p,
               ro_cardNonceHex = toHex (dc_cardNonce p), ro_deckNonceHex = toHex (dc_deckNonce p),
               ro_commitmentHex = toHex (dc_commitment p), ro_verifies = verifies, ro_kind = Honest \<rparr>))"

definition forgeReveal :: "(byte list \<Rightarrow> byte list) \<Rightarrow> deck_commitment \<Rightarrow> int \<Rightarrow> int \<Rightarrow> reveal_outcome result" where
  "forgeReveal sha dc pos wrongOrdinal =
     (case position_at dc pos of
        None \<Rightarrow> throw ''forgeReveal''
      | Some p \<Rightarrow>
          if wrongOrdinal = dc_ordinal p then throw ''forgeReveal''
          else res_bind (verifyRevealProof sha (dc_commitment p)
            \<lparr> op_position = int (dc_position p), op_ordinal = wrongOrdinal,
              op_cardNonce = dc_cardNonce p, op_deckNonce = dc_deckNonce p \<rparr>) (\<lambda>verifies.
          res_bind (commitCard sha wrongOrdinal (dc_cardNonce p) (dc_deckNonce p)) (\<lambda>forgedCommitment.
          ok \<lparr> ro_position = int (dc_position p), ro_ordinal = wrongOrdinal,
               ro_cardNonceHex = toHex (dc_cardNonce p), ro_deckNonceHex = toHex (dc_deckNonce p),
               ro_commitmentHex = toHex forgedCommitment, ro_verifies = verifies, ro_kind = Forged \<rparr>)))"

definition simulateDeck ::
  "(byte list \<Rightarrow> byte list) \<Rightarrow> string list \<Rightarrow> int option \<Rightarrow> int option \<Rightarrow> int list option \<Rightarrow> deck_sim_result result option"
where
  "simulateDeck sha entropiesHex size_opt algo_opt positions_opt =
     (let deckSize = (case size_opt of None \<Rightarrow> DEFAULT_DECK_SIZE | Some n \<Rightarrow> n);
          algo = (case algo_opt of None \<Rightarrow> DEFAULT_ALGO | Some v \<Rightarrow> v)
      in pres_bind (buildDeck sha entropiesHex deckSize algo) (\<lambda>dc. Some (
           let ps = (case positions_opt of
                  None \<Rightarrow> map (int \<circ> dc_position) (perPosition dc) | Some ps \<Rightarrow> ps)
           in res_bind (map_res (honestReveal sha dc) ps) (\<lambda>rs.
                ok \<lparr> combinedEntropyHex = toHex (combinedEntropy dc),
                     deckCommitmentHashHex = toHex (deckCommitmentHash dc),
                     sim_deckSize = deckSize, sim_algorithm = algo,
                     sim_shuffledDeck = shuffledDeck dc, reveals = rs \<rparr>))))"

section \<open>Lemmas\<close>

lemma find_unique:
  assumes "inj_on g (set cs)" and "w \<in> set cs"
  shows "find (\<lambda>d. g d = g w) cs = Some w"
  using assms by (induction cs) (auto simp: inj_on_def)

lemma resolve_winner:
  assumes "inj_on (snap_txid \<circ> snapshot) (set (c # cs))"
  shows "\<exists>w \<in> set (c # cs). resolveConflict (c # cs) = ok w
    \<and> snapshot w = foldl pickConflictWinner (snapshot c) (map snapshot cs)"
proof -
  have "foldl pickConflictWinner (snapshot c) (map snapshot cs) \<in> snapshot ` set (c # cs)"
    using conflict.fold_mem[of "snapshot c" "map snapshot cs"] by simp
  then obtain w where w: "w \<in> set (c # cs)" "foldl pickConflictWinner (snapshot c) (map snapshot cs) = snapshot w"
    by auto
  have "find (\<lambda>d. snap_txid (snapshot d) = snap_txid (snapshot w)) (c # cs) = Some w"
    using find_unique[OF assms w(1)] by (simp only: o_def)
  then have "resolveConflict (c # cs) = ok w"
    unfolding resolveConflict_def list.case Let_def w(2) by (simp only: option.case)
  then show ?thesis using w by metis
qed

lemma honestReveal_built:
  assumes "deck_built sha n d" and "n \<le> 54" and "i < nat n"
  shows "honestReveal sha d (int i) = ok \<lparr> ro_position = int i, ro_ordinal = shuffledDeck d ! i,
    ro_cardNonceHex = toHex (dc_cardNonce (perPosition d ! i)),
    ro_deckNonceHex = toHex (dc_deckNonce (perPosition d ! i)),
    ro_commitmentHex = toHex (dc_commitment (perPosition d ! i)), ro_verifies = True, ro_kind = Honest \<rparr>"
proof -
  let ?c = "perPosition d ! i"
  have p: "dc_position ?c = i" "dc_ordinal ?c = shuffledDeck d ! i" "position_at d (int i) = Some ?c"
    using assms by (auto simp: deck_built_def Let_def position_at_def)
  have "verifyRevealProof sha (dc_commitment ?c) (opening_of ?c) = ok True"
    by (rule conjunct2[OF conjunct2[OF deck_built_card[OF assms(1,3,2)]]])
  then show ?thesis unfolding honestReveal_def p(3) option.case opening_of_def p(1,2) by simp
qed

section \<open>Properties\<close>

text \<open>A conflict has one winner, whoever resolves it: over the same non-empty set of candidates with
  distinct txids, in whatever order they were observed, the resolver returns the same candidate, and
  that candidate has the best key (confirmed first, then observed by the quorum, then the smallest
  txid) of all.\<close>
theorem conflict_resolution_is_order_free:
  assumes "cs \<noteq> []" and "set cs = set ds" and "inj_on (snap_txid \<circ> snapshot) (set cs)"
  shows "\<exists>w. resolveConflict cs = ok w \<and> resolveConflict ds = ok w \<and> w \<in> set cs
    \<and> list_all (\<lambda>c. conflict_key (snapshot w) \<le> conflict_key (snapshot c)) cs"
proof -
  obtain c cs' where cs: "cs = c # cs'" using assms(1) by (cases cs) auto
  obtain d ds' where ds: "ds = d # ds'" using assms(1,2) by (cases ds) auto
  obtain w where w: "w \<in> set cs" "resolveConflict cs = ok w"
    "snapshot w = foldl pickConflictWinner (snapshot c) (map snapshot cs')"
    using resolve_winner[of c cs'] assms(3) unfolding cs by blast
  obtain w' where w': "w' \<in> set ds" "resolveConflict ds = ok w'"
    "snapshot w' = foldl pickConflictWinner (snapshot d) (map snapshot ds')"
    using resolve_winner[of d ds'] assms(2,3) unfolding cs ds by metis
  have img1: "set (snapshot c # map snapshot cs') = snapshot ` set cs" unfolding cs by simp
  have "set (snapshot d # map snapshot ds') = snapshot ` set ds" unfolding ds by simp
  note img = img1 this[folded assms(2)]
  have inj: "inj_on conflict_key (set (snapshot c # map snapshot cs'))"
    by (rule inj_onI) (simp add: conflict_key_def)
  have "snapshot w = snapshot w'"
    unfolding w(3) w'(3) by (rule conflict.fold_order_irrelevant[OF _ inj]) (simp only: img)
  then have "w = w'" using inj_onD[OF assms(3), of w w'] w(1) w'(1) assms(2) by simp
  moreover have "conflict_key (snapshot w) = Min (conflict_key ` (snapshot ` set cs))"
    unfolding w(3) conflict.fold_key img ..
  then have "\<forall>x \<in> set cs. conflict_key (snapshot w) \<le> conflict_key (snapshot x)" by simp
  ultimately show ?thesis using w w' by (auto simp: list_all_iff)
qed

definition demo_candidate :: "string \<Rightarrow> bool \<Rightarrow> bool \<Rightarrow> built_candidate" where
  "demo_candidate t q b = \<lparr> candidateId = t, built_txidHex = t,
     built_tx = \<lparr> version = 1, inputs = [], outputs = [], lockTime = 0 \<rparr>,
     snapshot = \<lparr> snap_txid = t, observed_by_quorum = q, confirmed_in_block = b \<rparr> \<rparr>"

lemma conflict_resolution_is_order_free_witness:
  "\<exists>w. resolveConflict [demo_candidate ''aa'' False False, demo_candidate ''ab'' True False] = ok w
     \<and> resolveConflict [demo_candidate ''ab'' True False, demo_candidate ''aa'' False False] = ok w"
proof -
  let ?a = "demo_candidate ''aa'' False False" and ?b = "demo_candidate ''ab'' True False"
  have "inj_on (snap_txid \<circ> snapshot) (set [?a, ?b])" by (simp add: demo_candidate_def)
  from conflict_resolution_is_order_free[OF _ _ this, of "[?b, ?a]"] show ?thesis by auto
qed

lemma honest_reveals_list:
  assumes "deck_built sha n d" and "n \<le> 54" and "\<forall>i \<in> set is. 0 \<le> i \<and> i < n"
  shows "\<exists>rs. map_res (honestReveal sha d) is = ok rs \<and> list_all ro_verifies rs
    \<and> map ro_position rs = is \<and> map ro_ordinal rs = map (\<lambda>i. shuffledDeck d ! nat i) is"
  using assms(3)
proof (induction "is")
  case (Cons i "is")
  then obtain rs where "map_res (honestReveal sha d) is = ok rs" "list_all ro_verifies rs"
    "map ro_position rs = is" "map ro_ordinal rs = map (\<lambda>i. shuffledDeck d ! nat i) is" by auto
  then show ?case using honestReveal_built[OF assms(1,2), of "nat i"] Cons.prems by simp
qed simp

lemma built_positions:
  "deck_built sha n d \<Longrightarrow> map (int \<circ> dc_position) (perPosition d) = map int [0..<nat n]"
  by (auto simp: deck_built_def Let_def list_eq_iff_nth_eq)

text \<open>The deck simulation is honest and complete: with 32-byte entropies and a deck of 52 or 54 cards
  a simulation over all positions that does not throw reveals every position of the shuffled deck in
  order, with the ordinal the shuffle put there, and every reveal verifies.\<close>
theorem simulated_deck_verifies:
  assumes sha: "\<And>x. length (sha x) = 32"
    and r: "simulateDeck sha es (Some n) None None = Some (ok r)"
  shows "list_all ro_verifies (reveals r) \<and> map ro_position (reveals r) = map int [0..<nat n]
    \<and> map ro_ordinal (reveals r) = sim_shuffledDeck r \<and> set (sim_shuffledDeck r) = {0..<n}"
proof -
  from r obtain dc rs where d: "buildDeck sha es n 1 = Some (ok dc)"
    and rs: "map_res (honestReveal sha dc) (map (int \<circ> dc_position) (perPosition dc)) = ok rs"
    and eq: "reveals r = rs" "sim_shuffledDeck r = shuffledDeck dc"
    by (auto simp: simulateDeck_def pres_bind_eq_Inr res_bind_eq_Inr DEFAULT_ALGO_def Let_def)
  from d obtain c where "buildDeckCommitment sha c n 1 = Some (ok dc)"
    by (auto simp: buildDeck_def pres_bind_eq_Inr split: if_splits)
  note b = buildDeckCommitment_ok[OF sha this]
  note ps = built_positions[OF conjunct1[OF b]]
  have len: "length (shuffledDeck dc) = nat n" using b by (auto simp: deck_built_def)
  have "\<exists>rs. map_res (honestReveal sha dc) (map int [0..<nat n]) = ok rs \<and> list_all ro_verifies rs
    \<and> map ro_position rs = map int [0..<nat n]
    \<and> map ro_ordinal rs = map (\<lambda>i. shuffledDeck dc ! nat i) (map int [0..<nat n])"
    by (rule honest_reveals_list[of sha n]) (use b in auto)
  moreover have "map (\<lambda>i. shuffledDeck dc ! nat i) (map int [0..<nat n]) = shuffledDeck dc"
    using len by (simp add: list_eq_iff_nth_eq)
  ultimately show ?thesis using rs b unfolding eq ps by (auto simp: deck_built_def)
qed

lemma simulated_deck_verifies_witness:
  "\<exists>r. simulateDeck head_digest [gate_entropy 0, gate_entropy 9] (Some 52) None None = Some (ok r)
     \<and> list_all ro_verifies (reveals r)"
proof -
  obtain d where d: "buildDeckCommitment head_digest ([7, 0, 2] @ replicate 29 0) 52 1 = Some (ok d)"
    using buildDeckCommitment_total[of head_digest, OF head_digest_length gate_shuffle] by blast
  note b = buildDeckCommitment_ok[of head_digest, OF head_digest_length d]
  have bd: "buildDeck head_digest [gate_entropy 0, gate_entropy 9] 52 1 = Some (ok d)"
    using gate_combined d by (simp add: buildDeck_def gate_entropy_def)
  have "\<exists>rs. map_res (honestReveal head_digest d) (map (int \<circ> dc_position) (perPosition d)) = ok rs"
    using honest_reveals_list[of head_digest 52 d "map int [0..<nat 52]"] b
    unfolding built_positions[OF conjunct1[OF b]] by auto
  then obtain r where r: "simulateDeck head_digest [gate_entropy 0, gate_entropy 9] (Some 52) None None = Some (ok r)"
    by (auto simp: simulateDeck_def DEFAULT_ALGO_def bd Let_def)
  from simulated_deck_verifies[of head_digest, OF head_digest_length r] r show ?thesis by blast
qed

end
