(* ===== verification/Command_Lines.thy ===== *)
theory Command_Lines
  imports Simulators Transcript_Tools
begin

text \<open>
  The command lines of the tools: the option parser every tool has a copy of, and the \<open>main\<close> functions
  of \<open>tools/deck-simulator\<close>, \<open>tools/tx-simulator\<close> and \<open>tools/transcript-verifier\<close> from the arguments to
  what is printed (as data, before \<open>JSON.stringify\<close>). An exit with the usage text, an uncaught exception
  and a result are the three ends of a run. \<open>NaN\<close> is written as a number that the code then treats in the
  same way: an option that is no number becomes \<open>-1\<close> where the code rejects or never matches it, and \<open>0\<close>
  where the encoder turns it into zero bytes. Numbers above \<open>2 ^ 53\<close> are kept exact.
\<close>

section \<open>Strings\<close>

definition js_trim :: "string \<Rightarrow> string" where
  "js_trim s = rev (dropWhile js_space (rev (dropWhile js_space s)))"

fun js_split :: "char \<Rightarrow> string \<Rightarrow> string list" where
  "js_split d [] = [[]]"
| "js_split d (c # cs) =
     (if c = d then [] # js_split d cs
      else (case js_split d cs of [] \<Rightarrow> [[c]] | w # ws \<Rightarrow> (c # w) # ws))"

text \<open>\<open>parseInt(s, 10)\<close>.\<close>

definition dec_digit :: "char \<Rightarrow> int option" where
  "dec_digit c = (let n = int (of_char c) in if 48 \<le> n \<and> n \<le> 57 then Some (n - 48) else None)"

fun dec_run :: "int \<Rightarrow> string \<Rightarrow> int" where
  "dec_run acc [] = acc"
| "dec_run acc (c # cs) = (case dec_digit c of None \<Rightarrow> acc | Some d \<Rightarrow> dec_run (10 * acc + d) cs)"

definition parse_unsigned10 :: "string \<Rightarrow> int option" where
  "parse_unsigned10 s =
     (case s of [] \<Rightarrow> None | c # _ \<Rightarrow> if dec_digit c = None then None else Some (dec_run 0 s))"

definition parseInt10 :: "string \<Rightarrow> int option" where
  "parseInt10 s =
     (case dropWhile js_space s of
        [] \<Rightarrow> None
      | c # cs \<Rightarrow> if c = CHR ''-'' then map_option uminus (parse_unsigned10 cs)
                 else if c = CHR ''+'' then parse_unsigned10 cs
                 else parse_unsigned10 (c # cs))"

definition number_or :: "int \<Rightarrow> string \<Rightarrow> int" where
  "number_or nan s = (case parseInt10 s of None \<Rightarrow> nan | Some n \<Rightarrow> n)"

section \<open>Options\<close>

definition is_option :: "string \<Rightarrow> bool" where
  "is_option a \<longleftrightarrow> take 2 a = ''--''"

text \<open>\<open>out[key] = value\<close>; setting the prototype of the record to a string does nothing.\<close>

definition set_option :: "string \<Rightarrow> string \<Rightarrow> (string \<Rightarrow> string option) \<Rightarrow> (string \<Rightarrow> string option)" where
  "set_option key v out = (if key = ''__proto__'' then out else out(key \<mapsto> v))"

fun parse_args :: "(string \<Rightarrow> string option) \<Rightarrow> string list \<Rightarrow> (string \<Rightarrow> string option)" where
  "parse_args out [] = out"
| "parse_args out [a] = (if \<not> is_option a then out else set_option (drop 2 a) ''true'' out)"
| "parse_args out (a # nxt # rest) =
     (if \<not> is_option a then parse_args out (nxt # rest)
      else if is_option nxt then parse_args (set_option (drop 2 a) ''true'' out) (nxt # rest)
      else parse_args (set_option (drop 2 a) nxt out) rest)"

text \<open>An option the code reads as absent when it is missing or empty.\<close>

definition given :: "(string \<Rightarrow> string option) \<Rightarrow> string \<Rightarrow> string option" where
  "given out key = (case out key of None \<Rightarrow> None | Some v \<Rightarrow> if v = [] then None else Some v)"

datatype 'a exit = Exit_Usage | Exit_Fatal | Exit_With 'a

lemma parse_args_options:
  assumes "list_all (\<lambda>(k, v). k \<noteq> ''__proto__'' \<and> \<not> is_option v) kvs"
  shows "parse_args out (concat (map (\<lambda>(k, v). [''--'' @ k, v]) kvs)) = out ++ map_of (rev kvs)"
  using assms
proof (induction kvs arbitrary: out)
  case (Cons kv kvs)
  obtain k v where kv: "kv = (k, v)" by force
  have "is_option (''--'' @ k)" by (simp add: is_option_def)
  then show ?case using Cons by (simp add: kv set_option_def map_add_assoc)
qed simp

section \<open>The deck simulator\<close>

definition deck_simulator_main ::
  "(byte list \<Rightarrow> byte list) \<Rightarrow> string list \<Rightarrow> deck_sim_result exit option"
where
  "deck_simulator_main sha argv =
     (let args = parse_args Map.empty argv
      in case given args ''entropies'' of
           None \<Rightarrow> Some Exit_Usage
         | Some es \<Rightarrow>
             (let entropiesHex = [s \<leftarrow> map js_trim (js_split CHR '','' es). s \<noteq> []]
              in map_option (\<lambda>r. case r of Inl _ \<Rightarrow> Exit_Fatal | Inr x \<Rightarrow> Exit_With x)
                   (simulateDeck sha entropiesHex
                      (map_option (number_or (-1)) (given args ''deck-size''))
                      (map_option (number_or (-1)) (given args ''algo''))
                      (map_option (\<lambda>ps. map (number_or (-1) \<circ> js_trim) (js_split CHR '','' ps))
                         (given args ''positions'')))))"

section \<open>The transaction simulator\<close>

record tx_simulator_report =
  rep_candidates :: "built_candidate list"
  rep_winner :: built_candidate
  rep_recovery :: rebroadcast_result
  rep_pending :: "string list"

text \<open>\<open>BigInt\<close> throws on \<open>NaN\<close>.\<close>

definition tx_simulator_candidate ::
  "(byte list \<Rightarrow> byte list) \<Rightarrow> string \<Rightarrow> int \<Rightarrow> int \<Rightarrow> int \<Rightarrow> nat \<times> string \<Rightarrow> built_candidate result"
where
  "tx_simulator_candidate sha prev vout confirmedIdx quorumIdx ib =
     (case parseInt10 (js_trim (snd ib)) of
        None \<Rightarrow> throw ''BigInt''
      | Some bet \<Rightarrow> buildBetCandidate sha \<lparr>
          spec_candidateId = [char_of (65 + fst ib)], spec_prevTxidHex = prev, spec_prevVout = vout,
          spec_betValueSats = bet, spec_lockingScriptHex = None,
          spec_observedByQuorum = Some (int (fst ib) = quorumIdx),
          spec_confirmedInBlock = Some (int (fst ib) = confirmedIdx) \<rparr>)"

definition mempool_demo :: "built_candidate list \<Rightarrow> built_candidate \<Rightarrow> rebroadcast_result \<times> mempool" where
  "mempool_demo candidates winner =
     (let mp = foldl mempool_add [] candidates;
          mp' = snd (mempool_evict mp (built_txidHex winner))
      in rebroadcastIfEvicted mp' winner)"

definition tx_simulator_main :: "(byte list \<Rightarrow> byte list) \<Rightarrow> string list \<Rightarrow> tx_simulator_report exit" where
  "tx_simulator_main sha argv =
     (let args = parse_args Map.empty argv
      in case (given args ''prev'', given args ''bets'') of
           (Some prev, Some betsArg) \<Rightarrow>
             (let vout = (case given args ''vout'' of None \<Rightarrow> 0 | Some v \<Rightarrow> number_or 0 v);
                  bets = js_split CHR '','' betsArg;
                  confirmedIdx = (case given args ''confirmed'' of None \<Rightarrow> -1 | Some v \<Rightarrow> number_or (-1) v);
                  quorumIdx = (case given args ''quorum'' of None \<Rightarrow> -1 | Some v \<Rightarrow> number_or (-1) v)
              in case res_bind (map_res (tx_simulator_candidate sha prev vout confirmedIdx quorumIdx)
                                  (enumerate 0 bets))
                        (\<lambda>candidates. res_bind (resolveConflict candidates) (\<lambda>winner.
                           let demo = mempool_demo candidates winner
                           in ok \<lparr> rep_candidates = candidates, rep_winner = winner,
                                   rep_recovery = fst demo, rep_pending = mempool_list (snd demo) \<rparr>)) of
                   Inl _ \<Rightarrow> Exit_Fatal
                 | Inr r \<Rightarrow> Exit_With r)
         | _ \<Rightarrow> Exit_Usage)"

lemma dom_deleted: "fst ` set (AList.delete k al) = fst ` set al - {k}"
  using arg_cong[OF AList.delete_keys[of k al], of set] by (simp only: set_map set_removeAll)

lemma mempool_loaded:
  "fst ` set (foldl mempool_add mp cs) = fst ` set mp \<union> built_txidHex ` set cs"
  "distinct (map fst mp) \<Longrightarrow> distinct (map fst (foldl mempool_add mp cs))"
  by (induction cs arbitrary: mp) (auto simp: mempool_add_def dom_update distinct_update)

lemma mempool_demo_recovers:
  assumes "winner \<in> set cs"
  shows "fst (mempool_demo cs winner) = \<lparr> wasEvicted = True, rebroadcast = True \<rparr>
    \<and> set (mempool_list (snd (mempool_demo cs winner))) = built_txidHex ` set cs
    \<and> sorted (mempool_list (snd (mempool_demo cs winner)))
    \<and> distinct (mempool_list (snd (mempool_demo cs winner)))"
proof -
  let ?mp = "foldl mempool_add [] cs" and ?t = "built_txidHex winner"
  have gone: "\<not> mempool_has (AList.delete ?t ?mp) ?t"
    by (simp add: mempool_has_def delete_conv)
  have keys: "fst ` set (AList.update ?t (built_tx winner) (AList.delete ?t ?mp)) = built_txidHex ` set cs"
    using assms mempool_loaded(1)[of "[]" cs]
    by (auto simp: dom_update dom_deleted)
  have "distinct (map fst (AList.update ?t (built_tx winner) (AList.delete ?t ?mp)))"
    by (intro distinct_update distinct_delete mempool_loaded(2)) simp
  then show ?thesis
    using gone keys by (simp add: mempool_demo_def mempool_evict_def rebroadcastIfEvicted_def
        mempool_list_def mempool_add_def)
qed

text \<open>Whatever the simulator prints: the winner is one of the candidates, its eviction is detected and
  repaired, and the pending list is the sorted list of the candidates' distinct transaction ids.\<close>

lemma tx_simulator_reports:
  assumes "tx_simulator_main sha argv = Exit_With r"
  shows "rep_winner r \<in> set (rep_candidates r)
    \<and> rep_recovery r = \<lparr> wasEvicted = True, rebroadcast = True \<rparr>
    \<and> set (rep_pending r) = built_txidHex ` set (rep_candidates r)
    \<and> sorted (rep_pending r) \<and> distinct (rep_pending r)"
proof -
  from assms obtain cs w where w: "resolveConflict cs = ok w"
    and r: "r = \<lparr> rep_candidates = cs, rep_winner = w, rep_recovery = fst (mempool_demo cs w),
              rep_pending = mempool_list (snd (mempool_demo cs w)) \<rparr>"
    by (auto simp: tx_simulator_main_def Let_def res_bind_eq_Inr
        split: option.splits sum.splits prod.splits)
  have "w \<in> set cs" using w
    by (auto simp: resolveConflict_def Let_def find_Some_iff split: list.splits option.splits if_splits)
  then show ?thesis using mempool_demo_recovers r by simp
qed

section \<open>The transcript verifier\<close>

definition loadActions :: "(string \<Rightarrow> signed_action result) \<Rightarrow> string \<Rightarrow> signed_action list result" where
  "loadActions parse raw = map_res parse [l \<leftarrow> map js_trim (js_split (CHR 0x0A) raw). l \<noteq> []]"

definition verifier_cli ::
  "(byte list \<Rightarrow> byte list) \<Rightarrow> (string \<Rightarrow> string result) \<Rightarrow> (string \<Rightarrow> signed_action result) \<Rightarrow>
   string list \<Rightarrow> verifier_outcome exit option"
where
  "verifier_cli sha readFile parse argv =
     (let args = parse_args Map.empty argv
      in case (given args ''transcript'', given args ''game-id'') of
           (Some path, Some gameId) \<Rightarrow>
             (case res_bind (readFile path) (loadActions parse) of
                Inl _ \<Rightarrow> Some Exit_Fatal
              | Inr actions \<Rightarrow> map_option Exit_With
                  (verifier_main sha gameId
                     (case args ''rule-set-hash'' of None \<Rightarrow> ZERO_HASH | Some h \<Rightarrow> h)
                     (case args ''recovery-height'' of None \<Rightarrow> 244 | Some h \<Rightarrow> number_or (-1) h)
                     actions))
         | _ \<Rightarrow> Some Exit_Usage)"

lemma verifier_cli_defaults:
  assumes "readFile path = ok raw" and "loadActions parse raw = ok actions"
    and "\<not> is_option path" and "\<not> is_option gameId" and "path \<noteq> []" and "gameId \<noteq> []"
  shows "verifier_cli sha readFile parse [''--transcript'', path, ''--game-id'', gameId]
    = map_option Exit_With (verifier_main sha gameId ZERO_HASH 244 actions)"
proof -
  have "parse_args Map.empty [''--transcript'', path, ''--game-id'', gameId]
      = [''transcript'' \<mapsto> path, ''game-id'' \<mapsto> gameId]"
    using assms(3,4) parse_args_options[of "[(''transcript'', path), (''game-id'', gameId)]" Map.empty] by simp
  then show ?thesis using assms by (simp add: verifier_cli_def given_def)
qed

end
