(* ===== verification/Recorder_Session.thy ===== *)
theory Recorder_Session
  imports Command_Lines Wire
begin

text \<open>
  The live part of \<open>tools/transcript-recorder/src/index.ts\<close>: submitting the actions one by one to a relay
  and waiting for the reply to each. \<open>next\<close> returns the first matching frame among those received, or
  waits for one; as the predicate only looks behind the cursor and the cursor only advances, a run is
  determined by the frames that ever arrive, in their order: \<open>submit_all\<close> states that, and the machine of
  the live client after it is proved to do just that. An error reply ends the process whether or not its
  body parses.
\<close>

section \<open>Waiting for replies\<close>

definition is_reply :: "frame \<Rightarrow> bool" where
  "is_reply f \<longleftrightarrow> fr_type f = msg_type_code Msg_TableState \<or> fr_type f = msg_type_code Msg_ErrorReply"

text \<open>\<open>awaitOk\<close> on the frames behind the cursor: the reply with the frames behind it, or waiting for
  ever.\<close>

definition await_reply :: "frame list \<Rightarrow> (frame \<times> frame list) option" where
  "await_reply frames =
     (case dropWhile (\<lambda>f. \<not> is_reply f) frames of [] \<Rightarrow> None | f # fs \<Rightarrow> Some (f, fs))"

datatype recorder_outcome =
    Hangs "signed_action list"
  | Relay_Rejected "signed_action list"
  | Wrote "signed_action list"

text \<open>\<open>submit\<close> for the actions in turn; the first argument is the transcript so far.\<close>

fun submit_all :: "signed_action list \<Rightarrow> frame list \<Rightarrow> signed_action list \<Rightarrow> recorder_outcome" where
  "submit_all transcript frames [] = Wrote transcript"
| "submit_all transcript frames (a # as) =
     (case await_reply frames of
        None \<Rightarrow> Hangs (transcript @ [a])
      | Some (f, fs) \<Rightarrow>
          if fr_type f = msg_type_code Msg_ErrorReply then Relay_Rejected (transcript @ [a])
          else submit_all (transcript @ [a]) fs as)"

record recorder_args =
  ra_ws :: string
  ra_gameId :: string
  ra_out :: string

definition recorder_parseArgs :: "string list \<Rightarrow> recorder_args exit" where
  "recorder_parseArgs argv =
     (let out = parse_args Map.empty argv
      in case (given out ''ws'', given out ''game-id'', given out ''out'') of
           (Some ws, Some gameId, Some path) \<Rightarrow> Exit_With \<lparr> ra_ws = ws, ra_gameId = gameId, ra_out = path \<rparr>
         | _ \<Rightarrow> Exit_Usage)"

definition recorder_main ::
  "(byte list \<Rightarrow> byte list) \<Rightarrow> string list \<Rightarrow> frame list \<Rightarrow> recorder_outcome exit option"
where
  "recorder_main sha argv frames =
     (case recorder_parseArgs argv of
        Exit_With args \<Rightarrow>
          map_option (\<lambda>r. case r of Inl _ \<Rightarrow> Exit_Fatal | Inr acts \<Rightarrow> Exit_With (submit_all [] frames acts))
            (recorder_transcript sha (ra_gameId args))
      | Exit_Usage \<Rightarrow> Some Exit_Usage
      | Exit_Fatal \<Rightarrow> Some Exit_Fatal)"

section \<open>When a transcript is written\<close>

lemma await_reply_None: "await_reply frames = None \<longleftrightarrow> filter is_reply frames = []"
  by (induction frames) (auto simp: await_reply_def)

lemma await_reply_Some:
  "await_reply frames = Some (f, fs) \<Longrightarrow> is_reply f \<and> filter is_reply frames = f # filter is_reply fs"
  by (induction frames) (auto simp: await_reply_def split: if_splits)

text \<open>The file is written exactly when there is a reply for every action and the first so many replies
  are all states; then it holds all the actions in their order.\<close>

lemma submit_all_writes_iff:
  "submit_all tr frames acts = Wrote r \<longleftrightarrow> r = tr @ acts
     \<and> length acts \<le> length (filter is_reply frames)
     \<and> list_all (\<lambda>f. fr_type f = msg_type_code Msg_TableState) (take (length acts) (filter is_reply frames))"
proof (induction acts arbitrary: tr frames)
  case (Cons a as)
  show ?case
  proof (cases "await_reply frames")
    case None
    then show ?thesis using await_reply_None[of frames] by simp
  next
    case (Some ff)
    obtain f fs where ff: "ff = (f, fs)" by force
    have "is_reply f" and fil: "filter is_reply frames = f # filter is_reply fs"
      using await_reply_Some[of frames f fs] Some ff by auto
    then have "fr_type f = msg_type_code Msg_TableState \<or> fr_type f = msg_type_code Msg_ErrorReply"
      by (simp add: is_reply_def)
    then show ?thesis using Some ff Cons.IH[of "tr @ [a]" fs] unfolding fil by auto
  qed
qed auto

text \<open>What a relay that runs the same gate answers: one reply per action, up to the first rejection.\<close>

fun gate_answers :: "(byte list \<Rightarrow> byte list) \<Rightarrow> rule_set \<Rightarrow> round_state \<Rightarrow> signed_action list \<Rightarrow> msg_type list" where
  "gate_answers sha rs s [] = []"
| "gate_answers sha rs s (a # as) =
     (case verifyAndApply sha s a rs 100 of
        Some (Inr t) \<Rightarrow> Msg_TableState # gate_answers sha rs t as
      | _ \<Rightarrow> [Msg_ErrorReply])"

lemma accepted_answers:
  "verifier_loop sha rs s i as = Some (Inr t) \<Longrightarrow> gate_answers sha rs s as = replicate (length as) Msg_TableState"
  by (induction as arbitrary: s i) (auto split: option.splits sum.splits failure.splits)

lemma accepted_answers_converse:
  "gate_answers sha rs s as = replicate (length as) Msg_TableState \<Longrightarrow> \<exists>t. verifier_loop sha rs s i as = Some (Inr t)"
  by (induction as arbitrary: s i) (auto split: option.splits sum.splits)

text \<open>The recorder against such a relay: it writes the transcript exactly when the verifier's gate
  accepts every action of it, so a written transcript is one the verifier does not reject.\<close>

lemma recorder_writes_iff_gate_accepts:
  assumes frames: "map fr_type (filter is_reply frames) = map msg_type_code (gate_answers sha rs s acts)"
  shows "submit_all [] frames acts = Wrote acts \<longleftrightarrow> (\<exists>t. verifier_loop sha rs s 0 acts = Some (Inr t))"
proof -
  let ?rs = "filter is_reply frames" and ?as = "gate_answers sha rs s acts"
  have len: "length ?rs = length ?as" using arg_cong[OF frames, of length] by simp
  have short: "length ?as \<le> length acts"
    by (induction acts arbitrary: s) (auto split: option.splits sum.splits)
  have only: "set ?as \<subseteq> {Msg_TableState, Msg_ErrorReply}"
    by (induction acts arbitrary: s) (auto split: option.splits sum.splits)
  have "submit_all [] frames acts = Wrote acts \<longleftrightarrow> length acts \<le> length ?as
      \<and> list_all (\<lambda>c. c = msg_type_code Msg_TableState) (map fr_type ?rs)"
    unfolding submit_all_writes_iff using len short by (auto simp: list_all_iff)
  also have "\<dots> \<longleftrightarrow> length ?as = length acts \<and> (\<forall>m \<in> set ?as. m = Msg_TableState)"
  proof -
    have "msg_type_code m = msg_type_code Msg_TableState \<longleftrightarrow> m = Msg_TableState" if "m \<in> set ?as" for m
      using only that by auto
    then show ?thesis unfolding frames using short by (auto simp: list_all_iff)
  qed
  also have "\<dots> \<longleftrightarrow> ?as = replicate (length acts) Msg_TableState"
    using replicate_length_same[of ?as Msg_TableState] by auto
  finally show ?thesis using accepted_answers accepted_answers_converse by metis
qed

section \<open>The live client\<close>

text \<open>\<open>open\<close> and \<open>main\<close> as a machine: frames arrive (decoded) between any two steps of \<open>main\<close>. A predicate
  sees a frame with its position in \<open>received\<close>, which is what \<open>indexOf\<close> finds. The statuses are the
  points where \<open>main\<close> waits: for the encoder in \<open>sendAction\<close>, for a frame, for the continuation of a
  promise that has its frame.\<close>

record live_client =
  received :: "frame list"
  waiters :: "(nat \<Rightarrow> frame \<Rightarrow> bool) list"

definition next_frame :: "(nat \<Rightarrow> frame \<Rightarrow> bool) \<Rightarrow> live_client \<Rightarrow> nat option \<times> live_client" where
  "next_frame P c =
     (case find (\<lambda>i. P i (received c ! i)) [0..<length (received c)] of
        Some i \<Rightarrow> (Some i, c)
      | None \<Rightarrow> (None, c\<lparr> waiters := waiters c @ [P] \<rparr>))"

text \<open>A message: the frame is pushed and the waiters it satisfies are resolved with it and removed; the
  position is given when there was one.\<close>

definition on_live_message :: "frame \<Rightarrow> live_client \<Rightarrow> nat option \<times> live_client" where
  "on_live_message f c =
     (let i = length (received c)
      in (if list_ex (\<lambda>w. w i f) (waiters c) then Some i else None,
          \<lparr> received = received c @ [f], waiters = filter (\<lambda>w. \<not> w i f) (waiters c) \<rparr>))"

definition reply_after :: "int \<Rightarrow> nat \<Rightarrow> frame \<Rightarrow> bool" where
  "reply_after cursor i f \<longleftrightarrow> int i > cursor \<and> is_reply f"

definition encode_action ::
  "(byte list \<Rightarrow> byte list) \<Rightarrow> (signed_action \<Rightarrow> string) \<Rightarrow> signed_action \<Rightarrow> wire_error + byte list"
where
  "encode_action sha stringify a = encode sha \<lparr> fr_version = VERSION_1_0, fr_type = msg_type_code Msg_Action,
     fr_payload = utf8 (stringify a) \<rparr>"

datatype recorder_status =
    Submitting
  | Sending signed_action
  | Awaiting_Frame
  | Answered nat
  | Ended recorder_outcome
  | Crashed

record recorder_state =
  rc_client :: live_client
  rc_cursor :: int
  rc_transcript :: "signed_action list"
  rc_todo :: "signed_action list"
  rc_posted :: "byte list list"
  rc_status :: recorder_status

definition recorder_start :: "signed_action list \<Rightarrow> recorder_state" where
  "recorder_start acts = \<lparr> rc_client = \<lparr> received = [], waiters = [] \<rparr>, rc_cursor = -1, rc_transcript = [],
     rc_todo = acts, rc_posted = [], rc_status = Submitting \<rparr>"

datatype recorder_event = Frame_Arrives frame | Main_Continues

definition frame_arrives :: "frame \<Rightarrow> recorder_state \<Rightarrow> recorder_state" where
  "frame_arrives f st =
     (let (hit, c) = on_live_message f (rc_client st)
      in st\<lparr> rc_client := c,
             rc_status := (case hit of None \<Rightarrow> rc_status st
                           | Some i \<Rightarrow> if rc_status st = Awaiting_Frame then Answered i else rc_status st) \<rparr>)"

text \<open>\<open>sock.send\<close> and the call of \<open>next\<close>, once the frame is encoded.\<close>

definition send_and_wait ::
  "(byte list \<Rightarrow> byte list) \<Rightarrow> (signed_action \<Rightarrow> string) \<Rightarrow> signed_action \<Rightarrow> recorder_state \<Rightarrow> recorder_state"
where
  "send_and_wait sha stringify a st =
     (case encode_action sha stringify a of
        Inl _ \<Rightarrow> st\<lparr> rc_status := Crashed \<rparr>
      | Inr bs \<Rightarrow>
          (let (hit, c) = next_frame (reply_after (rc_cursor st)) (rc_client st)
           in st\<lparr> rc_posted := rc_posted st @ [bs], rc_client := c,
                  rc_status := (case hit of None \<Rightarrow> Awaiting_Frame | Some i \<Rightarrow> Answered i) \<rparr>))"

fun recorder_step ::
  "(byte list \<Rightarrow> byte list) \<Rightarrow> (signed_action \<Rightarrow> string) \<Rightarrow> recorder_state \<Rightarrow> recorder_event \<Rightarrow> unit + recorder_state"
where
  "recorder_step sha stringify st (Frame_Arrives f) = Inr (frame_arrives f st)"
| "recorder_step sha stringify st Main_Continues =
     (case rc_status st of
        Submitting \<Rightarrow>
          (case rc_todo st of
             [] \<Rightarrow> Inr (st\<lparr> rc_status := Ended (Wrote (rc_transcript st)) \<rparr>)
           | a # as \<Rightarrow> Inr (st\<lparr> rc_transcript := rc_transcript st @ [a], rc_todo := as, rc_status := Sending a \<rparr>))
      | Sending a \<Rightarrow> Inr (send_and_wait sha stringify a st)
      | Awaiting_Frame \<Rightarrow> Inl ()
      | Answered i \<Rightarrow>
          (let f = received (rc_client st) ! i; st' = st\<lparr> rc_cursor := int i \<rparr>
           in if fr_type f = msg_type_code Msg_ErrorReply
              then Inr (st'\<lparr> rc_status := Ended (Relay_Rejected (rc_transcript st)) \<rparr>)
              else Inr (st'\<lparr> rc_status := Submitting \<rparr>))
      | Ended _ \<Rightarrow> Inl ()
      | Crashed \<Rightarrow> Inl ())"

lemma await_reply_at:
  assumes "i < length fs" and "is_reply (fs ! i)" and "\<forall>j<i. \<not> is_reply (fs ! j)"
  shows "await_reply fs = Some (fs ! i, drop (Suc i) fs)"
proof -
  have "\<forall>f \<in> set (take i fs). \<not> is_reply f"
    using assms(1,3) by (auto simp: in_set_conv_nth)
  then have "dropWhile (\<lambda>f. \<not> is_reply f) (take i fs @ fs ! i # drop (Suc i) fs) = fs ! i # drop (Suc i) fs"
    using assms(2) by (subst dropWhile_append2) auto
  then show ?thesis using id_take_nth_drop[OF assms(1)] by (simp add: await_reply_def)
qed

lemma await_reply_more:
  "await_reply fs = Some (f, gs) \<Longrightarrow> await_reply (fs @ hs) = Some (f, gs @ hs)"
  by (induction fs) (auto simp: await_reply_def split: if_splits)

lemma await_reply_snoc:
  "await_reply fs = None \<Longrightarrow> await_reply (fs @ [f]) = (if is_reply f then Some (f, []) else None)"
  by (induction fs) (auto simp: await_reply_def split: if_splits list.splits)

lemma next_found:
  assumes "find (\<lambda>i. reply_after c i (fs ! i)) [0..<length fs] = Some i" and "-1 \<le> c"
  shows "i < length fs \<and> c < int i \<and> await_reply (drop (nat (c + 1)) fs) = Some (fs ! i, drop (Suc i) fs)"
proof -
  have i: "i < length fs" "c < int i" "is_reply (fs ! i)" and first: "\<forall>j<i. \<not> reply_after c j (fs ! j)"
    using assms(1) by (auto simp: find_Some_iff reply_after_def)
  let ?k = "nat (c + 1)"
  have k: "?k \<le> i" using i(2) assms(2) by simp
  have "\<forall>j < i - ?k. \<not> is_reply (drop ?k fs ! j)"
  proof (intro allI impI)
    fix j assume "j < i - ?k"
    then have "?k + j < i" "c < int (?k + j)" using assms(2) by auto
    then show "\<not> is_reply (drop ?k fs ! j)" using first i(1) k by (auto simp: reply_after_def)
  qed
  then have "await_reply (drop ?k fs) = Some (drop ?k fs ! (i - ?k), drop (Suc (i - ?k)) (drop ?k fs))"
    using i k by (intro await_reply_at) auto
  then show ?thesis using i k by (simp add: Suc_diff_le)
qed

lemma none_found:
  assumes "find (\<lambda>i. reply_after c i (fs ! i)) [0..<length fs] = None" and "-1 \<le> c"
  shows "await_reply (drop (nat (c + 1)) fs) = None"
proof -
  have "\<not> is_reply (fs ! i)" if "i < length fs" "c < int i" for i
    using assms(1) that by (auto simp: find_None_iff reply_after_def)
  then have "\<forall>f \<in> set (drop (nat (c + 1)) fs). \<not> is_reply f"
    using assms(2) by (auto simp: in_set_conv_nth)
  then show ?thesis by (simp add: await_reply_None filter_empty_conv)
qed

text \<open>What the recorder has come to, against \<open>submit_all\<close> on everything received, whatever comes later.\<close>

definition live_rest :: "recorder_state \<Rightarrow> frame list" where
  "live_rest st = drop (nat (rc_cursor st + 1)) (received (rc_client st))"

definition waits_with ::
  "(byte list \<Rightarrow> byte list) \<Rightarrow> (signed_action \<Rightarrow> string) \<Rightarrow> signed_action list \<Rightarrow> recorder_state \<Rightarrow> bool \<Rightarrow> bool"
where
  "waits_with sha stringify acts st sent \<longleftrightarrow> (\<exists>tr a. rc_transcript st = tr @ [a]
     \<and> map Inr (rc_posted st) = map (encode_action sha stringify) (if sent then tr @ [a] else tr)
     \<and> (rc_status st = Sending a \<or> sent)
     \<and> (\<forall>more. submit_all [] (received (rc_client st) @ more) acts
          = submit_all tr (live_rest st @ more) (a # rc_todo st)))"

definition all_posted ::
  "(byte list \<Rightarrow> byte list) \<Rightarrow> (signed_action \<Rightarrow> string) \<Rightarrow> recorder_state \<Rightarrow> bool"
where
  "all_posted sha stringify st \<longleftrightarrow>
     map Inr (rc_posted st) = map (encode_action sha stringify) (rc_transcript st)"

definition recorder_inv ::
  "(byte list \<Rightarrow> byte list) \<Rightarrow> (signed_action \<Rightarrow> string) \<Rightarrow> signed_action list \<Rightarrow> recorder_state \<Rightarrow> bool"
where
  "recorder_inv sha stringify acts st \<longleftrightarrow>
     -1 \<le> rc_cursor st \<and> rc_cursor st < int (length (received (rc_client st)))
     \<and> waiters (rc_client st) = (if rc_status st = Awaiting_Frame then [reply_after (rc_cursor st)] else [])
     \<and> rc_transcript st @ rc_todo st = acts
     \<and> (case rc_status st of
          Submitting \<Rightarrow> all_posted sha stringify st \<and> (\<forall>more. submit_all [] (received (rc_client st) @ more) acts
            = submit_all (rc_transcript st) (live_rest st @ more) (rc_todo st))
        | Sending a \<Rightarrow> waits_with sha stringify acts st False
        | Awaiting_Frame \<Rightarrow> await_reply (live_rest st) = None \<and> waits_with sha stringify acts st True
        | Answered i \<Rightarrow> waits_with sha stringify acts st True \<and> i < length (received (rc_client st))
            \<and> await_reply (live_rest st) = Some (received (rc_client st) ! i, drop (Suc i) (received (rc_client st)))
        | Ended out \<Rightarrow> all_posted sha stringify st
            \<and> (\<forall>more. submit_all [] (received (rc_client st) @ more) acts = out)
        | Crashed \<Rightarrow> True)"

lemma recorder_start_inv: "recorder_inv sha stringify acts (recorder_start acts)"
  by (simp add: recorder_inv_def recorder_start_def all_posted_def live_rest_def)

lemma frame_arrives_inv:
  assumes inv: "recorder_inv sha stringify acts st"
  shows "recorder_inv sha stringify acts (frame_arrives f st)"
proof -
  let ?rc = "received (rc_client st)" and ?st = "frame_arrives f st"
  have c: "-1 \<le> rc_cursor st" "rc_cursor st < int (length ?rc)"
    and w: "waiters (rc_client st) = (if rc_status st = Awaiting_Frame then [reply_after (rc_cursor st)] else [])"
    using inv by (auto simp: recorder_inv_def)
  have hit: "reply_after (rc_cursor st) (length ?rc) f \<longleftrightarrow> is_reply f" using c by (simp add: reply_after_def)
  have rc: "received (rc_client ?st) = ?rc @ [f]" "rc_cursor ?st = rc_cursor st"
    "rc_transcript ?st = rc_transcript st" "rc_todo ?st = rc_todo st" "rc_posted ?st = rc_posted st"
    by (simp_all add: frame_arrives_def on_live_message_def Let_def)
  have rest: "live_rest ?st = live_rest st @ [f]" using c by (simp add: live_rest_def rc)
  have status: "rc_status ?st = (if rc_status st = Awaiting_Frame \<and> is_reply f then Answered (length ?rc) else rc_status st)"
    "waiters (rc_client ?st) = (if rc_status ?st = Awaiting_Frame then [reply_after (rc_cursor st)] else [])"
    using w hit by (auto simp: frame_arrives_def on_live_message_def Let_def)
  have post: "all_posted sha stringify ?st = all_posted sha stringify st" by (simp add: all_posted_def rc)
  have wait: "waits_with sha stringify acts ?st b"
    if wt: "waits_with sha stringify acts st b" and same: "b \<or> rc_status ?st = rc_status st" for b
  proof -
    obtain tr a where w: "rc_transcript st = tr @ [a]"
      "map Inr (rc_posted st) = map (encode_action sha stringify) (if b then tr @ [a] else tr)"
      "rc_status st = Sending a \<or> b"
      and more: "\<And>more. submit_all [] (?rc @ more) acts = submit_all tr (live_rest st @ more) (a # rc_todo st)"
      using wt unfolding waits_with_def by blast
    have "submit_all [] ((?rc @ [f]) @ more) acts = submit_all tr ((live_rest st @ [f]) @ more) (a # rc_todo st)" for more
      using more[of "f # more"] by (simp only: append_assoc append_Cons append_Nil)
    then show ?thesis unfolding waits_with_def rc rest using w same by (intro exI[of _ tr] exI[of _ a]) auto
  qed
  show ?thesis
  proof (cases "rc_status st = Awaiting_Frame")
    case True
    then have "waits_with sha stringify acts ?st True" "await_reply (live_rest st) = None"
      using inv wait[of True] by (auto simp: recorder_inv_def)
    then show ?thesis using inv True status await_reply_snoc[of "live_rest st" f]
      by (auto simp: recorder_inv_def rc rest)
  next
    case False
    then have "rc_status ?st = rc_status st" using status by simp
    then show ?thesis using inv False status wait
      by (auto simp: recorder_inv_def rc rest post nth_append dest: await_reply_more split: recorder_status.splits)
  qed
qed

text \<open>Each continuation of \<open>main\<close>.\<close>

lemma submitting_inv:
  assumes inv: "recorder_inv sha stringify acts st" and s: "rc_status st = Submitting"
    and step: "recorder_step sha stringify st Main_Continues = Inr st'"
  shows "recorder_inv sha stringify acts st'"
proof (cases "rc_todo st")
  case Nil
  then show ?thesis using inv s step by (auto simp: recorder_inv_def all_posted_def)
next
  case (Cons a as)
  then have st': "st' = st\<lparr> rc_transcript := rc_transcript st @ [a], rc_todo := as, rc_status := Sending a \<rparr>"
    using s step by simp
  have "live_rest st' = live_rest st" by (simp add: st' live_rest_def)
  then have "waits_with sha stringify acts st' False"
    unfolding waits_with_def
    using inv s Cons by (intro exI[of _ "rc_transcript st"] exI[of _ a])
      (simp add: st' recorder_inv_def all_posted_def del: submit_all.simps)
  then show ?thesis using inv s Cons by (auto simp: recorder_inv_def st')
qed

lemma sending_inv:
  assumes inv: "recorder_inv sha stringify acts st" and s: "rc_status st = Sending a"
  shows "recorder_inv sha stringify acts (send_and_wait sha stringify a st)"
proof (cases "encode_action sha stringify a")
  case (Inl e)
  then show ?thesis using inv s by (auto simp: recorder_inv_def send_and_wait_def)
next
  case (Inr bs)
  let ?st = "send_and_wait sha stringify a st" and ?rc = "received (rc_client st)"
  have c: "-1 \<le> rc_cursor st" and w: "waiters (rc_client st) = []"
    and wt: "waits_with sha stringify acts st False"
    using inv s by (auto simp: recorder_inv_def)
  have fields: "received (rc_client ?st) = ?rc" "rc_cursor ?st = rc_cursor st" "rc_transcript ?st = rc_transcript st"
    "rc_todo ?st = rc_todo st" "rc_posted ?st = rc_posted st @ [bs]" "live_rest ?st = live_rest st"
    by (simp_all add: send_and_wait_def Inr next_frame_def live_rest_def split: option.splits prod.splits)
  have wait: "waits_with sha stringify acts ?st True"
    using wt s Inr unfolding waits_with_def fields by auto
  show ?thesis
  proof (cases "find (\<lambda>i. reply_after (rc_cursor st) i (?rc ! i)) [0..<length ?rc]")
    case None
    then have "rc_status ?st = Awaiting_Frame" "waiters (rc_client ?st) = [reply_after (rc_cursor st)]"
      by (simp_all add: send_and_wait_def Inr next_frame_def w)
    then show ?thesis using inv wait none_found[OF None c]
      by (auto simp: recorder_inv_def fields) (simp add: live_rest_def)
  next
    case (Some i)
    then have "rc_status ?st = Answered i" "waiters (rc_client ?st) = []"
      by (simp_all add: send_and_wait_def Inr next_frame_def w)
    then show ?thesis using inv wait next_found[OF Some c]
      by (auto simp: recorder_inv_def fields) (simp add: live_rest_def)
  qed
qed

lemma answered_inv:
  assumes inv: "recorder_inv sha stringify acts st" and s: "rc_status st = Answered i"
    and step: "recorder_step sha stringify st Main_Continues = Inr st'"
  shows "recorder_inv sha stringify acts st'"
proof -
  let ?rc = "received (rc_client st)"
  have i: "i < length ?rc" and reply: "await_reply (live_rest st) = Some (?rc ! i, drop (Suc i) ?rc)"
    and wt: "waits_with sha stringify acts st True"
    using inv s by (auto simp: recorder_inv_def)
  obtain tr a where tr: "rc_transcript st = tr @ [a]" and posted: "all_posted sha stringify st"
    and more: "\<And>more. submit_all [] (?rc @ more) acts = submit_all tr (live_rest st @ more) (a # rc_todo st)"
    using wt by (auto simp: waits_with_def all_posted_def simp del: submit_all.simps)
  have answer: "submit_all [] (?rc @ more) acts =
      (if fr_type (?rc ! i) = msg_type_code Msg_ErrorReply then Relay_Rejected (rc_transcript st)
       else submit_all (rc_transcript st) (drop (Suc i) ?rc @ more) (rc_todo st))" for more
    unfolding more by (simp add: await_reply_more[OF reply] tr)
  have base: "waiters (rc_client st) = []" "rc_transcript st @ rc_todo st = acts"
    using inv s by (auto simp: recorder_inv_def)
  have rest: "live_rest (st\<lparr> rc_cursor := int i, rc_status := x \<rparr>) = drop (Suc i) ?rc" for x
    by (simp add: live_rest_def nat_add_distrib)
  show ?thesis
  proof (cases "fr_type (?rc ! i) = msg_type_code Msg_ErrorReply")
    case True
    then have "st' = st\<lparr> rc_cursor := int i, rc_status := Ended (Relay_Rejected (rc_transcript st)) \<rparr>"
      using s step by (simp add: Let_def)
    then show ?thesis using i base posted answer True by (simp add: recorder_inv_def all_posted_def)
  next
    case False
    then have "st' = st\<lparr> rc_cursor := int i, rc_status := Submitting \<rparr>"
      using s step by (simp add: Let_def)
    then show ?thesis using i base posted answer False rest[of Submitting]
      by (simp add: recorder_inv_def all_posted_def)
  qed
qed

lemma recorder_step_inv:
  assumes "recorder_inv sha stringify acts st" and "recorder_step sha stringify st ev = Inr st'"
  shows "recorder_inv sha stringify acts st'"
proof (cases ev)
  case (Frame_Arrives f)
  then show ?thesis using assms frame_arrives_inv by auto
next
  case Main_Continues
  note step = assms(2)[unfolded Main_Continues]
  show ?thesis
  proof (cases "rc_status st")
    case (Sending a)
    then show ?thesis using step sending_inv[OF assms(1) Sending] by simp
  qed (use step submitting_inv[OF assms(1) _ step] answered_inv[OF assms(1) _ step] in simp_all)
qed

interpretation rec: guarded_machine "recorder_step sha stringify" "recorder_inv sha stringify acts"
  by unfold_locales (rule recorder_step_inv)

section \<open>The live recorder refines its submissions\<close>

definition recorder_left :: "recorder_state \<Rightarrow> nat" where
  "recorder_left st = 3 * length (rc_todo st) + (case rc_status st of
     Submitting \<Rightarrow> 1 | Sending _ \<Rightarrow> 3 | Awaiting_Frame \<Rightarrow> 2 | Answered _ \<Rightarrow> 2 | Ended _ \<Rightarrow> 0 | Crashed \<Rightarrow> 0)"

fun own_step :: "recorder_event \<Rightarrow> nat" where
  "own_step (Frame_Arrives _) = 0"
| "own_step Main_Continues = 1"

fun arrival :: "recorder_event \<Rightarrow> frame list" where
  "arrival (Frame_Arrives f) = [f]"
| "arrival Main_Continues = []"

lemma recorder_step_left:
  "recorder_step sha stringify st ev = Inr st' \<Longrightarrow> own_step ev + recorder_left st' \<le> recorder_left st"
  by (cases ev) (auto simp: recorder_left_def frame_arrives_def on_live_message_def send_and_wait_def Let_def
      split: recorder_status.splits list.splits option.splits sum.splits if_splits prod.splits)

lemma recorder_step_received:
  "recorder_step sha stringify st ev = Inr st' \<Longrightarrow>
     received (rc_client st') = received (rc_client st) @ arrival ev"
  by (cases ev) (auto simp: frame_arrives_def on_live_message_def send_and_wait_def next_frame_def Let_def
      split: recorder_status.splits list.splits option.splits sum.splits if_splits prod.splits)

lemma recorder_run_left:
  "run_machine (recorder_step sha stringify) st evs = Inr st' \<Longrightarrow>
     sum_list (map own_step evs) + recorder_left st' \<le> recorder_left st"
proof (induction evs arbitrary: st)
  case (Cons ev evs)
  then obtain s1 where s1: "recorder_step sha stringify st ev = Inr s1"
    and "run_machine (recorder_step sha stringify) s1 evs = Inr st'"
    by (auto simp: res_bind_eq_Inr)
  with Cons.IH recorder_step_left[OF s1] show ?case by fastforce
qed simp

lemma recorder_run_received:
  "run_machine (recorder_step sha stringify) st evs = Inr st' \<Longrightarrow>
     received (rc_client st') = received (rc_client st) @ concat (map arrival evs)"
  by (induction evs arbitrary: st) (auto simp: res_bind_eq_Inr recorder_step_received)

lemma waiting_hangs:
  assumes "recorder_inv sha stringify acts st" and "rc_status st = Awaiting_Frame"
  shows "submit_all [] (received (rc_client st)) acts = Hangs (rc_transcript st)"
proof -
  obtain tr a where "rc_transcript st = tr @ [a]" "await_reply (live_rest st) = None"
    and more: "\<And>more. submit_all [] (received (rc_client st) @ more) acts = submit_all tr (live_rest st @ more) (a # rc_todo st)"
    using assms by (auto simp: recorder_inv_def waits_with_def simp del: submit_all.simps)
  then show ?thesis using more[of "[]"] by simp
qed

lemma ended_result:
  assumes "recorder_inv sha stringify acts st" and "rc_status st = Ended out"
  shows "submit_all [] (received (rc_client st)) acts = out
    \<and> map Inr (rc_posted st) = map (encode_action sha stringify) (rc_transcript st)"
proof -
  have "\<And>more. submit_all [] (received (rc_client st) @ more) acts = out" "all_posted sha stringify st"
    using assms by (auto simp: recorder_inv_def)
  from this(1)[of "[]"] this(2) show ?thesis by (simp add: all_posted_def)
qed

text \<open>C38. The recorder is what its submissions make of the frames, however arrivals and its own steps
  interleave: it takes at most three steps per action and one; what it has received is what arrived, in
  order; if it waits, the frames so far hold no further reply and \<open>submit_all\<close> hangs on them with the same
  transcript; if it has ended, it sent exactly the actions of its transcript, and ended as \<open>submit_all\<close> does
  on the frames; and in no other status is it stuck, except after an action too long to encode. Written
  against a relay that answers as the gate does, the transcript is one the verifier's gate accepts.\<close>

theorem recorder_refines_submission:
  assumes "run_machine (recorder_step sha stringify) (recorder_start acts) evs = Inr st"
  shows "sum_list (map own_step evs) \<le> 3 * length acts + 1
    \<and> received (rc_client st) = concat (map arrival evs)
    \<and> (case rc_status st of
         Awaiting_Frame \<Rightarrow> submit_all [] (concat (map arrival evs)) acts = Hangs (rc_transcript st)
       | Ended out \<Rightarrow> submit_all [] (concat (map arrival evs)) acts = out
           \<and> map Inr (rc_posted st) = map (encode_action sha stringify) (rc_transcript st)
       | Crashed \<Rightarrow> True
       | _ \<Rightarrow> recorder_step sha stringify st Main_Continues \<noteq> Inl ())
    \<and> (rc_status st = Ended (Wrote acts)
       \<and> map fr_type (filter is_reply (concat (map arrival evs))) = map msg_type_code (gate_answers h rs s acts)
       \<longrightarrow> (\<exists>t. verifier_loop h rs s 0 acts = Some (Inr t)))"
proof -
  have inv: "recorder_inv sha stringify acts st"
    using rec.run_inv[OF recorder_start_inv assms] .
  have steps: "sum_list (map own_step evs) \<le> 3 * length acts + 1"
    using recorder_run_left[OF assms] by (simp add: recorder_left_def recorder_start_def)
  have rc: "received (rc_client st) = concat (map arrival evs)"
    using recorder_run_received[OF assms] by (simp add: recorder_start_def)
  have status: "case rc_status st of
         Awaiting_Frame \<Rightarrow> submit_all [] (concat (map arrival evs)) acts = Hangs (rc_transcript st)
       | Ended out \<Rightarrow> submit_all [] (concat (map arrival evs)) acts = out
           \<and> map Inr (rc_posted st) = map (encode_action sha stringify) (rc_transcript st)
       | Crashed \<Rightarrow> True
       | _ \<Rightarrow> recorder_step sha stringify st Main_Continues \<noteq> Inl ()"
    using waiting_hangs[OF inv] ended_result[OF inv] unfolding rc
    by (auto simp: Let_def split: recorder_status.splits list.splits)
  have "\<exists>t. verifier_loop h rs s 0 acts = Some (Inr t)"
    if "rc_status st = Ended (Wrote acts)"
      "map fr_type (filter is_reply (concat (map arrival evs))) = map msg_type_code (gate_answers h rs s acts)"
    using recorder_writes_iff_gate_accepts[OF that(2)] ended_result[OF inv that(1)] unfolding rc by blast
  then show ?thesis using steps rc status by blast
qed

definition one_lock :: signed_action where
  "one_lock = recorder_base ''aa'' 1 None TableLock_Payload"

definition state_frame :: frame where
  "state_frame = \<lparr> fr_version = 256, fr_type = msg_type_code Msg_TableState, fr_payload = [] \<rparr>"

definition other_frame :: frame where
  "other_frame = \<lparr> fr_version = 256, fr_type = msg_type_code Msg_Ping, fr_payload = [] \<rparr>"

definition one_exchange :: "recorder_event list" where
  "one_exchange = [Main_Continues, Frame_Arrives other_frame, Main_Continues, Frame_Arrives state_frame,
     Main_Continues, Main_Continues]"

theorem recorder_refines_submission_witness:
  "\<exists>st. run_machine (recorder_step (\<lambda>_. replicate 32 0) (\<lambda>_. [])) (recorder_start [one_lock]) one_exchange = Inr st
     \<and> rc_status st = Ended (Wrote [one_lock])
     \<and> submit_all [] [other_frame, state_frame] [one_lock] = Wrote [one_lock]"
proof -
  let ?sha = "\<lambda>_. replicate 32 0" and ?str = "\<lambda>_. []"
  obtain bs where bs: "encode_action ?sha ?str one_lock = Inr bs"
    by (simp add: encode_action_def encode_def MAX_PAYLOAD_SIZE_def utf8_def)
  have "\<exists>st. run_machine (recorder_step ?sha ?str) (recorder_start [one_lock]) one_exchange = Inr st
      \<and> rc_status st = Ended (Wrote [one_lock])"
    by (simp add: one_exchange_def recorder_start_def frame_arrives_def on_live_message_def send_and_wait_def bs
        next_frame_def reply_after_def is_reply_def state_frame_def other_frame_def Let_def)
  then obtain st where run: "run_machine (recorder_step ?sha ?str) (recorder_start [one_lock]) one_exchange = Inr st"
    and e: "rc_status st = Ended (Wrote [one_lock])" by blast
  have "submit_all [] [other_frame, state_frame] [one_lock] = Wrote [one_lock]"
    using recorder_refines_submission[OF run, unfolded e] by (simp add: one_exchange_def)
  then show ?thesis using run e by blast
qed

end
