(* ===== verification/Messages.thy ===== *)
theory Messages
  imports Wire Replay
begin

text \<open>
  The message and record types of \<open>packages/protocol-types/src\<close> that the engine does not use:
  \<open>messages.ts\<close>, \<open>transcript.ts\<close>, and the remaining interfaces of \<open>settlement.ts\<close>, \<open>player.ts\<close>,
  \<open>cards.ts\<close> and \<open>game-state.ts\<close>; and the agreement of the message codes with those of the wire
  package, which declares its own.
\<close>

section \<open>Message codes\<close>

datatype message_type =
      MT_VERSION | MT_VERACK | MT_PING | MT_PONG | MT_GETADDR | MT_ADDR | MT_INV | MT_GETDATA
    | MT_OBJECT | MT_NOTFOUND | MT_REJECT | MT_TABLE_ANNOUNCE | MT_SEAT_COMMIT
    | MT_TABLE_START | MT_ACTION_COMMIT | MT_ACTION_REVEAL | MT_ROUND_RESULT
    | MT_TRANSCRIPT_HASH | MT_TABLE_CLOSE | MT_TIMEOUT_NOTICE | MT_C2R_JOIN_TABLE
    | MT_C2R_READY | MT_C2R_ACTION | MT_C2R_COMMITMENT | MT_C2R_REVEAL | MT_C2R_CARD_REVEAL
    | MT_C2R_FOLD | MT_C2R_TRANSCRIPT_REQUEST | MT_R2C_TABLE_STATE | MT_R2C_ACTION_ACCEPTED
    | MT_R2C_PEER_ACTION | MT_R2C_TRANSCRIPT_RESPONSE | MT_R2C_ERROR

fun MESSAGE_TYPE :: "message_type \<Rightarrow> int" where
  "MESSAGE_TYPE MT_VERSION = 0x0001"
| "MESSAGE_TYPE MT_VERACK = 0x0002"
| "MESSAGE_TYPE MT_PING = 0x0003"
| "MESSAGE_TYPE MT_PONG = 0x0004"
| "MESSAGE_TYPE MT_GETADDR = 0x0005"
| "MESSAGE_TYPE MT_ADDR = 0x0006"
| "MESSAGE_TYPE MT_INV = 0x0100"
| "MESSAGE_TYPE MT_GETDATA = 0x0101"
| "MESSAGE_TYPE MT_OBJECT = 0x0102"
| "MESSAGE_TYPE MT_NOTFOUND = 0x0103"
| "MESSAGE_TYPE MT_REJECT = 0x0104"
| "MESSAGE_TYPE MT_TABLE_ANNOUNCE = 0x0200"
| "MESSAGE_TYPE MT_SEAT_COMMIT = 0x0201"
| "MESSAGE_TYPE MT_TABLE_START = 0x0202"
| "MESSAGE_TYPE MT_ACTION_COMMIT = 0x0203"
| "MESSAGE_TYPE MT_ACTION_REVEAL = 0x0204"
| "MESSAGE_TYPE MT_ROUND_RESULT = 0x0205"
| "MESSAGE_TYPE MT_TRANSCRIPT_HASH = 0x0206"
| "MESSAGE_TYPE MT_TABLE_CLOSE = 0x0207"
| "MESSAGE_TYPE MT_TIMEOUT_NOTICE = 0x0208"
| "MESSAGE_TYPE MT_C2R_JOIN_TABLE = 0x0300"
| "MESSAGE_TYPE MT_C2R_READY = 0x0301"
| "MESSAGE_TYPE MT_C2R_ACTION = 0x0302"
| "MESSAGE_TYPE MT_C2R_COMMITMENT = 0x0303"
| "MESSAGE_TYPE MT_C2R_REVEAL = 0x0304"
| "MESSAGE_TYPE MT_C2R_CARD_REVEAL = 0x0305"
| "MESSAGE_TYPE MT_C2R_FOLD = 0x0306"
| "MESSAGE_TYPE MT_C2R_TRANSCRIPT_REQUEST = 0x0307"
| "MESSAGE_TYPE MT_R2C_TABLE_STATE = 0x0380"
| "MESSAGE_TYPE MT_R2C_ACTION_ACCEPTED = 0x0381"
| "MESSAGE_TYPE MT_R2C_PEER_ACTION = 0x0382"
| "MESSAGE_TYPE MT_R2C_TRANSCRIPT_RESPONSE = 0x0383"
| "MESSAGE_TYPE MT_R2C_ERROR = 0x03FE"

text \<open>The member of the wire enumeration that stands for a message.\<close>

fun wire_type :: "message_type \<Rightarrow> msg_type" where
  "wire_type MT_VERSION = Msg_Version"
| "wire_type MT_VERACK = Msg_Verack"
| "wire_type MT_PING = Msg_Ping"
| "wire_type MT_PONG = Msg_Pong"
| "wire_type MT_GETADDR = Msg_Getaddr"
| "wire_type MT_ADDR = Msg_Addr"
| "wire_type MT_INV = Msg_Inv"
| "wire_type MT_GETDATA = Msg_Getdata"
| "wire_type MT_OBJECT = Msg_Object"
| "wire_type MT_NOTFOUND = Msg_NotFound"
| "wire_type MT_REJECT = Msg_Reject"
| "wire_type MT_TABLE_ANNOUNCE = Msg_TableAnnounce"
| "wire_type MT_SEAT_COMMIT = Msg_SeatCommit"
| "wire_type MT_TABLE_START = Msg_TableStart"
| "wire_type MT_ACTION_COMMIT = Msg_ActionCommit"
| "wire_type MT_ACTION_REVEAL = Msg_ActionReveal"
| "wire_type MT_ROUND_RESULT = Msg_RoundResult"
| "wire_type MT_TRANSCRIPT_HASH = Msg_TranscriptHash"
| "wire_type MT_TABLE_CLOSE = Msg_TableClose"
| "wire_type MT_TIMEOUT_NOTICE = Msg_TimeoutNotice"
| "wire_type MT_C2R_JOIN_TABLE = Msg_JoinTable"
| "wire_type MT_C2R_READY = Msg_Ready"
| "wire_type MT_C2R_ACTION = Msg_Action"
| "wire_type MT_C2R_COMMITMENT = Msg_Commitment"
| "wire_type MT_C2R_REVEAL = Msg_Reveal"
| "wire_type MT_C2R_CARD_REVEAL = Msg_CardReveal"
| "wire_type MT_C2R_FOLD = Msg_Fold"
| "wire_type MT_C2R_TRANSCRIPT_REQUEST = Msg_TranscriptRequest"
| "wire_type MT_R2C_TABLE_STATE = Msg_TableState"
| "wire_type MT_R2C_ACTION_ACCEPTED = Msg_ActionAccepted"
| "wire_type MT_R2C_PEER_ACTION = Msg_PeerAction"
| "wire_type MT_R2C_TRANSCRIPT_RESPONSE = Msg_TranscriptResponse"
| "wire_type MT_R2C_ERROR = Msg_ErrorReply"

lemma message_codes_agree: "MESSAGE_TYPE t = msg_type_code (wire_type t)"
  by (cases t) simp_all

lemma message_codes_complete: "\<exists>t. wire_type t = w"
  by (cases w) (metis wire_type.simps)+

lemma message_codes_distinct: "MESSAGE_TYPE t = MESSAGE_TYPE u \<Longrightarrow> t = u"
  by (cases t; cases u; simp)

section \<open>Records of a session\<close>

datatype lifecycle_status =
    LS_Open | LS_Locked | LS_Shuffling | LS_Dealing | LS_Active | LS_Settling | LS_Closed | LS_Recovered

record game_instance =
  gi_game_id :: game_id
  gi_rule_set_hash :: rule_set_hash
  gi_player_list :: "player_state list"
  gi_turn_order :: "seat list"
  gi_current_round_number :: round_number
  gi_current_state_hash :: hash256
  gi_lifecycle_status :: lifecycle_status

record anchored_deck =
  ad_combined_entropy :: hash256
  ad_shuffle_algorithm_version :: int
  ad_deck_commitment_hash :: hash256
  ad_hidden_card_commitments :: "card_commitment list"
  ad_reveal_history :: "reveal_proof list"

record refund =
  rf_seat :: seat
  refund_sats :: satoshis
  penalty_paid_sats :: satoshis
  penalty_received_sats :: satoshis

record recovery_record =
  stalled_state_hash :: hash256
  recovery_trigger :: string
  final_distribution :: "refund list"
  penalty_burnt_sats :: satoshis

record wallet_identity =
  wi_value_signing_pubkey :: pubkey33
  wi_session_messaging_pubkey :: pubkey33
  wi_card_encryption_pubkey :: pubkey33

datatype transcript_entry =
    State_Committed hash256
  | Signed_Action_Entry signed_action tx_id
  | Reveal_Proof_Entry reveal_proof tx_id
  | Timeout_Activation hash256 tx_id
  | Settlement_Entry settlement_result tx_id
  | Recovery_Entry recovery_record tx_id

type_synonym audit_transcript = "transcript_entry list"

datatype client_message =
    CM_Join_Table hash256
  | CM_Ready hash256
  | CM_Action hash256 signed_action
  | CM_Transcript_Request hash256 hash256
  | CM_Ping

datatype relay_message =
    RM_Table_State round_state
  | RM_Action_Accepted signed_action
  | RM_Timeout_Notice hash256
  | RM_Settlement settlement_result
  | RM_Recovery_Activated recovery_record
  | RM_Peer_Action signed_action
  | RM_Transcript_Response "transcript_entry list"
  | RM_Error string string
  | RM_Pong

end
