(* ===== verification/Load_Test.thy ===== *)
theory Load_Test
  imports Command_Lines Wire
begin

text \<open>
  \<open>tools/load-test/src/index.ts\<close>: one connection (\<open>runOne\<close>) as a machine over the events its handlers
  and its timer see, the scheduling loop of \<open>main\<close> as a machine over its own steps and the completions of
  sessions, and the report. Clock readings are arguments, whole numbers of thousandths of a millisecond.
  A handler that waits (for the encoder, for the decoder) is split there or, where nothing runs before
  the wait, starts after it. \<open>stringify\<close> and \<open>parse_code\<close> stand for \<open>JSON.stringify\<close> and for reading
  \<open>code\<close> from a JSON body, as the template prints it (absent where that throws); \<open>accepts_url\<close> says for which
  addresses the socket's constructor does not throw. The keys of the error
  summary are taken not to be names every JavaScript object has, such as \<open>constructor\<close>.
\<close>

section \<open>Arguments\<close>

text \<open>A number of connections that is no number starts none, a concurrency that is no number admits none;
  a timeout that is no number stays absent.\<close>

record load_args =
  la_ws :: string
  la_gameId :: string
  la_connections :: int
  la_concurrency :: int
  la_timeoutMs :: "int option"

definition option_or :: "(string \<Rightarrow> string option) \<Rightarrow> string \<Rightarrow> string \<Rightarrow> string" where
  "option_or out key dflt = (case out key of None \<Rightarrow> dflt | Some v \<Rightarrow> v)"

definition load_parseArgs :: "string list \<Rightarrow> load_args exit" where
  "load_parseArgs argv =
     (let out = parse_args Map.empty argv
      in case (given out ''ws'', given out ''game-id'') of
           (Some ws, Some gameId) \<Rightarrow> Exit_With \<lparr> la_ws = ws, la_gameId = gameId,
             la_connections = number_or 0 (option_or out ''connections'' ''20''),
             la_concurrency = number_or 0 (option_or out ''concurrency'' ''20''),
             la_timeoutMs = parseInt10 (option_or out ''timeout-ms'' ''10000'') \<rparr>
         | _ \<Rightarrow> Exit_Usage)"

section \<open>One connection\<close>

record run_result =
  connectMs :: "int option"
  ackMs :: "int option"
  run_error :: "string option"

record load_session =
  ss_result :: run_result
  ss_tStart :: int
  ss_tConnected :: int
  ss_settled :: bool
  ss_timer :: bool
  ss_closed :: bool
  ss_posted :: "byte list list"
  ss_resolved :: nat

definition new_session :: "int \<Rightarrow> load_session" where
  "new_session tStart = \<lparr> ss_result = \<lparr> connectMs = None, ackMs = None, run_error = None \<rparr>,
     ss_tStart = tStart, ss_tConnected = 0, ss_settled = False, ss_timer = True, ss_closed = False,
     ss_posted = [], ss_resolved = 0 \<rparr>"

record load_env =
  le_accepts_url :: "string \<Rightarrow> bool"
  le_sha :: "byte list \<Rightarrow> byte list"
  le_stringify :: "signed_action \<Rightarrow> string"
  le_parse_code :: "byte list \<Rightarrow> string option"
  le_args :: load_args

text \<open>How a template prints a number.\<close>

fun nat_text :: "nat \<Rightarrow> string" where
  "nat_text n = (if n < 10 then [''0123456789'' ! n] else nat_text (n div 10) @ [''0123456789'' ! (n mod 10)])"

declare nat_text.simps [simp del]

definition number_text :: "int option \<Rightarrow> string" where
  "number_text n = (case n of
       None \<Rightarrow> ''NaN''
     | Some i \<Rightarrow> if i < 0 then CHR ''-'' # nat_text (nat (- i)) else nat_text (nat i))"

definition timeout_text :: "load_env \<Rightarrow> string" where
  "timeout_text env = ''timeout after '' @ number_text (la_timeoutMs (le_args env)) @ ''ms''"

definition load_action :: "string \<Rightarrow> nat \<Rightarrow> signed_action" where
  "load_action gameId seatIdx = \<lparr> act_game_id = gameId, act_round_number = 0,
     referenced_state_hash = replicate 64 CHR ''0'', action_nonce = nonce_text (seatIdx + 1),
     act_seat = Some (int seatIdx), authorising_signature = ''sig'',
     successor_state_commitment = replicate 64 CHR ''0'',
     payload = Join_Payload (''02'' @ take 64 (nonce_text seatIdx)) 1000 \<rparr>"

text \<open>\<open>settled = true; clearTimeout(timer)\<close> (the timer that fires is gone as well), and
  \<open>result.x = ...; resolve(result)\<close>.\<close>

definition mark_settled :: "load_session \<Rightarrow> load_session" where
  "mark_settled ss = ss\<lparr> ss_settled := True, ss_timer := False \<rparr>"

definition resolve_with :: "(run_result \<Rightarrow> run_result) \<Rightarrow> load_session \<Rightarrow> load_session" where
  "resolve_with f ss = ss\<lparr> ss_result := f (ss_result ss), ss_resolved := Suc (ss_resolved ss) \<rparr>"

definition close_socket :: "load_session \<Rightarrow> load_session" where
  "close_socket ss = ss\<lparr> ss_closed := True \<rparr>"

definition on_timer :: "load_env \<Rightarrow> load_session \<Rightarrow> load_session" where
  "on_timer env ss =
     (if ss_settled ss then ss
      else resolve_with (\<lambda>r. r\<lparr> run_error := Some (timeout_text env) \<rparr>)
             (close_socket (mark_settled ss)))"

definition on_open :: "int \<Rightarrow> load_session \<Rightarrow> load_session" where
  "on_open now ss = ss\<lparr> ss_tConnected := now,
     ss_result := (ss_result ss)\<lparr> connectMs := Some (now - ss_tStart ss) \<rparr> \<rparr>"

text \<open>The rest of the \<open>open\<close> handler, once the frame is encoded; \<open>sock.send\<close> may throw. A payload too long to
  encode is an unhandled rejection; the session is then left as it is.\<close>

definition on_encoded :: "load_env \<Rightarrow> nat \<Rightarrow> string option \<Rightarrow> load_session \<Rightarrow> load_session" where
  "on_encoded env seatIdx send_failure ss =
     (case encode (le_sha env) \<lparr> fr_version = VERSION_1_0, fr_type = msg_type_code Msg_Action,
             fr_payload = utf8 (le_stringify env (load_action (la_gameId (le_args env)) seatIdx)) \<rparr> of
        Inl _ \<Rightarrow> ss
      | Inr bs \<Rightarrow>
          (case send_failure of
             None \<Rightarrow> ss\<lparr> ss_posted := ss_posted ss @ [bs] \<rparr>
           | Some msg \<Rightarrow>
               if ss_settled ss then ss
               else resolve_with (\<lambda>r. r\<lparr> run_error := Some (''send: '' @ msg) \<rparr>) (mark_settled ss)))"

definition on_error :: "string \<Rightarrow> load_session \<Rightarrow> load_session" where
  "on_error msg ss =
     (if ss_settled ss then ss
      else resolve_with (\<lambda>r. r\<lparr> run_error := Some msg \<rparr>) (mark_settled ss))"

text \<open>The error branch settles and clears the timer before it parses; what the parser throws is caught.\<close>

definition on_message :: "load_env \<Rightarrow> int \<Rightarrow> byte list \<Rightarrow> load_session \<Rightarrow> load_session" where
  "on_message env now buf ss =
     (case decode (le_sha env) buf of
        Inl _ \<Rightarrow> ss
      | Inr (f, _) \<Rightarrow>
          if fr_type f = msg_type_code Msg_ActionAccepted
          then (if ss_settled ss then ss
                else resolve_with (\<lambda>r. r\<lparr> ackMs := Some (now - ss_tConnected ss) \<rparr>)
                       (close_socket (mark_settled ss)))
          else if fr_type f = msg_type_code Msg_ErrorReply
          then (if ss_settled ss then ss
                else case le_parse_code env (fr_payload f) of
                    None \<Rightarrow> mark_settled ss
                  | Some code \<Rightarrow> resolve_with (\<lambda>r. r\<lparr> run_error := Some (''relay rejected: '' @ code) \<rparr>)
                                   (close_socket (mark_settled ss)))
          else ss)"

datatype session_event =
    Sess_Open int
  | Sess_Encoded "string option"
  | Sess_Error string
  | Sess_Message int "byte list"
  | Sess_Timer

fun session_step :: "load_env \<Rightarrow> nat \<Rightarrow> load_session \<Rightarrow> session_event \<Rightarrow> load_session" where
  "session_step env seatIdx ss (Sess_Open now) = on_open now ss"
| "session_step env seatIdx ss (Sess_Encoded e) = on_encoded env seatIdx e ss"
| "session_step env seatIdx ss (Sess_Error msg) = on_error msg ss"
| "session_step env seatIdx ss (Sess_Message now buf) = on_message env now buf ss"
| "session_step env seatIdx ss Sess_Timer = on_timer env ss"

definition session_run :: "load_env \<Rightarrow> nat \<Rightarrow> int \<Rightarrow> session_event list \<Rightarrow> load_session" where
  "session_run env seatIdx tStart evs = foldl (session_step env seatIdx) (new_session tStart) evs"

text \<open>The whole of it: \<open>new WebSocket(args.ws)\<close> throws for an address it does not accept, before any handler
  is set, and the promise is rejected.\<close>

definition runOne :: "load_env \<Rightarrow> nat \<Rightarrow> int \<Rightarrow> session_event list \<Rightarrow> unit + load_session" where
  "runOne env seatIdx tStart evs =
     (if le_accepts_url env (la_ws (le_args env)) then Inr (session_run env seatIdx tStart evs) else Inl ())"

section \<open>What decides a session\<close>

text \<open>What an event means to a session that is not settled: nothing, or one of three ends.\<close>

datatype session_end = Acked int | Failed string | Stuck

fun decides :: "load_env \<Rightarrow> nat \<Rightarrow> session_event \<Rightarrow> session_end option" where
  "decides env seatIdx (Sess_Open _) = None"
| "decides env seatIdx (Sess_Encoded e) =
     (if int (length (utf8 (le_stringify env (load_action (la_gameId (le_args env)) seatIdx)))) > MAX_PAYLOAD_SIZE
      then None else map_option (\<lambda>msg. Failed (''send: '' @ msg)) e)"
| "decides env seatIdx (Sess_Error msg) = Some (Failed msg)"
| "decides env seatIdx Sess_Timer = Some (Failed (timeout_text env))"
| "decides env seatIdx (Sess_Message now buf) =
     (case decode (le_sha env) buf of
        Inl _ \<Rightarrow> None
      | Inr (f, _) \<Rightarrow>
          if fr_type f = msg_type_code Msg_ActionAccepted then Some (Acked now)
          else if fr_type f = msg_type_code Msg_ErrorReply
          then Some (case le_parse_code env (fr_payload f) of
                       None \<Rightarrow> Stuck | Some code \<Rightarrow> Failed (''relay rejected: '' @ code))
          else None)"

text \<open>The first of the events that decides, and the time the last connection before it was opened.\<close>

fun first_decision :: "load_env \<Rightarrow> nat \<Rightarrow> int \<Rightarrow> session_event list \<Rightarrow> int \<times> session_end option" where
  "first_decision env seatIdx t0 [] = (t0, None)"
| "first_decision env seatIdx t0 (ev # evs) =
     (case decides env seatIdx ev of
        Some e \<Rightarrow> (t0, Some e)
      | None \<Rightarrow> first_decision env seatIdx (case ev of Sess_Open now \<Rightarrow> now | _ \<Rightarrow> t0) evs)"

definition verdict :: "load_session \<Rightarrow> bool \<times> bool \<times> nat \<times> int option \<times> string option" where
  "verdict ss = (ss_settled ss, ss_timer ss, ss_resolved ss, ackMs (ss_result ss), run_error (ss_result ss))"

fun verdict_of :: "int \<times> session_end option \<Rightarrow> bool \<times> bool \<times> nat \<times> int option \<times> string option" where
  "verdict_of (t0, None) = (False, True, 0, None, None)"
| "verdict_of (t0, Some (Acked t)) = (True, False, 1, Some (t - t0), None)"
| "verdict_of (t0, Some (Failed msg)) = (True, False, 1, None, Some msg)"
| "verdict_of (t0, Some Stuck) = (True, False, 0, None, None)"

lemmas socket_handlers = on_timer_def on_open_def on_encoded_def on_error_def on_message_def
  mark_settled_def resolve_with_def close_socket_def

lemma settled_keeps_verdict:
  "ss_settled ss \<Longrightarrow> verdict (session_step env i ss ev) = verdict ss"
  by (cases ev)
     (auto simp: socket_handlers verdict_def split: option.splits sum.splits)

lemma deciding_step:
  assumes "verdict ss = verdict_of (t, None)" and "decides env i ev = Some e"
  shows "verdict (session_step env i ss ev) = verdict_of (ss_tConnected ss, Some e)"
  using assms
  by (cases ev)
     (auto simp: socket_handlers verdict_def encode_def split: option.splits sum.splits if_splits)

lemma undecided_step:
  assumes "verdict ss = verdict_of (t, None)" and "decides env i ev = None"
  shows "verdict (session_step env i ss ev) = verdict_of (t, None)
    \<and> ss_tConnected (session_step env i ss ev) = (case ev of Sess_Open now \<Rightarrow> now | _ \<Rightarrow> ss_tConnected ss)"
  using assms
  by (cases ev)
     (auto simp: socket_handlers verdict_def encode_def split: option.splits sum.splits if_splits)

lemma settled_foldl:
  "ss_settled ss \<Longrightarrow> verdict (foldl (session_step env i) ss evs) = verdict ss"
proof (induction evs arbitrary: ss)
  case (Cons ev evs)
  have v: "verdict (session_step env i ss ev) = verdict ss" using settled_keeps_verdict[OF Cons.prems] .
  then have "ss_settled (session_step env i ss ev)" using Cons.prems by (simp add: verdict_def)
  then show ?case using Cons.IH v by simp
qed simp

lemma verdict_of_settled: "verdict ss = verdict_of (t, Some e) \<Longrightarrow> ss_settled ss"
  by (cases e) (simp_all add: verdict_def)

lemma undecided_foldl:
  assumes "verdict ss = verdict_of (t, None)"
  shows "verdict (foldl (session_step env i) ss evs)
    = verdict_of (first_decision env i (ss_tConnected ss) evs)"
  using assms
proof (induction evs arbitrary: ss)
  case (Cons ev evs)
  show ?case
  proof (cases "decides env i ev")
    case None
    note step = undecided_step[OF Cons.prems None]
    show ?thesis using Cons.IH[OF conjunct1[OF step]] conjunct2[OF step] None by simp
  next
    case (Some e)
    note step = deciding_step[OF Cons.prems Some]
    show ?thesis using settled_foldl[OF verdict_of_settled[OF step]] step Some by simp
  qed
qed simp

lemma session_verdict: "verdict (session_run env i t0 evs) = verdict_of (first_decision env i 0 evs)"
  using undecided_foldl[of "new_session t0" 0 env i evs]
  by (simp add: session_run_def verdict_def new_session_def)

lemma first_decision_append:
  "first_decision env i t (before @ after) =
     (case first_decision env i t before of
        (t', Some e) \<Rightarrow> (t', Some e) | (t', None) \<Rightarrow> first_decision env i t' after)"
  by (induction before arbitrary: t) (auto split: option.splits)

text \<open>An error frame whose body has no readable \<open>code\<close> ends the session without an answer: the timer is
  cleared, and whatever follows, the promise is not resolved.\<close>

lemma unreadable_error_reply_hangs:
  assumes "decode (le_sha env) buf = Inr (f, n)" and "fr_type f = msg_type_code Msg_ErrorReply"
    and "le_parse_code env (fr_payload f) = None" and "first_decision env i 0 before = (t, None)"
  shows "verdict (session_run env i t0 (before @ Sess_Message now buf # after)) = (True, False, 0, None, None)"
  using assms by (simp add: session_verdict first_decision_append)

section \<open>The schedule\<close>

text \<open>The two nested loops of \<open>main\<close>. \<open>fill\<close> is the inner one; at \<open>Awaiting\<close> the outer one waits for
  \<open>Promise.race\<close>, which is settled by the first of its sessions that is done or rejected; \<open>Draining\<close>
  waits for \<open>Promise.all\<close>. A rejected session never leaves \<open>inFlight\<close>, and either wait, given one, throws:
  the handler of \<open>main().catch\<close> then ends the process (\<open>Fatal_Exit\<close>). Results carry the seat they are of.\<close>

function fill :: "int \<Rightarrow> int \<Rightarrow> nat \<Rightarrow> nat list \<Rightarrow> nat \<times> nat list" where
  "fill connections concurrency nextSeat inFlight =
     (if int (length inFlight) < concurrency \<and> int nextSeat < connections
      then fill connections concurrency (Suc nextSeat) (inFlight @ [nextSeat])
      else (nextSeat, inFlight))"
  by auto
termination by (relation "measure (\<lambda>(connections, _, nextSeat, _). nat (connections - int nextSeat))") auto

declare fill.simps [simp del]

datatype race = Pending | Raced | Race_Rejected

datatype load_phase = Starting | Awaiting race | Draining | Finished | Fatal_Exit

record load_state =
  lt_next :: nat
  lt_flight :: "nat list"
  lt_rejected :: "nat list"
  lt_results :: "(nat \<times> run_result) list"
  lt_phase :: load_phase

definition load_start :: load_state where
  "load_start = \<lparr> lt_next = 0, lt_flight = [], lt_rejected = [], lt_results = [], lt_phase = Starting \<rparr>"

definition loop_head :: "int \<Rightarrow> int \<Rightarrow> load_state \<Rightarrow> load_state" where
  "loop_head connections concurrency st =
     (if int (lt_next st) < connections
      then let (n, fl) = fill connections concurrency (lt_next st) (lt_flight st)
           in st\<lparr> lt_next := n, lt_flight := fl,
                  lt_phase := Awaiting (if lt_rejected st = [] then Pending else Race_Rejected) \<rparr>
      else st\<lparr> lt_phase := Draining \<rparr>)"

definition session_done :: "nat \<Rightarrow> run_result \<Rightarrow> load_state \<Rightarrow> load_state" where
  "session_done seat_idx r st = st\<lparr> lt_results := lt_results st @ [(seat_idx, r)],
     lt_flight := remove1 seat_idx (lt_flight st),
     lt_phase := (case lt_phase st of Awaiting Pending \<Rightarrow> Awaiting Raced | ph \<Rightarrow> ph) \<rparr>"

definition session_rejected :: "nat \<Rightarrow> load_state \<Rightarrow> load_state" where
  "session_rejected seat_idx st = st\<lparr> lt_rejected := seat_idx # lt_rejected st,
     lt_phase := (case lt_phase st of Awaiting Pending \<Rightarrow> Awaiting Race_Rejected | ph \<Rightarrow> ph) \<rparr>"

datatype load_event = Main_Step | Session_Done nat run_result | Session_Rejected nat

text \<open>A session settles while it is in flight and was not rejected, as long as the process runs.\<close>

definition unsettled :: "load_state \<Rightarrow> nat \<Rightarrow> bool" where
  "unsettled st k \<longleftrightarrow> k \<in> set (lt_flight st) \<and> k \<notin> set (lt_rejected st) \<and> lt_phase st \<noteq> Fatal_Exit"

fun load_step :: "int \<Rightarrow> int \<Rightarrow> load_state \<Rightarrow> load_event \<Rightarrow> unit + load_state" where
  "load_step connections concurrency st (Session_Done k r) =
     (if unsettled st k then Inr (session_done k r st) else Inl ())"
| "load_step connections concurrency st (Session_Rejected k) =
     (if unsettled st k then Inr (session_rejected k st) else Inl ())"
| "load_step connections concurrency st Main_Step =
     (case lt_phase st of
        Starting \<Rightarrow> Inr (loop_head connections concurrency st)
      | Awaiting r \<Rightarrow>
          (case r of
             Pending \<Rightarrow> Inl ()
           | Raced \<Rightarrow> Inr (loop_head connections concurrency st)
           | Race_Rejected \<Rightarrow> Inr (st\<lparr> lt_phase := Fatal_Exit \<rparr>))
      | Draining \<Rightarrow>
          if lt_rejected st \<noteq> [] then Inr (st\<lparr> lt_phase := Fatal_Exit \<rparr>)
          else if lt_flight st = [] then Inr (st\<lparr> lt_phase := Finished \<rparr>) else Inl ()
      | _ \<Rightarrow> Inl ())"

text \<open>Every seat below \<open>nextSeat\<close> is in flight or done, once; the limits hold; only sessions in flight are
  rejected, and the process ends for no other reason; a race that waits has nobody rejected in it, and
  somebody at all, unless nobody is ever admitted.\<close>

definition ok_load :: "int \<Rightarrow> int \<Rightarrow> load_state \<Rightarrow> bool" where
  "ok_load connections concurrency st \<longleftrightarrow>
     int (lt_next st) \<le> max 0 connections
     \<and> int (length (lt_flight st)) \<le> max 0 concurrency
     \<and> distinct (lt_flight st @ map fst (lt_results st))
     \<and> set (lt_flight st @ map fst (lt_results st)) = {..<lt_next st}
     \<and> set (lt_rejected st) \<subseteq> set (lt_flight st)
     \<and> (lt_phase st \<in> {Draining, Finished} \<longrightarrow> connections \<le> int (lt_next st))
     \<and> (lt_phase st = Finished \<longrightarrow> lt_flight st = [])
     \<and> (lt_phase st = Awaiting Pending \<longrightarrow> lt_rejected st = []
          \<and> (lt_flight st \<noteq> [] \<or> concurrency \<le> 0 \<and> 0 < connections))
     \<and> (lt_phase st \<in> {Awaiting Race_Rejected, Fatal_Exit} \<longrightarrow> lt_rejected st \<noteq> [])
     \<and> (concurrency \<le> 0 \<longrightarrow> lt_next st = 0)"

text \<open>What is left to do: it falls with every step.\<close>

fun race_left :: "load_phase \<Rightarrow> nat" where
  "race_left Starting = 2"
| "race_left (Awaiting Raced) = 2"
| "race_left (Awaiting _) = 1"
| "race_left Draining = 1"
| "race_left _ = 0"

definition load_left :: "int \<Rightarrow> load_state \<Rightarrow> nat" where
  "load_left connections st = 2 * nat (connections - int (lt_next st))
     + 2 * length (filter (\<lambda>k. k \<notin> set (lt_rejected st)) (lt_flight st)) + race_left (lt_phase st)"

lemma fill_spec:
  assumes "fill connections concurrency n fl = (n', fl')"
  shows "n \<le> n' \<and> fl' = fl @ [n..<n']
    \<and> (int n \<le> connections \<longrightarrow> int n' \<le> connections)
    \<and> (int (length fl) \<le> max 0 concurrency \<longrightarrow> int (length fl') \<le> max 0 concurrency)
    \<and> (concurrency \<le> 0 \<longrightarrow> n' = n)
    \<and> (int (length fl) < concurrency \<and> int n < connections \<longrightarrow> n < n')"
  using assms
proof (induction connections concurrency n fl rule: fill.induct)
  case (1 connections concurrency n fl)
  show ?case
  proof (cases "int (length fl) < concurrency \<and> int n < connections")
    case True
    then have "fill connections concurrency (Suc n) (fl @ [n]) = (n', fl')"
      using "1.prems" by (simp add: fill.simps[of _ _ n fl])
    from "1.IH"[OF True this] True show ?thesis by (auto simp: upt_rec[of n n'])
  next
    case False
    then show ?thesis using "1.prems" by (auto simp: fill.simps[of _ _ n fl])
  qed
qed

lemma ok_load_start: "ok_load connections concurrency load_start"
  by (simp add: ok_load_def load_start_def)

lemma loop_head_ok:
  assumes ok: "ok_load connections concurrency st" and ph: "lt_phase st \<in> {Starting, Awaiting Raced}"
  shows "ok_load connections concurrency (loop_head connections concurrency st)"
proof (cases "int (lt_next st) < connections")
  case True
  obtain n fl where f: "fill connections concurrency (lt_next st) (lt_flight st) = (n, fl)" by fastforce
  note spec = fill_spec[OF f]
  have st': "loop_head connections concurrency st
      = st\<lparr> lt_next := n, lt_flight := fl,
             lt_phase := Awaiting (if lt_rejected st = [] then Pending else Race_Rejected) \<rparr>"
    using True f by (simp add: loop_head_def)
  have fl: "fl = lt_flight st @ [lt_next st..<n]" and n: "lt_next st \<le> n" "int n \<le> connections"
    using spec True by auto
  have seats: "distinct (lt_flight st @ map fst (lt_results st))"
    "set (lt_flight st @ map fst (lt_results st)) = {..<lt_next st}"
    using ok by (simp_all only: ok_load_def)
  have below: "x \<in> set (lt_flight st @ map fst (lt_results st)) \<longleftrightarrow> x < lt_next st" for x
    using seats(2) by (metis lessThan_iff)
  have "set (fl @ map fst (lt_results st)) = {..<n}"
  proof (rule set_eqI)
    show "x \<in> set (fl @ map fst (lt_results st)) \<longleftrightarrow> x \<in> {..<n}" for x
      using below[of x] n(1) unfolding fl by (auto simp del: set_map)
  qed
  moreover have "distinct (fl @ map fst (lt_results st))"
  proof -
    have "set [lt_next st..<n] \<inter> set (lt_flight st @ map fst (lt_results st)) = {}"
      using below by (force simp del: set_map set_append)
    then show ?thesis using seats(1) unfolding fl by (simp del: set_upt set_map) blast
  qed
  moreover have "int (length fl) \<le> max 0 concurrency"
    using ok spec unfolding ok_load_def by blast
  moreover have "concurrency \<le> 0 \<longrightarrow> n = 0"
    using ok spec unfolding ok_load_def by presburger
  moreover have "set (lt_rejected st) \<subseteq> set fl" using ok unfolding fl ok_load_def by auto
  moreover have "fl \<noteq> [] \<or> concurrency \<le> 0"
  proof (cases "lt_flight st")
    case Nil
    then have "0 < concurrency \<Longrightarrow> lt_next st < n" using spec True by simp
    then show ?thesis using Nil unfolding fl by auto
  qed (simp add: fl)
  ultimately show ?thesis using n True unfolding st' ok_load_def by simp
next
  case False
  then show ?thesis using ok by (simp add: ok_load_def loop_head_def)
qed

lemma session_done_fields [simp]:
  "lt_next (session_done k r st) = lt_next st"
  "lt_flight (session_done k r st) = remove1 k (lt_flight st)"
  "lt_rejected (session_done k r st) = lt_rejected st"
  "lt_results (session_done k r st) = lt_results st @ [(k, r)]"
  "lt_phase (session_done k r st) \<noteq> Awaiting Pending"
  "lt_phase (session_done k r st) = Awaiting Race_Rejected \<longleftrightarrow> lt_phase st = Awaiting Race_Rejected"
  "lt_phase (session_done k r st) = Draining \<longleftrightarrow> lt_phase st = Draining"
  "lt_phase (session_done k r st) = Finished \<longleftrightarrow> lt_phase st = Finished"
  "lt_phase (session_done k r st) = Fatal_Exit \<longleftrightarrow> lt_phase st = Fatal_Exit"
  by (simp_all add: session_done_def split: load_phase.splits race.splits)

lemma session_rejected_fields [simp]:
  "lt_next (session_rejected k st) = lt_next st"
  "lt_flight (session_rejected k st) = lt_flight st"
  "lt_rejected (session_rejected k st) = k # lt_rejected st"
  "lt_results (session_rejected k st) = lt_results st"
  "lt_phase (session_rejected k st) \<noteq> Awaiting Pending"
  "lt_phase (session_rejected k st) = Draining \<longleftrightarrow> lt_phase st = Draining"
  "lt_phase (session_rejected k st) = Finished \<longleftrightarrow> lt_phase st = Finished"
  by (simp_all add: session_rejected_def split: load_phase.splits race.splits)

lemma session_done_ok:
  assumes "ok_load connections concurrency st" and "unsettled st k"
  shows "ok_load connections concurrency (session_done k r st)"
proof -
  have k: "k \<in> set (lt_flight st)" "k \<notin> set (lt_rejected st)" using assms(2) by (simp_all add: unsettled_def)
  have "set (remove1 k (lt_flight st) @ map fst (lt_results st) @ [k]) = {..<lt_next st}"
    "distinct (remove1 k (lt_flight st) @ map fst (lt_results st) @ [k])"
    "set (lt_rejected st) \<subseteq> set (remove1 k (lt_flight st))"
    using assms(1) k by (auto simp: ok_load_def)
  moreover have "length (remove1 k (lt_flight st)) \<le> length (lt_flight st)" "lt_phase st \<noteq> Finished"
    using assms(1) k by (auto simp: length_remove1 ok_load_def)
  ultimately show ?thesis using assms(1) unfolding ok_load_def by simp
qed

lemma session_rejected_ok:
  "ok_load connections concurrency st \<Longrightarrow> unsettled st k \<Longrightarrow>
     ok_load connections concurrency (session_rejected k st)"
  unfolding ok_load_def unsettled_def by simp

lemma load_step_ok:
  "ok_load connections concurrency st \<Longrightarrow> load_step connections concurrency st ev = Inr st' \<Longrightarrow>
     ok_load connections concurrency st'"
  by (cases ev; cases "lt_phase st")
     (auto simp: loop_head_ok session_done_ok session_rejected_ok split: if_splits race.splits,
      auto simp: ok_load_def)

interpretation lm: guarded_machine "load_step connections concurrency" "ok_load connections concurrency"
  by unfold_locales (rule load_step_ok)

lemma loop_head_left:
  assumes "lt_phase st \<in> {Starting, Awaiting Raced}"
  shows "load_left connections (loop_head connections concurrency st) < load_left connections st"
proof (cases "int (lt_next st) < connections")
  case True
  obtain n fl where f: "fill connections concurrency (lt_next st) (lt_flight st) = (n, fl)" by fastforce
  have n: "lt_next st \<le> n" "int n \<le> connections" and fl: "fl = lt_flight st @ [lt_next st..<n]"
    using fill_spec[OF f] True by auto
  have "length (filter (\<lambda>k. k \<notin> set (lt_rejected st)) fl)
      \<le> length (filter (\<lambda>k. k \<notin> set (lt_rejected st)) (lt_flight st)) + (n - lt_next st)"
    unfolding fl using length_filter_le[of _ "[lt_next st..<n]"] by simp
  then show ?thesis using assms True f n by (auto simp: load_left_def loop_head_def)
next
  case False
  then show ?thesis using assms by (auto simp: load_left_def loop_head_def)
qed

lemma settled_left:
  assumes "unsettled st k"
  shows "load_left connections (session_done k r st) < load_left connections st"
    and "load_left connections (session_rejected k st) < load_left connections st"
proof -
  let ?open = "\<lambda>ks. filter (\<lambda>j. j \<notin> set ks) (lt_flight st)"
  have k: "k \<in> set (?open (lt_rejected st))" using assms by (simp add: unsettled_def)
  have "filter (\<lambda>j. j \<notin> set (lt_rejected st)) (remove1 k (lt_flight st)) = remove1 k (?open (lt_rejected st))"
    by (simp add: filter_remove1)
  then have "Suc (length (filter (\<lambda>j. j \<notin> set (lt_rejected st)) (remove1 k (lt_flight st)))) = length (?open (lt_rejected st))"
    using k length_pos_if_in_set[OF k] by (simp add: length_remove1)
  then show "load_left connections (session_done k r st) < load_left connections st"
    by (simp add: load_left_def) (simp add: session_done_def split: load_phase.splits race.splits)
  have "?open (k # lt_rejected st) = filter (\<lambda>j. j \<noteq> k) (?open (lt_rejected st))"
    by (simp add: conj_commute)
  then have "length (?open (k # lt_rejected st)) < length (?open (lt_rejected st))"
    using length_filter_less[OF k, of "\<lambda>j. j \<noteq> k"] by metis
  then show "load_left connections (session_rejected k st) < load_left connections st"
    by (simp add: load_left_def) (simp add: session_rejected_def split: load_phase.splits race.splits)
qed

lemma load_step_left:
  assumes "load_step connections concurrency st ev = Inr st'"
  shows "load_left connections st' < load_left connections st"
proof (cases ev)
  case Main_Step
  then consider "lt_phase st \<in> {Starting, Awaiting Raced}" "st' = loop_head connections concurrency st"
    | "lt_phase st \<in> {Awaiting Race_Rejected, Draining}" "st' \<in> {st\<lparr> lt_phase := Finished \<rparr>, st\<lparr> lt_phase := Fatal_Exit \<rparr>}"
    using assms by (auto split: load_phase.splits if_splits race.splits)
  then show ?thesis by cases (simp add: loop_head_left, auto simp: load_left_def)
qed (use assms settled_left in \<open>auto split: if_splits\<close>)

lemma load_run_left:
  "run_machine (load_step connections concurrency) st evs = Inr st' \<Longrightarrow>
     length evs + load_left connections st' \<le> load_left connections st"
  by (induction evs arbitrary: st) (fastforce simp: res_bind_eq_Inr dest: load_step_left)+

lemma load_start_left: "load_left connections load_start = 2 * nat connections + 2"
  by (simp add: load_left_def load_start_def)

lemma finished_seats:
  assumes "ok_load connections concurrency st" and "lt_phase st = Finished"
  shows "mset (map fst (lt_results st)) = mset [0..<nat connections]"
proof -
  have n: "lt_next st = nat connections" and fl: "lt_flight st = []"
    using assms by (auto simp: ok_load_def)
  have "distinct (map fst (lt_results st))" "set (map fst (lt_results st)) = set [0..<nat connections]"
    using assms(1) fl n by (simp_all add: ok_load_def atLeast0LessThan)
  then show ?thesis using mset_set_set[of "map fst (lt_results st)"] by (simp del: set_map)
qed

section \<open>The report\<close>

text \<open>\<open>percentile(sorted, p)\<close>, with \<open>p\<close> in hundredths; for the constants of the source and arrays that
  fit in memory the product in floating point is rounded down to the same index. \<open>Math.round\<close> of a
  number of milliseconds is \<open>round_us\<close> of its thousandths.\<close>

definition percentile :: "int list \<Rightarrow> nat \<Rightarrow> int" where
  "percentile xs p = (if xs = [] then 0 else xs ! min (length xs - 1) (length xs * p div 100))"

definition round_us :: "int \<Rightarrow> int" where
  "round_us x = (x + 500) div 1000"

record latencies =
  lat_count :: int
  lat_p50 :: int
  lat_p95 :: int
  lat_p99 :: int
  lat_max :: int

definition latencies_of :: "int list \<Rightarrow> latencies" where
  "latencies_of xs = (let sorted_xs = sort xs in \<lparr> lat_count = int (length xs),
     lat_p50 = round_us (percentile sorted_xs 50), lat_p95 = round_us (percentile sorted_xs 95),
     lat_p99 = round_us (percentile sorted_xs 99), lat_max = round_us (percentile sorted_xs 100) \<rparr>)"

definition count_error :: "(string \<Rightarrow> int option) \<Rightarrow> string \<Rightarrow> (string \<Rightarrow> int option)" where
  "count_error m e = m(e \<mapsto> (case m e of None \<Rightarrow> 0 | Some n \<Rightarrow> n) + 1)"

record load_summary =
  sm_config :: load_args
  sm_wall_ms :: int
  sm_connects :: latencies
  sm_acks :: latencies
  sm_throughput :: int
  sm_errors :: int
  sm_by_code :: "string \<Rightarrow> int option"

definition load_report :: "load_args \<Rightarrow> int \<Rightarrow> run_result list \<Rightarrow> load_summary" where
  "load_report args wall results =
     (let connects = List.map_filter connectMs results;
          acks = List.map_filter ackMs results;
          errors = List.map_filter run_error results;
          w = max wall 1000
      in \<lparr> sm_config = args, sm_wall_ms = round_us wall, sm_connects = latencies_of connects,
           sm_acks = latencies_of acks,
           sm_throughput = (2 * (int (length acks) * 1000000) + w) div (2 * w),
           sm_errors = int (length errors), sm_by_code = foldl count_error Map.empty errors \<rparr>)"

text \<open>\<open>main\<close>: absent when the events do not bring the loop to its end.\<close>

definition load_test_main :: "string list \<Rightarrow> load_event list \<Rightarrow> int \<Rightarrow> load_summary exit option" where
  "load_test_main argv evs wall =
     (case load_parseArgs argv of
        Exit_With args \<Rightarrow>
          (case run_machine (load_step (la_connections args) (la_concurrency args)) load_start evs of
             Inl _ \<Rightarrow> None
           | Inr st \<Rightarrow>
               (case lt_phase st of
                  Finished \<Rightarrow> Some (Exit_With (load_report args wall (map snd (lt_results st))))
                | Fatal_Exit \<Rightarrow> Some Exit_Fatal
                | _ \<Rightarrow> None))
      | Exit_Usage \<Rightarrow> Some Exit_Usage
      | Exit_Fatal \<Rightarrow> Some Exit_Fatal)"

lemma percentile_mono:
  assumes "sorted xs" and "p \<le> q"
  shows "percentile xs p \<le> percentile xs q"
proof (cases xs)
  case (Cons x xs')
  have "length xs * p div 100 \<le> length xs * q div 100" by (simp add: assms(2) div_le_mono)
  then show ?thesis using assms(1) Cons by (auto simp: percentile_def intro!: sorted_nth_mono)
qed (simp add: percentile_def)

lemma round_us_mono: "x \<le> y \<Longrightarrow> round_us x \<le> round_us y"
  by (simp add: round_us_def zdiv_mono1)

lemma percentile_all: "xs \<noteq> [] \<Longrightarrow> percentile xs 100 = last xs"
  by (simp add: percentile_def last_conv_nth)

lemma latencies_ordered:
  "lat_p50 (latencies_of xs) \<le> lat_p95 (latencies_of xs) \<and> lat_p95 (latencies_of xs) \<le> lat_p99 (latencies_of xs)
    \<and> lat_p99 (latencies_of xs) \<le> lat_max (latencies_of xs)"
  by (simp add: latencies_of_def Let_def round_us_mono percentile_mono)

lemma latencies_count: "lat_count (latencies_of xs) = int (length xs)"
  by (simp add: latencies_of_def Let_def)

lemma latencies_max:
  assumes "xs \<noteq> []"
  shows "lat_max (latencies_of xs) = round_us (Max (set xs))"
proof -
  have ne: "sort xs \<noteq> []" using assms by (metis set_empty2 set_sort)
  have "\<forall>x \<in> set (sort xs). x \<le> last (sort xs)" using ne
    by (metis in_set_conv_nth last_conv_nth less_Suc_eq_le Suc_diff_1 length_greater_0_conv
        diff_less less_numeral_extra(1) sorted_nth_mono sorted_sort)
  moreover have "last (sort xs) \<in> set (sort xs)" using ne by (rule last_in_set)
  ultimately have "Max (set xs) = last (sort xs)"
    by (metis List.finite_set Max_eqI set_sort)
  then show ?thesis using ne by (simp add: latencies_of_def Let_def percentile_all)
qed

lemma count_errors:
  "foldl count_error m es e =
     (let n = length (filter ((=) e) es)
      in if n = 0 then m e else Some ((case m e of None \<Rightarrow> 0 | Some k \<Rightarrow> k) + int n))"
  by (induction es arbitrary: m) (auto simp: count_error_def Let_def split: option.splits)

text \<open>The sessions behind a run: \<open>log\<close> holds, for each seat, the start of its session and everything that
  happened to it until the report; an event of the schedule is genuine if it hands over their result.\<close>

definition answered :: "load_env \<Rightarrow> (nat \<Rightarrow> int \<times> session_event list) \<Rightarrow> nat \<Rightarrow> load_session" where
  "answered env log k = session_run env k (fst (log k)) (snd (log k))"

fun genuine :: "load_env \<Rightarrow> (nat \<Rightarrow> int \<times> session_event list) \<Rightarrow> load_event \<Rightarrow> bool" where
  "genuine env log Main_Step \<longleftrightarrow> True"
| "genuine env log (Session_Done k r) \<longleftrightarrow>
     (case runOne env k (fst (log k)) (snd (log k)) of
        Inl _ \<Rightarrow> False | Inr ss \<Rightarrow> ss_resolved ss = 1 \<and> r = ss_result ss)"
| "genuine env log (Session_Rejected k) \<longleftrightarrow> isl (runOne env k (fst (log k)) (snd (log k)))"

text \<open>A session that will never be answered: its first deciding event was an error frame whose body cannot
  be read.\<close>

definition hangs :: "load_env \<Rightarrow> (nat \<Rightarrow> int \<times> session_event list) \<Rightarrow> nat \<Rightarrow> bool" where
  "hangs env log k \<longleftrightarrow> \<not> isl (runOne env k (fst (log k)) (snd (log k)))
     \<and> snd (first_decision env k 0 (snd (log k))) = Some Stuck"

lemma genuine_done:
  "genuine env log (Session_Done k r) \<longleftrightarrow> le_accepts_url env (la_ws (le_args env))
     \<and> ss_resolved (answered env log k) = 1 \<and> r = ss_result (answered env log k)"
  by (simp add: runOne_def answered_def)

declare genuine.simps(2) [simp del]

lemma resolved_has_one_outcome:
  assumes "ss_resolved (session_run env k t evs) = 1"
  shows "ackMs (ss_result (session_run env k t evs)) = None \<longleftrightarrow> run_error (ss_result (session_run env k t evs)) \<noteq> None"
  using assms session_verdict[of env k t evs]
  by (cases "first_decision env k 0 evs" rule: verdict_of.cases) (simp_all add: verdict_def)

lemma load_step_results:
  "load_step connections concurrency st ev = Inr st' \<Longrightarrow>
     lt_results st' = lt_results st @ (case ev of Session_Done k r \<Rightarrow> [(k, r)] | _ \<Rightarrow> [])"
  by (cases ev) (auto simp: loop_head_def split: load_phase.splits race.splits if_splits prod.splits)

lemma genuine_results:
  assumes "run_machine (load_step connections concurrency) st evs = Inr st'" and "list_all (genuine env log) evs"
    and "list_all (\<lambda>(k, r). genuine env log (Session_Done k r)) (lt_results st)"
  shows "list_all (\<lambda>(k, r). genuine env log (Session_Done k r)) (lt_results st')"
  using assms
proof (induction evs arbitrary: st)
  case (Cons ev evs)
  then obtain s1 where s1: "load_step connections concurrency st ev = Inr s1"
    and run: "run_machine (load_step connections concurrency) s1 evs = Inr st'"
    by (auto simp: res_bind_eq_Inr)
  have "list_all (\<lambda>(k, r). genuine env log (Session_Done k r)) (lt_results s1)"
    using Cons.prems(2,3) load_step_results[OF s1] by (auto split: load_event.splits)
  then show ?case using Cons.IH[OF run] Cons.prems(2) by simp
qed simp

text \<open>What can still happen, once every session in flight has been decided.\<close>

lemma decided_session:
  assumes "snd (first_decision env k 0 (snd (log k))) \<noteq> None"
  shows "hangs env log k \<or> genuine env log (Session_Rejected k)
    \<or> genuine env log (Session_Done k (ss_result (answered env log k)))"
proof (cases "first_decision env k 0 (snd (log k))" rule: verdict_of.cases)
  case (2 t0 t)
  then show ?thesis using session_verdict[of env k "fst (log k)" "snd (log k)"]
    by (simp add: genuine_done answered_def verdict_def runOne_def)
next
  case (3 t0 msg)
  then show ?thesis using session_verdict[of env k "fst (log k)" "snd (log k)"]
    by (simp add: genuine_done answered_def verdict_def runOne_def)
qed (use assms in \<open>simp_all add: hangs_def runOne_def\<close>)

lemma hanging_session:
  assumes "hangs env log k"
  shows "\<not> genuine env log (Session_Rejected k)" and "\<not> genuine env log (Session_Done k r)"
  using assms session_verdict[of env k "fst (log k)" "snd (log k)"]
  by (cases "first_decision env k 0 (snd (log k))"; simp add: hangs_def genuine_done answered_def verdict_def)+

definition load_blocked :: "load_env \<Rightarrow> (nat \<Rightarrow> int \<times> session_event list) \<Rightarrow> load_state \<Rightarrow> bool" where
  "load_blocked env log st \<longleftrightarrow>
     (lt_phase st = Awaiting Pending \<or> lt_phase st = Draining \<and> lt_flight st \<noteq> [])
     \<and> lt_rejected st = [] \<and> list_all (hangs env log) (lt_flight st)"

lemma enabled_iff:
  assumes ok: "ok_load connections concurrency st"
    and decided: "list_all (\<lambda>k. snd (first_decision env k 0 (snd (log k))) \<noteq> None) (lt_flight st)"
  shows "(\<exists>ev st'. genuine env log ev \<and> load_step connections concurrency st ev = Inr st') \<longleftrightarrow>
    lt_phase st \<notin> {Finished, Fatal_Exit} \<and> \<not> load_blocked env log st"
proof
  assume "\<exists>ev st'. genuine env log ev \<and> load_step connections concurrency st ev = Inr st'"
  then obtain ev st' where e: "genuine env log ev" "load_step connections concurrency st ev = Inr st'" by blast
  show "lt_phase st \<notin> {Finished, Fatal_Exit} \<and> \<not> load_blocked env log st"
  proof (cases ev)
    case Main_Step
    then show ?thesis using e(2) by (auto simp: load_blocked_def split: load_phase.splits race.splits if_splits)
  next
    case (Session_Done k r)
    then have "k \<in> set (lt_flight st)" "lt_phase st \<noteq> Fatal_Exit" "\<not> hangs env log k"
      using e hanging_session(2) by (auto simp: unsettled_def split: if_splits)
    then show ?thesis using ok by (auto simp: load_blocked_def ok_load_def list_all_iff)
  next
    case (Session_Rejected k)
    then have "k \<in> set (lt_flight st)" "lt_phase st \<noteq> Fatal_Exit" "\<not> hangs env log k"
      using e hanging_session(1) by (auto simp: unsettled_def split: if_splits)
    then show ?thesis using ok by (auto simp: load_blocked_def ok_load_def list_all_iff)
  qed
next
  assume live: "lt_phase st \<notin> {Finished, Fatal_Exit} \<and> \<not> load_blocked env log st"
  show "\<exists>ev st'. genuine env log ev \<and> load_step connections concurrency st ev = Inr st'"
  proof (cases "\<exists>st'. load_step connections concurrency st Main_Step = Inr st'")
    case True
    then show ?thesis using genuine.simps(1) by blast
  next
    case False
    then have waits: "lt_phase st = Awaiting Pending \<or> lt_phase st = Draining \<and> lt_flight st \<noteq> []"
      and none: "lt_rejected st = []"
      using live ok by (auto simp: ok_load_def split: load_phase.splits race.splits if_splits)
    then obtain k where k: "k \<in> set (lt_flight st)" "\<not> hangs env log k"
      using live by (auto simp: load_blocked_def list_all_iff)
    then have "unsettled st k" using none live by (simp add: unsettled_def)
    then have "load_step connections concurrency st (Session_Rejected k) = Inr (session_rejected k st)"
      "load_step connections concurrency st (Session_Done k r) = Inr (session_done k r st)" for r by simp_all
    moreover have "genuine env log (Session_Rejected k) \<or> genuine env log (Session_Done k (ss_result (answered env log k)))"
      using decided_session[of env k log] k decided by (auto simp: list_all_iff)
    ultimately show ?thesis by blast
  qed
qed

text \<open>C39. The schedule of the load test, for every order in which the sessions may finish or be rejected:
  there are at most twice as many steps as connections, and two; never more sessions are open than the
  concurrency allows; when the loop has ended every seat has exactly one result; the process ends with
  the fatal exit only after a session was rejected, and a session that was rejected keeps it from ending
  otherwise. Once every session in flight has been decided (its timer does so at the latest), the schedule
  stands still, neither finished nor fatal, exactly if it waits and every session in flight hangs on an
  error frame that could not be read; none is in flight there only if the concurrency admits nobody, and
  then there is never a result.
\<close>

theorem load_test_schedule:
  assumes "run_machine (load_step connections concurrency) load_start evs = Inr st"
  shows "int (length evs) \<le> 2 * max 0 connections + 2
    \<and> int (length (lt_flight st)) \<le> max 0 concurrency
    \<and> (lt_phase st = Finished \<longrightarrow> lt_flight st = [] \<and> lt_rejected st = []
         \<and> mset (map fst (lt_results st)) = mset [0..<nat connections])
    \<and> (lt_phase st = Fatal_Exit \<longrightarrow> lt_rejected st \<noteq> [])
    \<and> (list_all (\<lambda>k. snd (first_decision env k 0 (snd (log k))) \<noteq> None) (lt_flight st) \<longrightarrow>
         ((\<exists>ev st'. genuine env log ev \<and> load_step connections concurrency st ev = Inr st') \<longleftrightarrow>
            lt_phase st \<notin> {Finished, Fatal_Exit} \<and> \<not> load_blocked env log st))
    \<and> (load_blocked env log st \<and> lt_flight st = [] \<longrightarrow> concurrency \<le> 0 \<and> 0 < connections)
    \<and> (concurrency \<le> 0 \<and> 0 < connections \<longrightarrow> lt_results st = [] \<and> lt_phase st \<notin> {Finished, Fatal_Exit})"
proof -
  have ok: "ok_load connections concurrency st"
    using lm.run_inv[OF ok_load_start assms] .
  have steps: "int (length evs) \<le> 2 * max 0 connections + 2"
    using load_run_left[OF assms] by (simp add: load_start_left)
  have idle: "lt_results st = [] \<and> lt_phase st \<notin> {Finished, Fatal_Exit}" if "concurrency \<le> 0 \<and> 0 < connections"
    using ok that by (auto simp: ok_load_def)
  have empty: "concurrency \<le> 0 \<and> 0 < connections" if "load_blocked env log st \<and> lt_flight st = []"
    using ok that by (auto simp: ok_load_def load_blocked_def)
  have ends: "lt_phase st = Finished \<longrightarrow> lt_flight st = [] \<and> lt_rejected st = []"
    "lt_phase st = Fatal_Exit \<longrightarrow> lt_rejected st \<noteq> []" "int (length (lt_flight st)) \<le> max 0 concurrency"
    using ok by (auto simp: ok_load_def)
  show ?thesis
    using steps idle empty ends enabled_iff[OF ok, of env log] finished_seats[OF ok] by blast
qed

definition no_answer :: run_result where
  "no_answer = \<lparr> connectMs = None, ackMs = None, run_error = Some ''refused'' \<rparr>"

text \<open>An address that the socket does not accept ends the first wait with the fatal exit.\<close>

lemma refused_address_is_fatal:
  assumes "load_parseArgs argv = Exit_With args" and "0 < la_connections args" and "0 < la_concurrency args"
  shows "load_test_main argv [Main_Step, Session_Rejected 0, Main_Step] wall = Some Exit_Fatal"
proof -
  let ?fill = "fill (la_connections args) (la_concurrency args) 0 []"
  have "0 \<in> set (snd ?fill)"
    using assms(2,3) fill_spec[of "la_connections args" "la_concurrency args" 0 "[]" "fst ?fill" "snd ?fill"] by auto
  then show ?thesis
    using assms by (simp add: load_test_main_def load_start_def loop_head_def unsettled_def session_rejected_def
        case_prod_unfold Let_def)
qed

definition three_seats :: "load_event list" where
  "three_seats = [Main_Step, Session_Done 1 no_answer, Main_Step, Session_Done 0 no_answer, Main_Step,
     Session_Done 2 no_answer, Main_Step]"

theorem load_test_schedule_witness:
  "mset (map fst (lt_results (projr (run_machine (load_step 3 2) load_start three_seats)))) = mset [0..<3]"
proof -
  have run: "run_machine (load_step 3 2) load_start three_seats
      = Inr \<lparr> lt_next = 3, lt_flight = [], lt_rejected = [], lt_results = [(1, no_answer), (0, no_answer), (2, no_answer)],
          lt_phase = Finished \<rparr>"
    by code_simp
  show ?thesis using load_test_schedule[OF run] unfolding run by simp
qed

lemma length_map_filter: "length (List.map_filter f xs) = length (filter (\<lambda>x. f x \<noteq> None) xs)"
  by (induction xs) (auto simp: List.map_filter_simps split: option.splits)

lemma filter_map_filter:
  "length (filter ((=) e) (List.map_filter f xs)) = length (filter (\<lambda>x. f x = Some e) xs)"
  by (induction xs) (auto simp: List.map_filter_simps split: option.splits)

lemma report_fields:
  "sm_config (load_report a w rs) = a"
  "lat_count (sm_acks (load_report a w rs)) = int (length (filter (\<lambda>x. ackMs x \<noteq> None) rs))"
  "sm_errors (load_report a w rs) = int (length (filter (\<lambda>x. run_error x \<noteq> None) rs))"
  "sm_by_code (load_report a w rs) = (\<lambda>e. let c = length (filter (\<lambda>x. run_error x = Some e) rs)
     in if c = 0 then None else Some (int c))"
  "sorted [lat_p50 (sm_acks (load_report a w rs)), lat_p95 (sm_acks (load_report a w rs)),
     lat_p99 (sm_acks (load_report a w rs)), lat_max (sm_acks (load_report a w rs))]"
  "sorted [lat_p50 (sm_connects (load_report a w rs)), lat_p95 (sm_connects (load_report a w rs)),
     lat_p99 (sm_connects (load_report a w rs)), lat_max (sm_connects (load_report a w rs))]"
  using latencies_ordered[of "List.map_filter ackMs rs"] latencies_ordered[of "List.map_filter connectMs rs"]
  by (auto simp: load_report_def Let_def latencies_count length_map_filter count_errors filter_map_filter
      intro!: ext)

lemma outcomes_partition:
  assumes "list_all (\<lambda>k. ackMs (f k) = None \<longleftrightarrow> run_error (f k) \<noteq> None) ks"
  shows "length (filter (\<lambda>k. ackMs (f k) \<noteq> None) ks) + length (filter (\<lambda>k. run_error (f k) \<noteq> None) ks)
    = length ks"
  using assms by (induction ks) auto

text \<open>A count over the results of a finished run is the count over the seats.\<close>

lemma finished_count:
  assumes "mset (map fst rs) = mset [0..<n]"
    and "list_all (\<lambda>(k, r). genuine env log (Session_Done k r)) rs"
  shows "length (filter P (map snd rs)) = length (filter (\<lambda>k. P (ss_result (answered env log k))) [0..<n])"
proof -
  have "map snd rs = map (\<lambda>k. ss_result (answered env log k)) (map fst rs)"
    using assms(2) by (auto simp: list_all_iff genuine_done)
  then have "mset (map snd rs) = image_mset (\<lambda>k. ss_result (answered env log k)) (mset [0..<n])"
    using assms(1) by (metis mset_map)
  then have "mset (filter P (map snd rs))
      = image_mset (\<lambda>k. ss_result (answered env log k)) (mset (filter (\<lambda>k. P (ss_result (answered env log k))) [0..<n]))"
    by (simp add: filter_mset_image_mset)
  then show ?thesis by (metis size_image_mset size_mset)
qed

text \<open>C40. What the load test prints: if every result it collected is that of a session that was resolved, then
  every seat contributes exactly one outcome, an acknowledgement or an error; the two counts add up to the
  number of connections; the error summary counts each error text exactly; and the percentiles printed
  are in ascending order.
\<close>

theorem load_report_accounts:
  assumes "load_parseArgs argv = Exit_With (le_args env)"
    and "load_test_main argv evs wall = Some (Exit_With r)"
    and "list_all (genuine env log) evs"
  shows "sm_config r = le_args env
    \<and> lat_count (sm_acks r) + sm_errors r = max 0 (la_connections (le_args env))
    \<and> lat_count (sm_acks r) = int (length
         (filter (\<lambda>k. ackMs (ss_result (answered env log k)) \<noteq> None) [0..<nat (la_connections (le_args env))]))
    \<and> sm_by_code r = (\<lambda>e. let c = length (filter (\<lambda>k. run_error (ss_result (answered env log k)) = Some e)
           [0..<nat (la_connections (le_args env))]) in if c = 0 then None else Some (int c))
    \<and> sorted [lat_p50 (sm_acks r), lat_p95 (sm_acks r), lat_p99 (sm_acks r), lat_max (sm_acks r)]
    \<and> sorted [lat_p50 (sm_connects r), lat_p95 (sm_connects r), lat_p99 (sm_connects r), lat_max (sm_connects r)]"
proof -
  let ?a = "le_args env" and ?n = "nat (la_connections (le_args env))"
  let ?res = "\<lambda>k. ss_result (answered env log k)"
  obtain st where run: "run_machine (load_step (la_connections ?a) (la_concurrency ?a)) load_start evs = Inr st"
    and fin: "lt_phase st = Finished" and r: "r = load_report ?a wall (map snd (lt_results st))"
    using assms(1,2) by (auto simp: load_test_main_def split: sum.splits load_phase.splits)
  have ok: "ok_load (la_connections ?a) (la_concurrency ?a) st"
    using lm.run_inv[OF ok_load_start run] .
  have gen: "list_all (\<lambda>(k, r). genuine env log (Session_Done k r)) (lt_results st)"
    by (rule genuine_results[OF run assms(3)]) (simp add: load_start_def)
  note count = finished_count[OF finished_seats[OF ok fin] gen]
  have keys: "mset (map fst (lt_results st)) = mset [0..<?n]" by (rule finished_seats[OF ok fin])
  have "list_all (\<lambda>k. ss_resolved (answered env log k) = 1) (map fst (lt_results st))"
    using gen by (auto simp: list_all_iff genuine_done)
  then have "list_all (\<lambda>k. ss_resolved (answered env log k) = 1) [0..<?n]"
    using mset_eq_setD[OF keys] by (simp only: list_all_iff)
  then have one: "list_all (\<lambda>k. ackMs (?res k) = None \<longleftrightarrow> run_error (?res k) \<noteq> None) [0..<?n]"
    by (auto simp: list_all_iff answered_def resolved_has_one_outcome)
  have "lat_count (sm_acks r) + sm_errors r = int ?n"
    unfolding r report_fields count using outcomes_partition[OF one]
    by (simp only: of_nat_add[symmetric] length_upt diff_zero)
  then show ?thesis
    using report_fields(5,6)[of ?a wall "map snd (lt_results st)"]
    unfolding r report_fields(1-4) count by simp
qed

definition load_demo_argv :: "string list" where
  "load_demo_argv = [''--ws'', ''ws://host/ws'', ''--game-id'', ''aa'', ''--connections'', ''2'', ''--concurrency'', ''1'']"

definition load_demo_env :: load_env where
  "load_demo_env = \<lparr> le_accepts_url = (\<lambda>_. True), le_sha = (\<lambda>_. replicate 32 0), le_stringify = (\<lambda>_. ''{}''), le_parse_code = (\<lambda>_. None),
     le_args = \<lparr> la_ws = ''ws://host/ws'', la_gameId = ''aa'', la_connections = 2, la_concurrency = 1,
       la_timeoutMs = Some 10000 \<rparr> \<rparr>"

definition accepted_frame :: "byte list" where
  "accepted_frame = projr (encode (\<lambda>_. replicate 32 0)
     \<lparr> fr_version = VERSION_1_0, fr_type = msg_type_code Msg_ActionAccepted, fr_payload = [] \<rparr>)"

definition load_demo_log :: "nat \<Rightarrow> int \<times> session_event list" where
  "load_demo_log k = (if k = 0 then (0, [Sess_Open 2000, Sess_Encoded None, Sess_Message 5000 accepted_frame])
     else (6000, [Sess_Open 9000, Sess_Encoded None, Sess_Timer]))"

definition load_demo_events :: "load_event list" where
  "load_demo_events = [Main_Step, Session_Done 0 (ss_result (answered load_demo_env load_demo_log 0)),
     Main_Step, Session_Done 1 (ss_result (answered load_demo_env load_demo_log 1)), Main_Step, Main_Step]"

lemma accepted_frame_decodes:
  "\<exists>f n. decode (\<lambda>_. replicate 32 0) accepted_frame = Inr (f, n) \<and> fr_type f = msg_type_code Msg_ActionAccepted"
proof -
  have "encode (\<lambda>_. replicate 32 0) \<lparr> fr_version = VERSION_1_0, fr_type = msg_type_code Msg_ActionAccepted,
      fr_payload = [] \<rparr> = Inr accepted_frame"
    by (simp add: accepted_frame_def encode_def MAX_PAYLOAD_SIZE_def)
  from decode_encoded[OF _ this, of "[]"] show ?thesis by simp
qed

lemma load_demo_timeout: "timeout_text load_demo_env = ''timeout after 10000ms''"
  by (simp add: timeout_text_def number_text_def nat_text.simps load_demo_env_def)

lemma load_demo_answers:
  "ss_resolved (answered load_demo_env load_demo_log 0) = 1
    \<and> ss_result (answered load_demo_env load_demo_log 0) = \<lparr> connectMs = Some 2000, ackMs = Some 3000, run_error = None \<rparr>"
  "ss_resolved (answered load_demo_env load_demo_log 1) = 1
    \<and> ss_result (answered load_demo_env load_demo_log 1)
        = \<lparr> connectMs = Some 3000, ackMs = None, run_error = Some ''timeout after 10000ms'' \<rparr>"
proof -
  obtain f n where dec: "decode (le_sha load_demo_env) accepted_frame = Inr (f, n)"
      "fr_type f = msg_type_code Msg_ActionAccepted"
    using accepted_frame_decodes by (auto simp: load_demo_env_def)
  have enc: "\<exists>bs. on_encoded load_demo_env k None ss = ss\<lparr> ss_posted := bs \<rparr>" for k ss
    by (auto simp: on_encoded_def split: sum.splits intro: exI[of _ "ss_posted ss"])
  obtain bs where e0: "on_encoded load_demo_env 0 None (on_open 2000 (new_session 0))
      = on_open 2000 (new_session 0)\<lparr> ss_posted := bs \<rparr>" using enc by blast
  then show "ss_resolved (answered load_demo_env load_demo_log 0) = 1
    \<and> ss_result (answered load_demo_env load_demo_log 0) = \<lparr> connectMs = Some 2000, ackMs = Some 3000, run_error = None \<rparr>"
    using dec by (simp add: answered_def session_run_def load_demo_log_def on_message_def)
      (simp add: on_open_def new_session_def resolve_with_def mark_settled_def close_socket_def)
  obtain bs' where "on_encoded load_demo_env 1 None (on_open 9000 (new_session 6000))
      = on_open 9000 (new_session 6000)\<lparr> ss_posted := bs' \<rparr>" using enc by blast
  then show "ss_resolved (answered load_demo_env load_demo_log 1) = 1
    \<and> ss_result (answered load_demo_env load_demo_log 1)
        = \<lparr> connectMs = Some 3000, ackMs = None, run_error = Some ''timeout after 10000ms'' \<rparr>"
    using load_demo_timeout by (simp add: answered_def session_run_def load_demo_log_def on_timer_def)
      (simp add: on_open_def new_session_def resolve_with_def mark_settled_def close_socket_def)
qed

lemma load_demo_parses: "load_parseArgs load_demo_argv = Exit_With (le_args load_demo_env)"
  by code_simp

lemma load_demo_genuine: "list_all (genuine load_demo_env load_demo_log) load_demo_events"
  using load_demo_answers by (simp add: load_demo_events_def genuine_done) (simp add: load_demo_env_def)

lemma load_demo_runs:
  "load_test_main load_demo_argv load_demo_events 20000 = Some (Exit_With
     (load_report (le_args load_demo_env) 20000
        [ss_result (answered load_demo_env load_demo_log 0), ss_result (answered load_demo_env load_demo_log 1)]))"
  by (simp add: load_test_main_def load_demo_parses load_demo_events_def load_start_def loop_head_def
      session_done_def unsettled_def fill.simps load_demo_env_def)

theorem load_report_accounts_witness:
  "lat_count (sm_acks (load_report (le_args load_demo_env) 20000
      [ss_result (answered load_demo_env load_demo_log 0), ss_result (answered load_demo_env load_demo_log 1)])) +
   sm_errors (load_report (le_args load_demo_env) 20000
      [ss_result (answered load_demo_env load_demo_log 0), ss_result (answered load_demo_env load_demo_log 1)]) = 2"
  using load_report_accounts[OF load_demo_parses load_demo_runs load_demo_genuine]
  by (simp add: load_demo_env_def)

end
