(* ===== verification/App_Shell.thy ===== *)
theory App_Shell
  imports Client
begin

text \<open>
  \<open>App.tsx\<close>: what the page shows of the store and which controls it offers, each as the operation of the
  store it calls. Markup, labels and the fixed texts are left out. A session of the page is a list of
  presses of controls that are enabled when they are pressed.
\<close>

section \<open>The page\<close>

record seat_row =
  row_seat :: seat
  row_status :: participation_status
  row_stake :: satoshis

record settlement_box =
  box_outcome :: settlement_outcome
  box_bet :: satoshis
  box_amount :: satoshis
  box_pot :: satoshis

record app_page =
  page_connection :: connection_mode
  page_relayUrl :: "string option"
  page_class :: state_class
  page_pot :: satoshis
  page_seat_count :: nat
  page_round :: int
  page_acting :: "seat option"
  page_seats :: "seat_row list"
  page_cards :: "(rank \<times> suit \<times> int) list"
  page_settlement :: "settlement_box option"
  page_error :: "error_code option"
  page_controls :: "client_event list"

text \<open>The buttons, in the order of the page; a disabled one is not there.\<close>

definition app_controls :: "table_store \<Rightarrow> client_event list" where
  "app_controls st =
     (if ts_connection st = Online \<or> ts_connection st = Connecting then []
      else [Ev_ConnectBegin ''ws://localhost:8081/ws''])
     @ (if ts_connection st = Offline then [] else [Ev_Disconnect])
     @ [Ev_SeatJoin 0, Ev_SeatJoin 1, Ev_TableLock,
        Ev_EntropyCommit 0, Ev_EntropyCommit 1, Ev_EntropyReveal 0, Ev_EntropyReveal 1,
        Ev_RevealCard 3, Ev_RevealCard 20, Ev_RevealCard 5, Ev_RevealCard 11,
        Ev_PlaceBet (min_bet (ts_ruleSet st)), Ev_PlaceBet (max_bet (ts_ruleSet st)), Ev_Pass,
        Ev_Settle (acting_or_zero st), Ev_Reset]"

definition App :: "table_store \<Rightarrow> app_page" where
  "App st = (let s = ts_state st in \<lparr>
     page_connection = ts_connection st,
     page_relayUrl = (case ts_relayUrl st of None \<Rightarrow> None | Some u \<Rightarrow> if u = [] then None else Some u),
     page_class = state_class s, page_pot = pot_value s, page_seat_count = length (players s),
     page_round = round_number s, page_acting = acting_player_seat s,
     page_seats = map (\<lambda>p. \<lparr> row_seat = player_state.seat p, row_status = participation_status p,
                             row_stake = stake_at_risk p \<rparr>) (players s),
     page_cards = map (\<lambda>c. (rank c, suit c, ordinal c)) (visible_cards s),
     page_settlement = map_option (\<lambda>r. \<lparr> box_outcome = outcome r, box_bet = sr_bet_amount r,
         box_amount = amount_won_or_lost r, box_pot = resulting_pot_value r \<rparr>) (ts_settlement st),
     page_error = ts_lastError st, page_controls = app_controls st \<rparr>)"

fun app_session ::
  "(byte list \<Rightarrow> round_state option) \<Rightarrow> (byte list \<Rightarrow> error_code option) \<Rightarrow> client_event list \<Rightarrow> table_store \<Rightarrow> bool"
where
  "app_session ps pe [] st \<longleftrightarrow> True"
| "app_session ps pe (ev # evs) st \<longleftrightarrow>
     ev \<in> set (page_controls (App st)) \<and> app_session ps pe evs (fst (client_op ps pe ev st))"

section \<open>Sessions without a relay\<close>

definition app_cards :: "int set" where
  "app_cards = {3, 20, 5, 11}"

definition offline_press :: "client_event \<Rightarrow> bool" where
  "offline_press ev \<longleftrightarrow> (case ev of Ev_ConnectBegin _ \<Rightarrow> False | _ \<Rightarrow> True)"

definition app_store :: "table_store \<Rightarrow> bool" where
  "app_store st \<longleftrightarrow> local_store st \<and> ordinal ` set (visible_cards (ts_state st)) \<subseteq> app_cards
     \<and> (\<forall>r. ts_settlement st = Some r \<longrightarrow> outcome r \<in> {Win, Loss, Equal_Penalty})"

fun app_payload :: "action_payload \<Rightarrow> bool" where
  "app_payload (CardReveal_Payload r) = (ordinal (proof_card r) \<in> app_cards)"
| "app_payload _ = True"

lemma app_classification:
  assumes "ordinal ` set cs \<subseteq> app_cards" and "classifyInBetweenRound cs = ok (oc, t)"
  shows "oc \<in> {Win, Loss, Equal_Penalty}"
proof -
  obtain a b c where cs: "cs = [a, b, c]"
    using classify_length[OF assms(2)] by (auto simp: numeral_3_eq_3 length_Suc_conv)
  have "ordinal a \<in> app_cards" "ordinal b \<in> app_cards" using assms(1) cs by auto
  then have "\<bar>js_rem (ordinal a) 13 - js_rem (ordinal b) 13\<bar> \<noteq> 1"
    by (auto simp: app_cards_def js_rem_nonneg)
  then show ?thesis using assms(2) unfolding cs
    by (auto simp: classifyInBetweenRound_def Let_def split: if_splits)
qed

lemma estep_visible:
  "estep rs h s a s' \<Longrightarrow> set (visible_cards s') \<subseteq> set (visible_cards s)
     \<union> (case payload a of CardReveal_Payload r \<Rightarrow> {proof_card r} | _ \<Rightarrow> {})"
  by (cases rule: estep.cases) auto

lemma preview_outcome:
  "computeSettlement s rs = ok r \<Longrightarrow> \<exists>t. classifyInBetweenRound (visible_cards s) = ok (outcome r, t)"
  unfolding computeSettlement_ok_iff by (elim exE conjE) simp

lemma app_apply:
  assumes st: "app_store st" and p: "client_payload (payload a)" "app_payload (payload a)"
    and c: "computeSettle \<longrightarrow> payload a = Settle_Payload"
  shows "app_store (fst (store_apply a computeSettle st))"
proof -
  have loc: "local_store (fst (store_apply a computeSettle st))"
    using st local_apply[OF _ p(1) c] by (simp add: app_store_def)
  have off: "\<not> ts_relay st" using st by (simp add: app_store_def local_store_def)
  have cls: "outcome r \<in> {Win, Loss, Equal_Penalty}" if pv: "computeSettlement (ts_state st) rs = ok r" for r rs
  proof -
    obtain t where t: "classifyInBetweenRound (visible_cards (ts_state st)) = ok (outcome r, t)"
      using preview_outcome[OF pv] by blast
    show ?thesis using app_classification[OF _ t] st by (simp add: app_store_def)
  qed
  have cards: "ordinal ` set (visible_cards nxt) \<subseteq> app_cards"
    if acc: "applyAction (ts_state st) a (ts_ruleSet st) (ts_height st) = ok nxt" for nxt
  proof -
    have "set (visible_cards nxt) \<subseteq> set (visible_cards (ts_state st))
        \<union> (case payload a of CardReveal_Payload r \<Rightarrow> {proof_card r} | _ \<Rightarrow> {})"
      using acc estep_visible by (simp add: applyAction_iff_estep)
    then show ?thesis using st p(2) by (cases "payload a") (auto simp: app_store_def)
  qed
  show ?thesis using st loc off cls cards
    by (auto simp: app_store_def store_apply_def split: sum.splits failure.splits if_splits)
qed

lemma app_submit:
  assumes st: "app_store st"
    and p: "\<And>pl. p = ok pl \<Longrightarrow> client_payload pl \<and> app_payload pl" and c: "c \<longrightarrow> p = ok Settle_Payload"
  shows "app_store (fst (submit seat_of p c st))"
proof -
  have n: "app_store (st\<lparr> ts_nonce := n \<rparr>)" for n using st by (simp add: app_store_def local_store_def)
  show ?thesis
  proof (cases p)
    case (Inl e)
    then show ?thesis using n by (simp add: submit_def Let_def)
  next
    case (Inr pl)
    then show ?thesis unfolding submit_def Let_def using p[OF Inr] c
      by (auto intro!: app_apply n)
  qed
qed

lemma app_step:
  assumes st: "app_store st" and ev: "ev \<in> set (page_controls (App st))" "offline_press ev"
  shows "app_store (fst (client_op ps pe ev st))"
proof -
  have reveal: "app_store (fst (revealCard n st))" if "n \<in> app_cards" for n
  proof -
    have "ordinal c = n" if "cardFromOrdinal n = ok c" for c
      using that by (auto simp: cardFromOrdinal_def Let_def split: if_splits)
    then show ?thesis unfolding revealCard_def using that
      by (intro app_submit[OF st]) (auto simp: res_bind_eq_Inr)
  qed
  have rest: "app_store (fst (seatJoin k st))" "app_store (fst (tableLock st))"
    "app_store (fst (entropyCommit k st))" "app_store (fst (entropyReveal k st))"
    "app_store (fst (placeBet b st))" "app_store (fst (store_pass st))" "app_store (fst (store_settle k st))" for k b
    by (auto simp: table_op_defs intro!: app_submit[OF st])
  have reset: "app_store (fst (reset st))"
    using local_start[of st] st by (simp add: app_store_def local_store_def reset_def empty_store_def
        startState_def initialState_def)
  have "ts_connection st = Offline" using st by (simp add: app_store_def local_store_def)
  then show ?thesis using ev reveal rest reset
    by (auto simp: App_def Let_def app_controls_def offline_press_def app_cards_def)
qed

lemma app_run:
  "app_store st \<Longrightarrow> app_session ps pe evs st \<Longrightarrow> list_all offline_press evs \<Longrightarrow>
     app_store (client_run ps pe evs st)"
  by (induction evs arbitrary: st) (auto simp: client_run_def app_step)

text \<open>Whoever only presses the controls of the page and never connects sees cards of four ranks, no two of
  them adjacent, and so never the penalty for consecutive cards; a settlement shown is a win, a loss or
  the penalty for equal cards.\<close>

lemma page_never_shows_consecutive_penalty:
  assumes "app_session ps pe evs empty_store" and "list_all offline_press evs"
  shows "(\<lambda>(_, _, n). n) ` set (page_cards (App (client_run ps pe evs empty_store))) \<subseteq> {3, 20, 5, 11}
    \<and> (\<forall>b. page_settlement (App (client_run ps pe evs empty_store)) = Some b \<longrightarrow>
          box_outcome b \<in> {Win, Loss, Equal_Penalty})
    \<and> page_connection (App (client_run ps pe evs empty_store)) = Offline"
proof -
  have "app_store empty_store"
    using local_start[of empty_store]
    by (simp add: app_store_def empty_store_def startState_def initialState_def)
  from app_run[OF this assms] have "app_store (client_run ps pe evs empty_store)" .
  then show ?thesis by (auto simp: app_store_def local_store_def App_def Let_def app_cards_def)
qed

text \<open>The round its labels suggest can be played on the page, and wins.\<close>

definition page_round_won :: "client_event list" where
  "page_round_won = [Ev_SeatJoin 0, Ev_SeatJoin 1, Ev_TableLock, Ev_EntropyCommit 0, Ev_EntropyCommit 1,
     Ev_EntropyReveal 0, Ev_EntropyReveal 1, Ev_RevealCard 3, Ev_RevealCard 20, Ev_PlaceBet 100,
     Ev_RevealCard 5, Ev_Settle 0]"

lemma page_round_plays:
  "app_session (\<lambda>_. None) (\<lambda>_. None) page_round_won empty_store
   \<and> map_option box_outcome (page_settlement (App (client_run (\<lambda>_. None) (\<lambda>_. None) page_round_won empty_store)))
       = Some Win"
  unfolding page_round_won_def by code_simp

end
