(* ===== verification/Domains.thy ===== *)
theory Domains
  imports Deck Rule_Codec
begin

text \<open>
  The strings that \<open>packages/crypto-cards\<close> hashes, side by side. The tags of \<open>hash.ts\<close> do not tell them
  apart: the combined entropy, the deck nonce and the deck commitment share one, the card nonce and the
  card commitment another, and the byte stream has none. That no string is hashed for two purposes, or for
  two contents, rests on the lengths and on the deck sizes that \<open>shuffleCanonicalDeck\<close> admits. Beside it:
  the tags of \<open>protocol-types/src/hash.ts\<close>, and \<open>concat\<close> as the loop the sources write.
\<close>

section \<open>What is hashed\<close>

datatype hash_input =
    Commit_Input "byte list" "byte list" "byte list"
  | Combine_Input "byte list list"
  | Deck_Nonce_Input "byte list"
  | Card_Nonce_Input "byte list" int
  | Card_Input int "byte list" "byte list"
  | Deck_Input "byte list list"
  | Stream_Input "byte list" int

text \<open>The call of the source for each purpose; for the deck, the last step of \<open>buildDeckCommitment\<close>, and
  for the stream, the block that \<open>nextByte\<close> fetches.\<close>

fun hash_call :: "(byte list \<Rightarrow> byte list) \<Rightarrow> hash_input \<Rightarrow> byte list result" where
  "hash_call sha (Commit_Input e p g) = commitEntropy sha e p g"
| "hash_call sha (Combine_Input es) = combineEntropy sha es"
| "hash_call sha (Deck_Nonce_Input c) = deriveDeckNonce sha c"
| "hash_call sha (Card_Nonce_Input c i) = deriveCardNonce sha c i"
| "hash_call sha (Card_Input n cn dn) = commitCard sha n cn dn"
| "hash_call sha (Deck_Input cs) = aggregate_hash sha 1 cs"
| "hash_call sha (Stream_Input s n) =
     res_bind (nextByte sha \<lparr> prg_buf = [], prg_offset = 0, prg_counter = n, prg_seed = s \<rparr>)
       (\<lambda>(_, p). ok (prg_buf p))"

text \<open>The arguments that occur: values of 32 bytes, numbers in range, decks of 52 or 54 cards.\<close>

fun proper_input :: "hash_input \<Rightarrow> bool" where
  "proper_input (Commit_Input e p g) \<longleftrightarrow> length e = 32 \<and> length p = 32 \<and> length g = 32"
| "proper_input (Combine_Input es) \<longleftrightarrow>
     es \<noteq> [] \<and> list_all (\<lambda>e. length e = 32) es \<and> safe_nat (int (length es))"
| "proper_input (Deck_Nonce_Input c) \<longleftrightarrow> length c = 32"
| "proper_input (Card_Nonce_Input c i) \<longleftrightarrow> length c = 32 \<and> 0 \<le> i \<and> i \<le> 0xffffffff"
| "proper_input (Card_Input n cn dn) \<longleftrightarrow> 0 \<le> n \<and> n \<le> 53 \<and> length cn = 32 \<and> length dn = 32"
| "proper_input (Deck_Input cs) \<longleftrightarrow> (length cs = 52 \<or> length cs = 54) \<and> list_all (\<lambda>c. length c = 32) cs"
| "proper_input (Stream_Input s n) \<longleftrightarrow> length s = 32 \<and> 0 \<le> n \<and> n \<le> 0xffffffff"

fun hashed_bytes :: "hash_input \<Rightarrow> byte list" where
  "hashed_bytes (Commit_Input e p g) = entropy_preimage e p g"
| "hashed_bytes (Combine_Input es) = combined_preimage es"
| "hashed_bytes (Deck_Nonce_Input c) = tag_bytes TAG_DECK_COMMITMENT @ c @ utf8 ''deck-nonce''"
| "hashed_bytes (Card_Nonce_Input c i) = tag_bytes TAG_CARD @ c @ utf8 ''card-nonce'' @ le_bytes 4 i"
| "hashed_bytes (Card_Input n cn dn) = card_preimage n cn dn"
| "hashed_bytes (Deck_Input cs) = deck_preimage cs"
| "hashed_bytes (Stream_Input s n) = s @ le_bytes 4 n"

lemma encodeU16LE_tag: "0 \<le> t \<Longrightarrow> t \<le> 0xffff \<Longrightarrow> encodeU16LE t = ok (tag_bytes t)"
  by (simp add: encodeU16LE_def tag_bytes_def u8_ushr flip: le_bytes_2)

lemma hash_call_bytes: "proper_input a \<Longrightarrow> hash_call sha a = ok (sha (hashed_bytes a))"
proof (cases a)
  case (Combine_Input es)
  moreover assume "proper_input a"
  ultimately show ?thesis by (simp add: combineEntropy_ok_iff list_all_iff)
qed (simp_all add: commitEntropy_eq commitCard_eq deriveDeckNonce_def deriveCardNonce_def encodeU16LE_tag tags
    encodeU32LE_eq encodeU8_def aggregate_hash_def domainHash_eq deck_preimage_def nextByte_def)

section \<open>No string serves twice\<close>

lemma utf8_nonce_lengths: "length (utf8 ''deck-nonce'') = 10" "length (utf8 ''card-nonce'') = 10"
  by code_simp+

lemma length_concat_32: "list_all (\<lambda>e. length e = 32) es \<Longrightarrow> length (concat es) = 32 * length es"
  by (induction es) auto

lemma length_tag_bytes: "length (tag_bytes t) = 2"
  by (simp add: tag_bytes_def)

text \<open>Lengths modulo 32 leave few confusions.\<close>

fun residues :: "hash_input \<Rightarrow> nat set" where
  "residues (Commit_Input _ _ _) = {2}"
| "residues (Combine_Input _) = {3, 5, 7, 11}"
| "residues (Deck_Nonce_Input _) = {12}"
| "residues (Card_Nonce_Input _ _) = {16}"
| "residues (Card_Input _ _ _) = {3}"
| "residues (Deck_Input _) = {3}"
| "residues (Stream_Input _ _) = {4}"

lemma length_residue: "proper_input a \<Longrightarrow> length (hashed_bytes a) mod 32 \<in> residues a"
proof (cases a)
  case (Combine_Input es)
  moreover assume "proper_input a"
  ultimately have "length (hashed_bytes a) = 2 + length (varint_bytes (int (length es))) + 32 * length es"
    by (simp add: combined_preimage_def length_concat_32 length_tag_bytes)
  then show ?thesis using Combine_Input by (simp add: varint_bytes_def)
next
  case (Deck_Input cs)
  moreover assume "proper_input a"
  ultimately have "length (hashed_bytes a) = 3 + 32 * length cs"
    by (simp add: deck_preimage_def length_concat_32 length_tag_bytes)
  then show ?thesis using Deck_Input by simp
qed (simp_all add: entropy_preimage_def card_preimage_def length_tag_bytes utf8_nonce_lengths)

lemma tag_bytes_neq: "tag_bytes TAG_DECK_COMMITMENT \<noteq> tag_bytes TAG_CARD"
  by code_simp

lemma card_tag_apart: "card_preimage n cn dn \<noteq> tag_bytes TAG_DECK_COMMITMENT @ x"
  using tag_bytes_neq length_tag_bytes by (metis append_eq_append_conv card_preimage_def)

lemma combined_deck_apart:
  assumes "list_all (\<lambda>e. length e = 32) es" and "length cs = 52 \<or> length cs = 54"
    and "list_all (\<lambda>c. length c = 32) cs"
  shows "combined_preimage es \<noteq> deck_preimage cs"
proof
  assume eq: "combined_preimage es = deck_preimage cs"
  then have body: "varint_bytes (int (length es)) @ concat es = u8 1 # concat cs"
    by (simp add: combined_preimage_def deck_preimage_def)
  have "int (length es) < 253"
    using arg_cong[OF body, of hd] by (auto simp: varint_bytes_def u8_def split: if_splits)
  moreover from this have "u8 (int (length es)) = u8 1"
    using arg_cong[OF body, of hd] by (simp add: varint_bytes_def)
  ultimately have "length es = 1" using u8_inj[of "int (length es)" 1] by simp
  then show False using arg_cong[OF body, of length] assms
    by (auto simp: length_concat_32 varint_bytes_def)
qed

lemma deck_preimage_inj:
  assumes "list_all (\<lambda>c. length c = 32) cs" and "list_all (\<lambda>c. length c = 32) ds"
    and "deck_preimage cs = deck_preimage ds"
  shows "cs = ds"
  using concat_blocks[of 32 cs "\<lambda>x. x" ds] assms by (simp add: deck_preimage_def list_all_iff)

lemma le_bytes_4_inj:
  assumes "le_bytes 4 i = le_bytes 4 j" and "0 \<le> i" "i \<le> 0xffffffff" "0 \<le> j" "j \<le> 0xffffffff"
  shows "i = j"
proof -
  have "i mod 4294967296 = j mod 4294967296"
    using arg_cong[OF assms(1), of le_value] by (simp add: le_value_le_bytes)
  then show ?thesis using assms(2-) by simp
qed

lemma purpose_cases:
  assumes "residues a \<inter> residues b \<noteq> {}"
  obtains (commit) e p g e' p' g' where "a = Commit_Input e p g" "b = Commit_Input e' p' g'"
    | (combine) es es' where "a = Combine_Input es" "b = Combine_Input es'"
    | (deck_nonce) c c' where "a = Deck_Nonce_Input c" "b = Deck_Nonce_Input c'"
    | (card_nonce) c i c' i' where "a = Card_Nonce_Input c i" "b = Card_Nonce_Input c' i'"
    | (card) n cn dn n' cn' dn' where "a = Card_Input n cn dn" "b = Card_Input n' cn' dn'"
    | (deck) cs cs' where "a = Deck_Input cs" "b = Deck_Input cs'"
    | (stream) s i s' i' where "a = Stream_Input s i" "b = Stream_Input s' i'"
    | (card_other) n cn dn where "a = Card_Input n cn dn" "(\<exists>es. b = Combine_Input es) \<or> (\<exists>cs. b = Deck_Input cs)"
    | (other_card) n cn dn where "b = Card_Input n cn dn" "(\<exists>es. a = Combine_Input es) \<or> (\<exists>cs. a = Deck_Input cs)"
    | (combine_deck) es cs where "a = Combine_Input es" "b = Deck_Input cs"
    | (deck_combine) es cs where "b = Combine_Input es" "a = Deck_Input cs"
  using assms by (cases a; cases b) auto

lemma hashed_bytes_inj:
  assumes a: "proper_input a" and b: "proper_input b" and eq: "hashed_bytes a = hashed_bytes b"
  shows "a = b"
proof -
  have "residues a \<inter> residues b \<noteq> {}"
    using length_residue[OF a] length_residue[OF b] eq by auto
  then show ?thesis
  proof (cases rule: purpose_cases)
    case (combine es es')
    then show ?thesis using assms combined_preimage_inj[of es es'] by (simp add: list_all_iff)
  next
    case (card_nonce c i c' i')
    then show ?thesis using assms le_bytes_4_inj[of i i'] by simp
  next
    case (card n cn dn n' cn' dn')
    then show ?thesis using assms card_preimage_inj[of n cn dn n' cn' dn'] by simp
  next
    case (deck cs cs')
    then show ?thesis using assms deck_preimage_inj[of cs cs'] by simp
  next
    case (stream s i s' i')
    then show ?thesis using assms le_bytes_4_inj[of i i'] by simp
  next
    case card_other
    then show ?thesis using eq card_tag_apart by (auto simp: combined_preimage_def deck_preimage_def)
  next
    case other_card
    then show ?thesis using eq[symmetric] card_tag_apart by (auto simp: combined_preimage_def deck_preimage_def)
  next
    case (combine_deck es cs)
    then show ?thesis using assms combined_deck_apart[of es cs] by simp
  next
    case (deck_combine es cs)
    then show ?thesis using assms combined_deck_apart[of es cs] by simp
  qed (use assms in \<open>auto simp: entropy_preimage_def\<close>)
qed

text \<open>C20. The hashes of \<open>crypto-cards\<close> never mean two things: over all the strings the package hashes in
  play (entropy commitments, the combined entropy, deck and card nonces, card commitments, the deck
  commitment, blocks of the shuffle's byte stream), two calls return the same digest exactly if they are
  the same call on the same arguments, unless SHA-256 collides on the two strings. This holds although
  three of the purposes share one tag and two another.\<close>

theorem hash_calls_are_apart:
  assumes "proper_input a" and "proper_input b" and "inj_on sha {hashed_bytes a, hashed_bytes b}"
  shows "hash_call sha a = hash_call sha b \<longleftrightarrow> a = b"
proof
  assume "hash_call sha a = hash_call sha b"
  then have "sha (hashed_bytes a) = sha (hashed_bytes b)"
    by (simp add: hash_call_bytes[OF assms(1)] hash_call_bytes[OF assms(2)])
  from inj_onD[OF assms(3) this] show "a = b"
    using hashed_bytes_inj[OF assms(1,2)] by simp
qed simp

theorem hash_calls_are_apart_witness:
  "hash_call (\<lambda>x. x) (Combine_Input [replicate 32 7]) \<noteq> hash_call (\<lambda>x. x) (Deck_Input (replicate 52 (replicate 32 7)))"
  by (subst hash_calls_are_apart) (simp_all add: list_all_iff safe_nat_def MAX_SAFE_INTEGER_def)

text \<open>The tags alone would not do it: the commitment of a deck of one card would hash the same string as
  the combination of one entropy.\<close>

lemma tags_do_not_separate: "deck_preimage [c] = combined_preimage [c]"
  by (simp add: deck_preimage_def combined_preimage_def varint_bytes_def)

section \<open>The tags of the shared types\<close>

datatype type_tag =
    Tag_RULE_SET | Tag_PLAYER | Tag_WALLET_IDENTITY | Tag_GAME_INSTANCE | Tag_ENTROPY_COMMITMENT
  | Tag_ENTROPY_REVEAL | Tag_DECK_COMMITMENT | Tag_CARD | Tag_ROUND_STATE | Tag_SIGNED_ACTION
  | Tag_TIMEOUT_BRANCH | Tag_REVEAL_PROOF | Tag_SETTLEMENT_RESULT | Tag_RECOVERY_RECORD | Tag_AUDIT_TRANSCRIPT
  | Tag_TX_TEMPLATE_REF | Tag_BINDING_FIELDS | Tag_TABLE_STATE | Tag_POT_STATE | Tag_WIRE_FRAME

fun TYPE_TAG :: "type_tag \<Rightarrow> int" where
  "TYPE_TAG Tag_RULE_SET = 0x0001"
| "TYPE_TAG Tag_PLAYER = 0x0002"
| "TYPE_TAG Tag_WALLET_IDENTITY = 0x0003"
| "TYPE_TAG Tag_GAME_INSTANCE = 0x0004"
| "TYPE_TAG Tag_ENTROPY_COMMITMENT = 0x0005"
| "TYPE_TAG Tag_ENTROPY_REVEAL = 0x0006"
| "TYPE_TAG Tag_DECK_COMMITMENT = 0x0007"
| "TYPE_TAG Tag_CARD = 0x0008"
| "TYPE_TAG Tag_ROUND_STATE = 0x0009"
| "TYPE_TAG Tag_SIGNED_ACTION = 0x000a"
| "TYPE_TAG Tag_TIMEOUT_BRANCH = 0x000b"
| "TYPE_TAG Tag_REVEAL_PROOF = 0x000c"
| "TYPE_TAG Tag_SETTLEMENT_RESULT = 0x000d"
| "TYPE_TAG Tag_RECOVERY_RECORD = 0x000e"
| "TYPE_TAG Tag_AUDIT_TRANSCRIPT = 0x000f"
| "TYPE_TAG Tag_TX_TEMPLATE_REF = 0x0010"
| "TYPE_TAG Tag_BINDING_FIELDS = 0x0011"
| "TYPE_TAG Tag_TABLE_STATE = 0x0012"
| "TYPE_TAG Tag_POT_STATE = 0x0013"
| "TYPE_TAG Tag_WIRE_FRAME = 0x0014"

lemma TYPE_TAG_inj: "TYPE_TAG t = TYPE_TAG u \<longleftrightarrow> t = u"
  by (cases t; cases u) simp_all

lemma crypto_cards_tags:
  "TAG_ENTROPY_COMMITMENT = TYPE_TAG Tag_ENTROPY_COMMITMENT" "TAG_ENTROPY_REVEAL = TYPE_TAG Tag_ENTROPY_REVEAL"
  "TAG_DECK_COMMITMENT = TYPE_TAG Tag_DECK_COMMITMENT" "TAG_CARD = TYPE_TAG Tag_CARD"
  "TAG_REVEAL_PROOF = TYPE_TAG Tag_REVEAL_PROOF" "TAG_RULE_SET = TYPE_TAG Tag_RULE_SET"
  by (simp_all add: tags TAG_RULE_SET_def)

lemma TYPE_TAG_range: "0 \<le> TYPE_TAG t \<and> TYPE_TAG t < 256"
  by (cases t) simp_all

text \<open>Strings hashed under different types differ, whatever their bodies.\<close>

lemma typed_strings_apart:
  assumes "encodeTagLE (TYPE_TAG t) @ x = encodeTagLE (TYPE_TAG u) @ y"
  shows "t = u \<and> x = y"
proof -
  have "u8 (TYPE_TAG t) = u8 (TYPE_TAG u)"
    using assms by (simp add: encodeTagLE_def)
  then have "t = u" using u8_inj[of "TYPE_TAG t" "TYPE_TAG u"] TYPE_TAG_range TYPE_TAG_inj by blast
  then show ?thesis using assms by (simp add: encodeTagLE_def)
qed

section \<open>Concatenation\<close>

text \<open>\<open>concat(...parts)\<close> allocates the sum of the lengths and copies part after part at a running offset;
  \<open>set_at\<close> is \<open>TypedArray.set\<close> of a part that fits.\<close>

definition set_at :: "byte list \<Rightarrow> nat \<Rightarrow> byte list \<Rightarrow> byte list" where
  "set_at out off p = take off out @ p @ drop (off + length p) out"

definition concat_bytes :: "byte list list \<Rightarrow> byte list" where
  "concat_bytes parts =
     (let total = foldl (\<lambda>t p. t + length p) 0 parts
      in fst (foldl (\<lambda>(out, off) p. (set_at out off p, off + length p)) (replicate total 0, 0) parts))"

lemma total_length: "foldl (\<lambda>t p. t + length p) n parts = n + length (concat parts)"
  by (induction parts arbitrary: n) auto

lemma copy_loop:
  "foldl (\<lambda>(out, off) p. (set_at out off p, off + length p)) (pre @ replicate (length (concat parts)) 0, length pre) parts
     = (pre @ concat parts, length pre + length (concat parts))"
proof (induction parts arbitrary: pre)
  case (Cons p parts)
  have "set_at (pre @ replicate (length (concat (p # parts))) 0) (length pre) p
      = (pre @ p) @ replicate (length (concat parts)) 0"
    by (simp add: set_at_def)
  then show ?case using Cons.IH[of "pre @ p"] by simp
qed simp

lemma concat_bytes_eq: "concat_bytes parts = concat parts"
  using copy_loop[of "[]" parts] by (simp add: concat_bytes_def total_length)

end
