(* ===== verification/Spec2Isabelle.thy ===== *)
theory Spec2Isabelle
  imports Game_Laws Signing Rule_Codec Fallback Typing Conceal Relay_Client Recorder_Session Messages Load_Test App_Shell Domains
begin

text \<open>
  A verification library of the card-table protocol (the TypeScript packages, tools and client).

  \<^bold>\<open>The program.\<close> Players seat themselves at a table, commit to and reveal entropy, and play the game
  In-Between over a deck that is shuffled from everybody's entropy. The package \<open>state-engine\<close> holds the
  state machine: \<open>applyAction\<close> takes a round state, a signed action, a rule set and the block height and
  returns the next state or an error. \<open>verify.ts\<close> puts a cryptographic gate in front of it, built from the
  package \<open>crypto-cards\<close> (entropy, shuffle, deck commitments, reveal proofs); \<open>replay.ts\<close> and the transcript
  tools run the gate over recorded sessions. \<open>fallback*.ts\<close> and \<open>tx-orchestrator.ts\<close> enumerate the exits of a
  state and turn them into scripts (package \<open>script-templates\<close>) and transactions (package \<open>tx-builder\<close>).
  \<open>protocol-types\<close> holds the shared types and the canonical encodings, \<open>wire-ts\<close> the frames between
  client and relay, and \<open>apps/client-web\<close> the browser client.

  \<^bold>\<open>Theories and sources.\<close>
  \<^item> \<open>Prelude\<close>: sums as results, sequencing, arrays, safe integers, guarded machines.
  \<^item> \<open>Primitives\<close>, \<open>Cards\<close>, \<open>Protocol_Types\<close>, \<open>Messages\<close>: the types of \<open>protocol-types\<close>, their validating
    constructors (\<open>asSeat\<close>, \<open>asHash256\<close>, ...), card ordinals, message codes.
  \<^item> \<open>Penalties\<close>, \<open>Engine\<close>: \<open>pot.ts\<close>, \<open>penalties.ts\<close> and \<open>engine.ts\<close>, one definition per handler.
  \<^item> \<open>Transitions\<close>: the relation \<open>estep\<close>, one rule per accepted step, the characterisation of each handler,
    and \<open>reachable\<close>. \<open>Invariants\<close>, \<open>Accounting\<close>: the invariants of reachable states, value, turn order and
    a bound on sessions. \<open>Scenario\<close>: a concrete session. \<open>Game_Laws\<close>: the properties of the engine.
  \<^item> \<open>Bytes\<close>: byte lists, the 32-bit operators of JavaScript, hexadecimal text, variable-length integers, and
    the locale \<open>codec\<close> that every encoder and decoder pair interprets.
  \<^item> \<open>Transactions\<close>, \<open>Signing\<close>: \<open>tx-builder\<close>, the transaction codec, signature hashes, DER.
  \<^item> \<open>Canonical\<close>, \<open>Rule_Codec\<close>, \<open>State_Hash\<close>: \<open>serialisation.ts\<close>, \<open>hash.ts\<close>, \<open>rule-set-codec.ts\<close>, \<open>serialise.ts\<close>;
    the locale \<open>prefix_code\<close> for encodings that are only written and hashed.
  \<^item> \<open>Entropy\<close>, \<open>Shuffle\<close>, \<open>Deck\<close>, \<open>Conceal\<close>: \<open>crypto-cards\<close>. \<open>Domains\<close>: its hashed strings side by side, and the
    type tags.
  \<^item> \<open>Verify\<close>, \<open>Replay\<close>: \<open>verify.ts\<close>; \<open>replay.ts\<close>, \<open>ordering.ts\<close>, \<open>timeout.ts\<close>.
  \<^item> \<open>Script\<close>, \<open>Templates\<close>, \<open>Fallback\<close>: \<open>script-templates\<close>; \<open>fallback.ts\<close>, \<open>fallback-build.ts\<close>,
    \<open>tx-orchestrator.ts\<close>.
  \<^item> \<open>Wire\<close>, \<open>Client\<close>, \<open>Relay_Client\<close>, \<open>App_Shell\<close>: \<open>wire-ts\<close>; \<open>store.ts\<close>, \<open>relay-client.ts\<close> and
    \<open>App.tsx\<close> of \<open>apps/client-web\<close>.
  \<^item> \<open>Simulators\<close>, \<open>Transcript_Tools\<close>, \<open>Command_Lines\<close>, \<open>Recorder_Session\<close>, \<open>Load_Test\<close>: the tools, from their
    arguments to what they print or write.
  \<^item> \<open>Typing\<close>: the brands of \<open>primitives.ts\<close> as predicates over all interfaces.

  \<^bold>\<open>How the model reads.\<close> An interface is a record with the source's field names, a string union a datatype,
  \<open>T | null\<close> an option. A returned protocol error is \<open>Inl (Rejected code)\<close>, a thrown exception
  \<open>Inl (Thrown f)\<close> with the function that throws; the two are never merged, because several functions of
  the source throw where they promise a result. Numbers are integers with the safe-integer checks of the
  source written out; bit operators go through 32-bit words. Byte arrays are lists of 8-bit words.
  Asynchronous functions are modelled by their result; where the interleaving matters (connecting and
  sending in the client) the function is split at its \<open>await\<close>.

  \<^bold>\<open>Termination and bounds.\<close> Nothing uses fuel. Two loops of the source have no evident bound and are
  partial functions into option: rejection sampling (\<open>draw_loop\<close>; C18 proves that the shuffle always
  returns, because the block counter of its hash stream is bounded and its overflow throws) and the
  doubling of the writer's buffer (\<open>grow_cap\<close>; it ends for every capacity above zero, and only for those:
  \<open>Canonical.ensure_terminates_iff\<close>). All other recursion is structural or has a measure. Sessions are
  finite: C4 bounds the accepted actions by the player maximum.

  \<^bold>\<open>What the lemmas show.\<close> The engine accepts exactly the steps of \<open>estep\<close> (C1); from this follow the
  invariants of reachable states (C2), the accounting of value (C3), the end of every session (C4), turn
  order (C5), recovery (C6), commitment before reveal (C7), concealed decks and folding (C8, C9), the
  preview (C10), dead ends (C11, C12) and failures (C13); \<open>Game_Laws.classification_by_ranks\<close> states the
  classification in ranks. C14 to C17 and C30, C31 are the codecs: what is encoded decodes to itself, or
  determines what was encoded up to collisions of the hash. C18 to C22 are the cryptographic deck:
  permutations, draws that accept equally many words for each value, separation of the hashed strings, binding. C23 to C26 compose gate and engine:
  the deck of a verified session is that of its players' entropies, reveals show its cards, honest reveals
  are accepted, and verified replay refines plain replay. C27 reads every script template back from its
  bytes; C28 and C29 are the fallback graph, its timing and what the engine accepts of it. C32 and C33 follow
  the transcript tools, C34 the types, C35 and C36 the browser client offline and connected, C37 the sealing
  of concealed cards: who opens them, and who does not. C38 refines the recorder's submissions by its live
  client, for every interleaving of arrivals with its own steps; C39 and C40 are the load test: its
  schedule, for every order in which sessions end, fail or hang, and its report.

  \<^bold>\<open>Parameters.\<close> SHA-256 is an argument \<open>sha\<close> of which only the length of the digest is assumed; freedom of
  collisions is assumed only as injectivity on the explicit finite set of strings a theorem names. The
  curve libraries, HKDF and AES-GCM are arguments with their documented laws (\<open>Signing\<close>, \<open>Conceal\<close>), and
  secrecy rests on two assumptions about the keys a statement names: HKDF does not collide on their inputs,
  and what is sealed under one does not open under another;
  \<open>JSON.parse\<close>, \<open>JSON.stringify\<close>, files and the WebSocket are arguments too.

  \<^bold>\<open>Not modelled.\<close> Error texts and notes for people; text beyond U+00FF, because characters of the model are
  bytes; reading a view's underlying buffer at an offset; markup and fixed texts of \<open>App.tsx\<close>;
  the \<open>index.ts\<close> files of the packages, which only re-export; the Go programs, which implement the same
  protocol a second time.
\<close>

end
